(* ===== verification/Prelude.thy ===== *)
theory Prelude
  imports Main "HOL-Library.Word" "HOL-Library.AList" "HOL-Library.Monad_Syntax"
begin

text \<open>
  Shared vocabulary of the development: bytes and big-endian integers as Go's
  \<^verbatim>\<open>encoding/binary\<close> reads and writes them, Go strings as byte strings, Go maps as
  association lists with distinct keys (the list order is the iteration order, over which
  every theorem quantifies), the \<open>error + 'a\<close> results of fallible functions, and the
  locale of step functions that keep an invariant, which the stateful components
  interpret.
\<close>

unbundle bit_operations_syntax

named_theorems bytes_simps \<open>facts on big-endian encodings and slices\<close>
named_theorems gomap_simps \<open>facts on Go maps as association lists\<close>

type_synonym byte = "8 word"
type_synonym bytes = "byte list"
type_synonym u16 = "16 word"
type_synonym u32 = "32 word"
type_synonym u64 = "64 word"
type_synonym time = int \<comment> \<open>\<^verbatim>\<open>time.Time\<close> and \<^verbatim>\<open>time.Duration\<close>, in nanoseconds\<close>

abbreviation second :: time where "second \<equiv> 1000000000"
abbreviation millisecond :: time where "millisecond \<equiv> 1000000"

section \<open>Lists\<close>

lemma take_append_length [simp]: "length xs = n \<Longrightarrow> take n (xs @ ys) = xs"
  by simp

lemma drop_append_length [simp]: "length xs = n \<Longrightarrow> drop n (xs @ ys) = ys"
  by simp

definition slice :: "'a list \<Rightarrow> nat \<Rightarrow> nat \<Rightarrow> 'a list" where
  "slice xs i j = take (j - i) (drop i xs)"

lemma length_slice [simp]: "length (slice xs i j) = min (j - i) (length xs - i)"
  by (simp add: slice_def)

lemma slice_append_left [simp]: "j \<le> length xs \<Longrightarrow> slice (xs @ ys) i j = slice xs i j"
  by (simp add: slice_def)

lemma slice_append_right [simp]:
  "length xs \<le> i \<Longrightarrow> slice (xs @ ys) i j = slice ys (i - length xs) (j - length xs)"
  by (simp add: slice_def)

lemma slice_all [simp]: "slice xs 0 (length xs) = xs"
  by (simp add: slice_def)

section \<open>Big-endian integers\<close>

lemma unat_less_256 [simp]: "unat (b :: byte) < 256"
  using unsigned_less [of b, where 'a = nat] by simp

lemma unat_less_u16 [simp]: "unat (w :: u16) < 65536"
  using unsigned_less [of w, where 'a = nat] by simp

lemma unat_less_u32 [simp]: "unat (w :: u32) < 4294967296"
  using unsigned_less [of w, where 'a = nat] by simp

lemma unat_less_u64 [simp]: "unat (w :: u64) < 18446744073709551616"
  using unsigned_less [of w, where 'a = nat] by simp

fun be_encode :: "nat \<Rightarrow> nat \<Rightarrow> bytes" where
  "be_encode 0 n = []"
| "be_encode (Suc k) n = be_encode k (n div 256) @ [word_of_nat (n mod 256)]"

definition be_decode :: "bytes \<Rightarrow> nat" where
  "be_decode bs = foldl (\<lambda>a b. 256 * a + unat b) 0 bs"

lemma length_be_encode [simp]: "length (be_encode k n) = k"
  by (induction k arbitrary: n) auto

lemma be_decode_snoc [simp]: "be_decode (bs @ [b]) = 256 * be_decode bs + unat b"
  by (simp add: be_decode_def)

lemma be_decode_Nil [simp]: "be_decode [] = 0"
  by (simp add: be_decode_def)

lemma be_decode_encode [bytes_simps]: "be_decode (be_encode k n) = n mod 256 ^ k"
proof (induction k arbitrary: n)
  case 0
  then show ?case by simp
next
  case (Suc k)
  have "unat (word_of_nat (n mod 256) :: byte) = n mod 256"
    by (simp add: unat_of_nat)
  then have "be_decode (be_encode (Suc k) n) = 256 * (n div 256 mod 256 ^ k) + n mod 256"
    by (simp add: Suc.IH)
  also have "\<dots> = n mod 256 ^ Suc k"
    by (simp add: mod_mult2_eq)
  finally show ?case .
qed

lemma be_decode_less: "be_decode bs < 256 ^ length bs"
proof (induction bs rule: rev_induct)
  case Nil
  then show ?case by simp
next
  case (snoc b bs)
  have "unat b < 256" by simp
  moreover from snoc.IH have "256 * be_decode bs + 256 \<le> 256 * 256 ^ length bs" by simp
  ultimately show ?case by (simp del: unat_less_256)
qed

lemma be_encode_decode [bytes_simps]: "length bs = k \<Longrightarrow> be_encode k (be_decode bs) = bs"
proof (induction bs arbitrary: k rule: rev_induct)
  case Nil
  then show ?case by simp
next
  case (snoc b bs)
  have "unat b < 256" by simp
  then have "(256 * be_decode bs + unat b) div 256 = be_decode bs"
    and "(256 * be_decode bs + unat b) mod 256 = unat b"
    by simp_all
  with snoc show ?case by auto
qed

text \<open>\<^verbatim>\<open>binary.BigEndian.PutUint16\<close> and its kin, and their readers on the first bytes.\<close>

definition put16 :: "u16 \<Rightarrow> bytes" where "put16 w = be_encode 2 (unat w)"
definition put32 :: "u32 \<Rightarrow> bytes" where "put32 w = be_encode 4 (unat w)"
definition put64 :: "u64 \<Rightarrow> bytes" where "put64 w = be_encode 8 (unat w)"
definition get16 :: "bytes \<Rightarrow> u16" where "get16 bs = word_of_nat (be_decode (take 2 bs))"
definition get32 :: "bytes \<Rightarrow> u32" where "get32 bs = word_of_nat (be_decode (take 4 bs))"
definition get64 :: "bytes \<Rightarrow> u64" where "get64 bs = word_of_nat (be_decode (take 8 bs))"

lemma length_put [simp]: "length (put16 a) = 2" "length (put32 b) = 4" "length (put64 c) = 8"
  by (simp_all add: put16_def put32_def put64_def)

lemma get16_put16 [simp]: "get16 (put16 w @ bs) = w"
  by (simp add: get16_def put16_def be_decode_encode)

lemma get32_put32 [simp]: "get32 (put32 w @ bs) = w"
  by (simp add: get32_def put32_def be_decode_encode)

lemma get64_put64 [simp]: "get64 (put64 w @ bs) = w"
  by (simp add: get64_def put64_def be_decode_encode)

lemma get_put_exact [simp]: "get16 (put16 a) = a" "get32 (put32 b) = b" "get64 (put64 c) = c"
  using get16_put16 [of a "[]"] get32_put32 [of b "[]"] get64_put64 [of c "[]"] by simp_all

lemma put16_get16: "length bs = 2 \<Longrightarrow> put16 (get16 bs) = bs"
  using be_decode_less [of bs]
  by (simp add: put16_def get16_def unat_of_nat be_encode_decode)

lemma put32_get32: "length bs = 4 \<Longrightarrow> put32 (get32 bs) = bs"
  using be_decode_less [of bs]
  by (simp add: put32_def get32_def unat_of_nat be_encode_decode)

text \<open>\<^verbatim>\<open>(n + 3) &^ 3\<close>: rounding up to a multiple of four.\<close>

definition pad4 :: "nat \<Rightarrow> nat" where "pad4 n = (n + 3) div 4 * 4"

lemma pad4_bounds: "n \<le> pad4 n" "pad4 n < n + 4"
  unfolding pad4_def by presburger+

lemma pad4_mod [simp]: "pad4 n mod 4 = 0"
  by (simp add: pad4_def)

lemma pad4_eq: "pad4 n = n + (4 - n mod 4) mod 4"
proof -
  have "n = 4 * (n div 4) + n mod 4" by simp
  moreover have "n mod 4 < 4" by simp
  ultimately obtain q r where n: "n = 4 * q + r" "n mod 4 = r" "r < 4" by blast
  then have "r = 0 \<or> r = 1 \<or> r = 2 \<or> r = 3" by linarith
  then show ?thesis unfolding n(2) unfolding pad4_def n(1) by auto
qed

section \<open>Go strings\<close>

text \<open>
  A Go string is a byte sequence; so is HOL's \<open>string\<close>, whose characters are the 256
  values of a byte. The two conversions are \<^verbatim>\<open>[]byte(s)\<close> and \<^verbatim>\<open>string(b)\<close>.
\<close>

definition bytes_of :: "string \<Rightarrow> bytes" where
  "bytes_of s = map (\<lambda>c. word_of_nat (of_char c)) s"

definition string_of :: "bytes \<Rightarrow> string" where
  "string_of bs = map (\<lambda>b. char_of (unat b)) bs"

lemma length_bytes_of [simp]: "length (bytes_of s) = length s"
  by (simp add: bytes_of_def)

lemma bytes_of_append [simp]: "bytes_of (s @ t) = bytes_of s @ bytes_of t"
  by (simp add: bytes_of_def)

lemma of_char_less_256: "(of_char c :: nat) < 256"
  using of_char_mod_256 [of c, where 'a = nat] by (metis mod_less_divisor zero_less_numeral)

lemma string_of_bytes_of [simp]: "string_of (bytes_of s) = s"
  by (induction s) (simp_all add: string_of_def bytes_of_def unat_of_nat of_char_less_256)

lemma bytes_of_string_of [simp]: "bytes_of (string_of bs) = bs"
proof (induction bs)
  case Nil
  then show ?case by (simp add: bytes_of_def string_of_def)
next
  case (Cons b bs)
  have "unat b < 256" by simp
  with Cons show ?case by (simp add: bytes_of_def string_of_def)
qed

lemma bytes_of_inj [simp]: "bytes_of s = bytes_of t \<longleftrightarrow> s = t"
  by (metis string_of_bytes_of)

lemma bytes_of_Nil [simp]: "bytes_of s = [] \<longleftrightarrow> s = []"
  by (simp add: bytes_of_def)

section \<open>Go maps\<close>

type_synonym ('k, 'v) gomap = "('k \<times> 'v) list"

definition gm_ok :: "('k, 'v) gomap \<Rightarrow> bool" where
  "gm_ok m \<longleftrightarrow> distinct (map fst m)"

abbreviation gm_get :: "('k, 'v) gomap \<Rightarrow> 'k \<Rightarrow> 'v option" where
  "gm_get m k \<equiv> map_of m k"

abbreviation gm_put :: "'k \<Rightarrow> 'v \<Rightarrow> ('k, 'v) gomap \<Rightarrow> ('k, 'v) gomap" where
  "gm_put k v m \<equiv> AList.update k v m"

abbreviation gm_del :: "'k \<Rightarrow> ('k, 'v) gomap \<Rightarrow> ('k, 'v) gomap" where
  "gm_del k m \<equiv> AList.delete k m"

text \<open>\<^verbatim>\<open>for k, v := range m { if !keep(k, v) { delete(m, k) } }\<close>\<close>

definition gm_keep :: "('k \<Rightarrow> 'v \<Rightarrow> bool) \<Rightarrow> ('k, 'v) gomap \<Rightarrow> ('k, 'v) gomap" where
  "gm_keep keep m = filter (\<lambda>(k, v). keep k v) m"

lemma gm_ok_empty [simp]: "gm_ok []"
  by (simp add: gm_ok_def)

lemma gm_ok_put [simp, intro]: "gm_ok m \<Longrightarrow> gm_ok (gm_put k v m)"
  by (simp add: gm_ok_def distinct_update)

lemma gm_ok_del [simp, intro]: "gm_ok m \<Longrightarrow> gm_ok (gm_del k m)"
  by (simp add: gm_ok_def distinct_delete)

lemma gm_ok_keep [simp, intro]: "gm_ok m \<Longrightarrow> gm_ok (gm_keep keep m)"
  unfolding gm_ok_def gm_keep_def by (rule distinct_map_filter)

lemma gm_get_put [gomap_simps, simp]: "gm_get (gm_put k v m) j = (if j = k then Some v else gm_get m j)"
  by (simp add: update_conv')

lemma gm_get_del [gomap_simps, simp]: "gm_get (gm_del k m) j = (if j = k then None else gm_get m j)"
  by (simp add: delete_conv')

lemma gm_get_keep [gomap_simps]:
  "gm_ok m \<Longrightarrow> gm_get (gm_keep keep m) k =
     (case gm_get m k of Some v \<Rightarrow> if keep k v then Some v else None | None \<Rightarrow> None)"
proof (induction m)
  case Nil
  then show ?case by (simp add: gm_keep_def)
next
  case (Cons kv m)
  obtain k' v where kv: "kv = (k', v)" by fastforce
  from Cons.prems have "gm_ok m" and notin: "k' \<notin> fst ` set m" by (auto simp: gm_ok_def kv)
  then have IH: "gm_get (gm_keep keep m) k =
     (case gm_get m k of Some v \<Rightarrow> if keep k v then Some v else None | None \<Rightarrow> None)"
    using Cons.IH by blast
  from notin have "gm_get m k' = None" by (simp add: map_of_eq_None_iff)
  with IH show ?case by (auto simp: gm_keep_def kv)
qed

lemma gm_get_set: "gm_ok m \<Longrightarrow> (k, v) \<in> set m \<longleftrightarrow> gm_get m k = Some v"
  by (simp add: gm_ok_def)

lemma length_gm_keep: "length (gm_keep keep m) \<le> length m"
  by (simp add: gm_keep_def)

lemma set_gm_keep [simp]: "set (gm_keep keep m) = {(k, v) \<in> set m. keep k v}"
  by (auto simp: gm_keep_def)

lemma length_gm_del_le: "length (gm_del k m) \<le> length m"
  by (induction m) auto

lemma length_gm_del:
  "gm_ok m \<Longrightarrow> gm_get m k = Some v \<Longrightarrow> Suc (length (gm_del k m)) = length m"
proof (induction m)
  case Nil
  then show ?case by simp
next
  case (Cons kv m)
  obtain k' v' where kv: "kv = (k', v')" by fastforce
  show ?case
  proof (cases "k' = k")
    case True
    with Cons.prems kv have "k \<notin> fst ` set m" by (auto simp: gm_ok_def)
    then have "gm_del k m = m" by (simp add: delete_idem)
    with True kv show ?thesis by simp
  next
    case False
    with Cons kv show ?thesis by (auto simp: gm_ok_def)
  qed
qed

lemma length_gm_put: "length (gm_put k v m) = (if gm_get m k = None then Suc (length m) else length m)"
  by (induction m) auto

lemma set_gm_del: "gm_ok m \<Longrightarrow> set (gm_del k m) = {kv \<in> set m. fst kv \<noteq> k}"
  by (auto simp: AList.delete_eq)

lemma set_gm_put: "gm_ok m \<Longrightarrow> set (gm_put k v m) = insert (k, v) {kv \<in> set m. fst kv \<noteq> k}"
proof -
  assume ok: "gm_ok m"
  then have ok': "gm_ok (gm_put k v m)" by simp
  show ?thesis
  proof (rule set_eqI)
    fix kv :: "'a \<times> 'b"
    obtain j w where kv: "kv = (j, w)" by fastforce
    show "kv \<in> set (gm_put k v m) \<longleftrightarrow> kv \<in> insert (k, v) {kv \<in> set m. fst kv \<noteq> k}"
      using gm_get_set [OF ok', of j w] gm_get_set [OF ok, of j w] by (auto simp: kv)
  qed
qed

section \<open>Components that keep an invariant\<close>

text \<open>
  The contract every stateful component offers its clients: a step function over its
  operations, an invariant, and the law that each operation keeps it. What a client gets
  from it is the invariant after any sequence of operations, in any order.
\<close>

locale invariant_steps =
  fixes step :: "'s \<Rightarrow> 'op \<Rightarrow> 's"
    and inv :: "'s \<Rightarrow> bool"
  assumes step_inv: "inv s \<Longrightarrow> inv (step s e)"
begin

lemma run_inv: "inv s \<Longrightarrow> inv (foldl step s es)"
  by (induction es arbitrary: s) (auto intro: step_inv)

lemma run_prefix_inv: "inv s \<Longrightarrow> inv (foldl step s (take n es))"
  by (rule run_inv)

end

section \<open>Components that implement an abstract one\<close>

text \<open>Running a step function with outputs over a list of inputs.\<close>

fun run_outputs :: "('s \<Rightarrow> 'i \<Rightarrow> 'o \<times> 's) \<Rightarrow> 's \<Rightarrow> 'i list \<Rightarrow> 'o list \<times> 's" where
  "run_outputs step s [] = ([], s)"
| "run_outputs step s (i # is) =
     (let (x, s) = step s i; (xs, s) = run_outputs step s is in (x # xs, s))"

text \<open>
  A forward simulation: related states answer every input alike and stay related. What it
  gives is that the two machines answer every sequence of inputs alike.
\<close>

locale simulation =
  fixes cstep :: "'c \<Rightarrow> 'i \<Rightarrow> 'o \<times> 'c"
    and astep :: "'a \<Rightarrow> 'i \<Rightarrow> 'o \<times> 'a"
    and rel :: "'c \<Rightarrow> 'a \<Rightarrow> bool"
  assumes sim_output: "rel c a \<Longrightarrow> fst (cstep c i) = fst (astep a i)"
    and sim_state: "rel c a \<Longrightarrow> rel (snd (cstep c i)) (snd (astep a i))"
begin

lemma run_refines:
  "rel c a \<Longrightarrow> fst (run_outputs cstep c is) = fst (run_outputs astep a is) \<and>
     rel (snd (run_outputs cstep c is)) (snd (run_outputs astep a is))"
proof (induction "is" arbitrary: c a)
  case (Cons i "is")
  from Cons.IH [OF sim_state [OF Cons.prems, of i]] sim_output [OF Cons.prems, of i]
  show ?case by (simp add: case_prod_beta)
qed simp

end

end
