(* ===== verification/Tunnel.thy ===== *)
theory Tunnel
  imports Prelude
begin

text \<open>
  The multiplexed P2P tunnel of \<^verbatim>\<open>cmd/p2p/tunnel.go\<close>: frames, streams, the read
  loop and the handler of incoming streams. Stream objects live in a heap (a list, a
  pointer is an index), because the code keeps pointers to streams that have left the
  tunnel's map, and the read loop's buffer is part of the state, because the handler of a
  new stream holds a slice of it.
\<close>

section \<open>State\<close>

record p2p_stream =
  ps_id :: u32
  ps_buf :: bytes
  ps_closed :: bool

text \<open>
  An incoming stream's handler goroutine: not yet past its dial, holding the slice
  \<^verbatim>\<open>buf[off : off+len]\<close> of the read loop's buffer, then copying, then finished.
\<close>

datatype handler_phase = HNew nat nat | HRunning | HDone

record p2p_tunnel =
  pt_local_proxy :: string
  pt_streams :: "(u32, nat) gomap"
  pt_objs :: "p2p_stream list"
  pt_next_id :: u32
  pt_step :: u32
  pt_closed :: bool
  pt_buf :: bytes
  pt_reading :: bool
  pt_out :: "bytes list"
  pt_writes :: nat
  pt_conn_closed :: bool
  pt_handlers :: "(nat \<times> handler_phase) list"
  pt_target :: "(nat \<times> bytes) list"

datatype tunnel_error = TunnelClosed | StreamClosed | PayloadTooLarge | ConnWriteFailed

definition p2pHeaderSize :: nat where "p2pHeaderSize = 8"
definition p2pMaxPayload :: nat where "p2pMaxPayload = 65000"
definition msgTypeData :: byte where "msgTypeData = 1"
definition msgTypeClose :: byte where "msgTypeClose = 2"

text \<open>The largest payload of one frame, 64991 bytes.\<close>

definition maxChunk :: nat where "maxChunk = p2pMaxPayload - p2pHeaderSize - 1"

lemma maxChunk_value: "maxChunk = 64991"
  by (simp add: maxChunk_def p2pMaxPayload_def p2pHeaderSize_def)

definition newP2PTunnel :: "string \<Rightarrow> u32 \<Rightarrow> u32 \<Rightarrow> p2p_tunnel" where
  "newP2PTunnel proxy nextID streamStep =
     \<lparr>pt_local_proxy = proxy, pt_streams = [], pt_objs = [], pt_next_id = nextID,
      pt_step = streamStep, pt_closed = False,
      pt_buf = replicate (p2pMaxPayload + p2pHeaderSize + 1) 0, pt_reading = True,
      pt_out = [], pt_writes = 0, pt_conn_closed = False, pt_handlers = [], pt_target = []\<rparr>"

definition NewP2PTunnelWithRole :: "string \<Rightarrow> bool \<Rightarrow> p2p_tunnel" where
  "NewP2PTunnelWithRole proxy controlling =
     (if controlling then newP2PTunnel proxy 0 2 else newP2PTunnel proxy (NOT 0) 2)"

definition NewP2PTunnel :: "string \<Rightarrow> p2p_tunnel" where
  "NewP2PTunnel proxy = newP2PTunnel proxy 1 1"

section \<open>Frames\<close>

definition p2p_frame :: "byte \<Rightarrow> u32 \<Rightarrow> bytes \<Rightarrow> bytes" where
  "p2p_frame msgType sid payload =
     msgType # put32 sid @ put32 (word_of_nat (length payload)) @ payload"

text \<open>
  The head of a read loop iteration on the first \<open>n\<close> bytes of the buffer: the message
  type, the stream ID and the payload's slice, or nothing when the loop continues.
\<close>

definition p2p_parse :: "bytes \<Rightarrow> nat \<Rightarrow> (byte \<times> u32 \<times> nat \<times> nat) option" where
  "p2p_parse buf n =
     (if n < p2pHeaderSize + 1 then None
      else let payloadLen = unat (get32 (slice buf 5 9)) in
        if payloadLen > n - p2pHeaderSize - 1 then None
        else Some (buf ! 0, get32 (slice buf 1 5), p2pHeaderSize + 1, payloadLen))"

section \<open>Stream operations\<close>

text \<open>
  \<open>cw k\<close> is the outcome of the \<open>k\<close>-th write on the underlying connection: whether it
  succeeds is the network's choice.
\<close>

definition conn_write :: "(nat \<Rightarrow> bool) \<Rightarrow> p2p_tunnel \<Rightarrow> bytes \<Rightarrow> bool \<times> p2p_tunnel" where
  "conn_write cw t frame =
     (if cw (pt_writes t)
      then (True, t\<lparr>pt_writes := Suc (pt_writes t), pt_out := pt_out t @ [frame]\<rparr>)
      else (False, t\<lparr>pt_writes := Suc (pt_writes t)\<rparr>))"

definition writeFrame ::
  "(nat \<Rightarrow> bool) \<Rightarrow> p2p_tunnel \<Rightarrow> nat \<Rightarrow> byte \<Rightarrow> bytes \<Rightarrow> tunnel_error option \<times> p2p_tunnel" where
  "writeFrame cw t h msgType payload =
     (if length payload > maxChunk then (Some PayloadTooLarge, t)
      else if pt_closed t then (Some TunnelClosed, t)
      else case conn_write cw t (p2p_frame msgType (ps_id (pt_objs t ! h)) payload) of
             (ok, t') \<Rightarrow> (if ok then None else Some ConnWriteFailed, t'))"

text \<open>The fragmenting loop of \<^verbatim>\<open>Write\<close>: the bytes written and the error, if any.\<close>

function write_chunks ::
  "(nat \<Rightarrow> bool) \<Rightarrow> p2p_tunnel \<Rightarrow> nat \<Rightarrow> bytes \<Rightarrow> nat \<Rightarrow> (nat \<times> tunnel_error option) \<times> p2p_tunnel" where
  "write_chunks cw t h p written =
     (if written < length p then
        let stop = min (written + maxChunk) (length p) in
        case writeFrame cw t h msgTypeData (slice p written stop) of
          (Some e, t') \<Rightarrow> ((written, Some e), t')
        | (None, t') \<Rightarrow> write_chunks cw t' h p stop
      else ((length p, None), t))"
  by pat_completeness auto
termination
  by (relation "measure (\<lambda>(cw, t, h, p, written). length p - written)")
     (auto simp: maxChunk_value)

declare write_chunks.simps [simp del]

definition stream_Write ::
  "(nat \<Rightarrow> bool) \<Rightarrow> p2p_tunnel \<Rightarrow> nat \<Rightarrow> bytes \<Rightarrow> (nat \<times> tunnel_error option) \<times> p2p_tunnel" where
  "stream_Write cw t h p =
     (if ps_closed (pt_objs t ! h) then ((0, Some StreamClosed), t) else write_chunks cw t h p 0)"

datatype read_result = ReadBytes bytes | ReadEOF | ReadBlocks

definition stream_Read :: "p2p_tunnel \<Rightarrow> nat \<Rightarrow> nat \<Rightarrow> read_result \<times> p2p_tunnel" where
  "stream_Read t h k =
     (let s = pt_objs t ! h in
      if ps_buf s \<noteq> [] then
        (ReadBytes (take k (ps_buf s)), t\<lparr>pt_objs := (pt_objs t)[h := s\<lparr>ps_buf := drop k (ps_buf s)\<rparr>]\<rparr>)
      else if ps_closed s then (ReadEOF, t)
      else (ReadBlocks, t))"

text \<open>\<^verbatim>\<open>release\<close> deletes the map entry of the stream's ID, whichever stream it names.\<close>

definition release :: "p2p_tunnel \<Rightarrow> nat \<Rightarrow> p2p_tunnel" where
  "release t h = t\<lparr>pt_streams := gm_del (ps_id (pt_objs t ! h)) (pt_streams t)\<rparr>"

definition mark_closed :: "p2p_tunnel \<Rightarrow> nat \<Rightarrow> p2p_tunnel" where
  "mark_closed t h = t\<lparr>pt_objs := (pt_objs t)[h := (pt_objs t ! h)\<lparr>ps_closed := True\<rparr>]\<rparr>"

definition stream_Close :: "(nat \<Rightarrow> bool) \<Rightarrow> p2p_tunnel \<Rightarrow> nat \<Rightarrow> p2p_tunnel" where
  "stream_Close cw t h =
     (if ps_closed (pt_objs t ! h) then t
      else release (snd (writeFrame cw (mark_closed t h) h msgTypeClose [])) h)"

definition closeLocal :: "p2p_tunnel \<Rightarrow> nat \<Rightarrow> p2p_tunnel" where
  "closeLocal t h = (if ps_closed (pt_objs t ! h) then t else release (mark_closed t h) h)"

section \<open>Tunnel operations\<close>

definition add_stream :: "p2p_tunnel \<Rightarrow> u32 \<Rightarrow> nat \<times> p2p_tunnel" where
  "add_stream t sid =
     (length (pt_objs t),
      t\<lparr>pt_objs := pt_objs t @ [\<lparr>ps_id = sid, ps_buf = [], ps_closed = False\<rparr>],
        pt_streams := gm_put sid (length (pt_objs t)) (pt_streams t)\<rparr>)"

definition OpenStream :: "p2p_tunnel \<Rightarrow> (tunnel_error + nat) \<times> p2p_tunnel" where
  "OpenStream t =
     (if pt_closed t then (Inl TunnelClosed, t)
      else let sid = pt_next_id t + pt_step t;
               (h, t') = add_stream (t\<lparr>pt_next_id := sid\<rparr>) sid
           in (Inr h, t'))"

definition tunnel_Close :: "(nat \<Rightarrow> bool) \<Rightarrow> p2p_tunnel \<Rightarrow> p2p_tunnel" where
  "tunnel_Close cw t =
     (if pt_closed t then t
      else let t1 = t\<lparr>pt_closed := True\<rparr>;
               streams = map snd (pt_streams t1)
           in (foldl (stream_Close cw) t1 streams)\<lparr>pt_conn_closed := True\<rparr>)"

text \<open>The body of a read loop iteration after a read of \<open>n\<close> bytes.\<close>

definition dispatch :: "p2p_tunnel \<Rightarrow> nat \<Rightarrow> p2p_tunnel" where
  "dispatch t n =
     (case p2p_parse (pt_buf t) n of
        None \<Rightarrow> t
      | Some (msgType, sid, off, len) \<Rightarrow>
          (case gm_get (pt_streams t) sid of
             None \<Rightarrow>
               if msgType = msgTypeData then
                 let (h, t') = add_stream t sid
                 in t'\<lparr>pt_handlers := pt_handlers t' @ [(h, HNew off len)]\<rparr>
               else t
           | Some h \<Rightarrow>
               if msgType = msgTypeData then
                 t\<lparr>pt_objs := (pt_objs t)[h := (pt_objs t ! h)
                     \<lparr>ps_buf := ps_buf (pt_objs t ! h) @ slice (pt_buf t) off (off + len)\<rparr>]\<rparr>
               else if msgType = msgTypeClose then closeLocal t h
               else t))"

text \<open>
  One iteration of \<^verbatim>\<open>readLoop\<close>: \<open>None\<close> is a read error, \<open>Some d\<close> a read of the
  message \<open>d\<close>, of which the buffer takes what fits.
\<close>

definition readLoop_step :: "(nat \<Rightarrow> bool) \<Rightarrow> p2p_tunnel \<Rightarrow> bytes option \<Rightarrow> p2p_tunnel" where
  "readLoop_step cw t msg =
     (if \<not> pt_reading t then t
      else if pt_closed t then t\<lparr>pt_reading := False\<rparr>
      else case msg of
             None \<Rightarrow> (tunnel_Close cw t)\<lparr>pt_reading := False\<rparr>
           | Some d \<Rightarrow>
               let n = min (length d) (length (pt_buf t))
               in dispatch (t\<lparr>pt_buf := take n d @ drop n (pt_buf t)\<rparr>) n)"

section \<open>The handler of an incoming stream\<close>

definition set_phase :: "p2p_tunnel \<Rightarrow> nat \<Rightarrow> handler_phase \<Rightarrow> p2p_tunnel" where
  "set_phase t i ph = t\<lparr>pt_handlers := (pt_handlers t)[i := (fst (pt_handlers t ! i), ph)]\<rparr>"

text \<open>
  From the start of \<^verbatim>\<open>handleIncomingStream\<close> to its first write: without a local
  proxy, or when the dial fails, the stream is closed; otherwise the initial data goes to
  the target, read from the buffer as it is at that moment.
\<close>

definition handler_start :: "(nat \<Rightarrow> bool) \<Rightarrow> p2p_tunnel \<Rightarrow> nat \<Rightarrow> bool \<Rightarrow> p2p_tunnel" where
  "handler_start cw t i dial_ok =
     (case pt_handlers t ! i of
        (h, HNew off len) \<Rightarrow>
          if pt_local_proxy t = [] \<or> \<not> dial_ok then stream_Close cw (set_phase t i HDone) h
          else let t' = set_phase t i HRunning
               in if len > 0
                  then t'\<lparr>pt_target := pt_target t' @ [(h, slice (pt_buf t) off (off + len))]\<rparr>
                  else t'
      | _ \<Rightarrow> t)"

text \<open>One turn of the copy from the stream to the target.\<close>

definition handler_copy :: "(nat \<Rightarrow> bool) \<Rightarrow> p2p_tunnel \<Rightarrow> nat \<Rightarrow> p2p_tunnel" where
  "handler_copy cw t i =
     (case pt_handlers t ! i of
        (h, HRunning) \<Rightarrow>
          (case stream_Read t h (32 * 1024) of
             (ReadBytes d, t') \<Rightarrow> t'\<lparr>pt_target := pt_target t' @ [(h, d)]\<rparr>
           | (ReadEOF, t') \<Rightarrow> stream_Close cw (set_phase t' i HDone) h
           | (ReadBlocks, t') \<Rightarrow> t')
      | _ \<Rightarrow> t)"

text \<open>One turn of the copy from the target to the stream; \<open>None\<close> is a read error.\<close>

definition handler_reply :: "(nat \<Rightarrow> bool) \<Rightarrow> p2p_tunnel \<Rightarrow> nat \<Rightarrow> bytes option \<Rightarrow> p2p_tunnel" where
  "handler_reply cw t i reply =
     (case pt_handlers t ! i of
        (h, HRunning) \<Rightarrow>
          (case reply of
             None \<Rightarrow> stream_Close cw (set_phase t i HDone) h
           | Some d \<Rightarrow> if d \<noteq> [] then snd (stream_Write cw t h d) else t)
      | _ \<Rightarrow> t)"

section \<open>All operations as steps\<close>

datatype tunnel_event =
    EvOpen
  | EvRead "bytes option"
  | EvWrite nat bytes
  | EvStreamRead nat nat
  | EvStreamClose nat
  | EvClose
  | EvHandlerStart nat bool
  | EvHandlerCopy nat
  | EvHandlerReply nat "bytes option"

fun tunnel_step :: "(nat \<Rightarrow> bool) \<Rightarrow> p2p_tunnel \<Rightarrow> tunnel_event \<Rightarrow> p2p_tunnel" where
  "tunnel_step cw t EvOpen = snd (OpenStream t)"
| "tunnel_step cw t (EvRead m) = readLoop_step cw t m"
| "tunnel_step cw t (EvWrite h p) = (if h < length (pt_objs t) then snd (stream_Write cw t h p) else t)"
| "tunnel_step cw t (EvStreamRead h k) = (if h < length (pt_objs t) then snd (stream_Read t h k) else t)"
| "tunnel_step cw t (EvStreamClose h) = (if h < length (pt_objs t) then stream_Close cw t h else t)"
| "tunnel_step cw t EvClose = tunnel_Close cw t"
| "tunnel_step cw t (EvHandlerStart i ok) = (if i < length (pt_handlers t) then handler_start cw t i ok else t)"
| "tunnel_step cw t (EvHandlerCopy i) = (if i < length (pt_handlers t) then handler_copy cw t i else t)"
| "tunnel_step cw t (EvHandlerReply i d) = (if i < length (pt_handlers t) then handler_reply cw t i d else t)"

section \<open>Frames round trip\<close>

lemma length_p2p_frame [simp]: "length (p2p_frame k sid d) = 9 + length d"
  by (simp add: p2p_frame_def)

lemma slice_p2p_frame [simp]: "slice (p2p_frame k sid d @ rest) 9 (9 + length d) = d"
  by (simp add: p2p_frame_def slice_def)

lemma p2p_parse_frame:
  assumes "length d \<le> maxChunk"
  shows "p2p_parse (p2p_frame k sid d @ rest) (9 + length d) = Some (k, sid, 9, length d)"
proof -
  have "unat (word_of_nat (length d) :: u32) = length d"
    using assms by (simp add: maxChunk_value unat_of_nat)
  moreover have "slice (p2p_frame k sid d @ rest) 5 9 = put32 (word_of_nat (length d))"
    and "slice (p2p_frame k sid d @ rest) 1 5 = put32 sid"
    by (simp_all add: p2p_frame_def slice_def)
  moreover have "(p2p_frame k sid d @ rest) ! 0 = k" by (simp add: p2p_frame_def)
  ultimately show ?thesis by (simp add: p2p_parse_def p2pHeaderSize_def)
qed

section \<open>Fragmentation\<close>

text \<open>The fragments as a reference function: cut \<open>maxChunk\<close> bytes at a time.\<close>

function chunk_list :: "bytes \<Rightarrow> bytes list" where
  "chunk_list p = (if p = [] then [] else take maxChunk p # chunk_list (drop maxChunk p))"
  by pat_completeness auto
termination
  by (relation "measure length") (auto simp: maxChunk_value)

declare chunk_list.simps [simp del]

lemma chunk_list_Nil [simp]: "chunk_list [] = []"
  by (simp add: chunk_list.simps)

lemma concat_chunk_list: "concat (chunk_list p) = p"
proof (induction p rule: chunk_list.induct)
  case (1 p)
  then show ?case by (subst chunk_list.simps) simp
qed

lemma chunk_list_bounds: "c \<in> set (chunk_list p) \<Longrightarrow> c \<noteq> [] \<and> length c \<le> maxChunk"
proof (induction p rule: chunk_list.induct)
  case (1 p)
  show ?case
  proof (cases "p = []")
    case True
    with "1.prems" show ?thesis by simp
  next
    case False
    then have "take maxChunk p \<noteq> []" by (simp add: maxChunk_value)
    with False "1" show ?thesis by (auto simp: chunk_list.simps [of p])
  qed
qed

lemma conn_write_ok:
  "cw (pt_writes t) \<Longrightarrow> conn_write cw t f =
     (True, t\<lparr>pt_writes := Suc (pt_writes t), pt_out := pt_out t @ [f]\<rparr>)"
  by (simp add: conn_write_def)

lemma write_chunks_ok:
  "\<forall>k. cw k \<Longrightarrow> \<not> pt_closed t \<Longrightarrow> written \<le> length p \<Longrightarrow>
    write_chunks cw t h p written =
      ((length p, None),
       t\<lparr>pt_writes := pt_writes t + length (chunk_list (drop written p)),
         pt_out := pt_out t @
           map (p2p_frame msgTypeData (ps_id (pt_objs t ! h))) (chunk_list (drop written p))\<rparr>)"
proof (induction cw t h p written rule: write_chunks.induct)
  case (1 cw t h p written)
  show ?case
  proof (cases "written < length p")
    case False
    with "1.prems" have "written = length p" by simp
    then show ?thesis by (simp add: write_chunks.simps [of cw t h p "length p"])
  next
    case True
    define stop where "stop = min (written + maxChunk) (length p)"
    define c where "c = slice p written stop"
    have c: "c = take maxChunk (drop written p)" and stop: "stop \<le> length p"
      unfolding c_def slice_def stop_def using True
      by (auto simp: min_def maxChunk_value)
    have rest: "drop stop p = drop maxChunk (drop written p)"
      unfolding stop_def using True by (auto simp: min_def add.commute)
    have chunks: "chunk_list (drop written p) = c # chunk_list (drop stop p)"
      using True by (subst chunk_list.simps) (simp add: c rest)
    have len: "\<not> length c > maxChunk" by (simp add: c)
    define t1 where "t1 = t\<lparr>pt_writes := Suc (pt_writes t),
      pt_out := pt_out t @ [p2p_frame msgTypeData (ps_id (pt_objs t ! h)) c]\<rparr>"
    have wf: "writeFrame cw t h msgTypeData c = (None, t1)"
      using len "1.prems" by (simp add: writeFrame_def conn_write_ok t1_def)
    have "write_chunks cw t1 h p stop =
      ((length p, None),
       t1\<lparr>pt_writes := pt_writes t1 + length (chunk_list (drop stop p)),
         pt_out := pt_out t1 @
           map (p2p_frame msgTypeData (ps_id (pt_objs t1 ! h))) (chunk_list (drop stop p))\<rparr>)"
      by (rule "1.IH" [OF True stop_def wf [unfolded c_def, symmetric] refl])
         (use "1.prems" stop in \<open>auto simp: t1_def\<close>)
    then show ?thesis
      using True wf by (simp add: write_chunks.simps [of cw t h p written] Let_def
          stop_def [symmetric] c_def [symmetric] chunks) (simp add: t1_def)
  qed
qed

section \<open>Delivery\<close>

lemma readLoop_step_data:
  assumes "pt_reading r" and "\<not> pt_closed r" and "length (pt_buf r) = 65009"
    and "gm_get (pt_streams r) sid = Some g" and "length d \<le> maxChunk"
  shows "readLoop_step cw r (Some (p2p_frame msgTypeData sid d)) =
    r\<lparr>pt_buf := p2p_frame msgTypeData sid d @ drop (9 + length d) (pt_buf r),
      pt_objs := (pt_objs r)[g := (pt_objs r ! g)\<lparr>ps_buf := ps_buf (pt_objs r ! g) @ d\<rparr>]\<rparr>"
  using assms by (simp add: readLoop_step_def dispatch_def maxChunk_value p2p_parse_frame Let_def)

abbreviation receive_frames :: "(nat \<Rightarrow> bool) \<Rightarrow> p2p_tunnel \<Rightarrow> bytes list \<Rightarrow> p2p_tunnel" where
  "receive_frames cw r fs \<equiv> foldl (\<lambda>r f. readLoop_step cw r (Some f)) r fs"

lemma receive_frames_data:
  assumes "\<forall>c \<in> set cs. length c \<le> maxChunk"
  shows "pt_reading r \<Longrightarrow> \<not> pt_closed r \<Longrightarrow> length (pt_buf r) = 65009 \<Longrightarrow>
    gm_get (pt_streams r) sid = Some g \<Longrightarrow> g < length (pt_objs r) \<Longrightarrow>
    ps_buf (pt_objs (receive_frames cw r (map (p2p_frame msgTypeData sid) cs)) ! g) =
      ps_buf (pt_objs r ! g) @ concat cs"
  using assms
proof (induction cs arbitrary: r)
  case Nil
  then show ?case by simp
next
  case (Cons c cs)
  define r' where "r' = readLoop_step cw r (Some (p2p_frame msgTypeData sid c))"
  have r': "r' = r\<lparr>pt_buf := p2p_frame msgTypeData sid c @ drop (9 + length c) (pt_buf r),
      pt_objs := (pt_objs r)[g := (pt_objs r ! g)\<lparr>ps_buf := ps_buf (pt_objs r ! g) @ c\<rparr>]\<rparr>"
    unfolding r'_def by (rule readLoop_step_data) (use Cons.prems in auto)
  have "ps_buf (pt_objs (receive_frames cw r' (map (p2p_frame msgTypeData sid) cs)) ! g) =
      ps_buf (pt_objs r' ! g) @ concat cs"
    by (rule Cons.IH) (use Cons.prems in \<open>auto simp: r' maxChunk_value\<close>)
  then show ?case using Cons.prems by (simp add: r'_def [symmetric] r')
qed

lemma stream_Write_frames:
  assumes "\<forall>k. cw k" and "\<not> pt_closed t" and "\<not> ps_closed (pt_objs t ! h)"
  shows "fst (stream_Write cw t h p) = (length p, None)"
    and "pt_out (snd (stream_Write cw t h p)) =
      pt_out t @ map (p2p_frame msgTypeData (ps_id (pt_objs t ! h))) (chunk_list p)"
  using write_chunks_ok [of cw t 0 p h] assms by (simp_all add: stream_Write_def)

section \<open>Stream identifiers\<close>

text \<open>Writing touches the connection only.\<close>

lemma writeFrame_fields [simp]:
  "pt_objs (snd (writeFrame cw t h k d)) = pt_objs t"
  "pt_streams (snd (writeFrame cw t h k d)) = pt_streams t"
  "pt_next_id (snd (writeFrame cw t h k d)) = pt_next_id t"
  "pt_step (snd (writeFrame cw t h k d)) = pt_step t"
  "pt_closed (snd (writeFrame cw t h k d)) = pt_closed t"
  "pt_buf (snd (writeFrame cw t h k d)) = pt_buf t"
  "pt_handlers (snd (writeFrame cw t h k d)) = pt_handlers t"
  "pt_conn_closed (snd (writeFrame cw t h k d)) = pt_conn_closed t"
  "pt_target (snd (writeFrame cw t h k d)) = pt_target t"
  "pt_local_proxy (snd (writeFrame cw t h k d)) = pt_local_proxy t"
  "pt_reading (snd (writeFrame cw t h k d)) = pt_reading t"
  by (simp_all add: writeFrame_def conn_write_def)

text \<open>What a write leaves alone, as one equation per field, for the fragmenting loop too.\<close>

definition same_tunnel :: "p2p_tunnel \<Rightarrow> p2p_tunnel \<Rightarrow> bool" where
  "same_tunnel t t' \<longleftrightarrow> pt_objs t' = pt_objs t \<and> pt_streams t' = pt_streams t \<and>
     pt_next_id t' = pt_next_id t \<and> pt_step t' = pt_step t \<and> pt_closed t' = pt_closed t \<and>
     pt_buf t' = pt_buf t \<and> pt_handlers t' = pt_handlers t \<and>
     pt_conn_closed t' = pt_conn_closed t \<and> pt_target t' = pt_target t \<and>
     pt_local_proxy t' = pt_local_proxy t \<and> pt_reading t' = pt_reading t"

lemma same_tunnel_writeFrame: "writeFrame cw t h k d = (e, t') \<Longrightarrow> same_tunnel t t'"
  using writeFrame_fields [of cw t h k d] by (simp add: same_tunnel_def)

lemma same_tunnel_trans: "same_tunnel t t' \<Longrightarrow> same_tunnel t' t'' \<Longrightarrow> same_tunnel t t''"
  by (simp add: same_tunnel_def)

lemma same_tunnel_write_chunks: "same_tunnel t (snd (write_chunks cw t h p w))"
proof (induction cw t h p w rule: write_chunks.induct)
  case (1 cw t h p w)
  show ?case
  proof (cases "w < length p")
    case False
    then show ?thesis by (simp add: write_chunks.simps [of cw t h p w] same_tunnel_def)
  next
    case True
    define stop where "stop = min (w + maxChunk) (length p)"
    obtain e t1 where wf: "writeFrame cw t h msgTypeData (slice p w stop) = (e, t1)" by fastforce
    have "same_tunnel t t1" by (rule same_tunnel_writeFrame [OF wf])
    moreover have "e = None \<Longrightarrow> same_tunnel t1 (snd (write_chunks cw t1 h p stop))"
      using "1.IH" [OF True stop_def wf [symmetric]] by blast
    ultimately show ?thesis using True wf
      by (auto simp: write_chunks.simps [of cw t h p w] Let_def stop_def [symmetric]
          split: option.splits intro: same_tunnel_trans)
  qed
qed

lemma same_tunnel_Write: "same_tunnel t (snd (stream_Write cw t h p))"
  using same_tunnel_write_chunks [of t cw h p 0] by (simp add: stream_Write_def same_tunnel_def)

text \<open>Identifiers: only \<^verbatim>\<open>OpenStream\<close> moves the counter, by the role's step.\<close>

definition id_parity :: "bool \<Rightarrow> p2p_tunnel \<Rightarrow> bool" where
  "id_parity ev t \<longleftrightarrow> pt_step t = 2 \<and> even (pt_next_id t) = ev"

lemma id_parity_cong:
  "pt_step t' = pt_step t \<Longrightarrow> pt_next_id t' = pt_next_id t \<Longrightarrow> id_parity ev t' = id_parity ev t"
  by (simp add: id_parity_def)

lemma ids_release [simp]:
  "pt_step (release t h) = pt_step t" "pt_next_id (release t h) = pt_next_id t"
  by (simp_all add: release_def)

lemma ids_mark_closed [simp]:
  "pt_step (mark_closed t h) = pt_step t" "pt_next_id (mark_closed t h) = pt_next_id t"
  by (simp_all add: mark_closed_def)

lemma ids_stream_Close [simp]:
  "pt_step (stream_Close cw t h) = pt_step t" "pt_next_id (stream_Close cw t h) = pt_next_id t"
  by (simp_all add: stream_Close_def)

lemma ids_closeLocal [simp]:
  "pt_step (closeLocal t h) = pt_step t" "pt_next_id (closeLocal t h) = pt_next_id t"
  by (simp_all add: closeLocal_def)

lemma ids_fold_Close [simp]:
  "pt_step (foldl (stream_Close cw) t hs) = pt_step t"
  "pt_next_id (foldl (stream_Close cw) t hs) = pt_next_id t"
  by (induction hs arbitrary: t) simp_all

lemma ids_tunnel_Close [simp]:
  "pt_step (tunnel_Close cw t) = pt_step t" "pt_next_id (tunnel_Close cw t) = pt_next_id t"
  by (simp_all add: tunnel_Close_def Let_def)

lemma ids_dispatch [simp]:
  "pt_step (dispatch t n) = pt_step t" "pt_next_id (dispatch t n) = pt_next_id t"
  by (auto simp: dispatch_def add_stream_def split: option.splits)

lemma ids_readLoop [simp]:
  "pt_step (readLoop_step cw t m) = pt_step t" "pt_next_id (readLoop_step cw t m) = pt_next_id t"
  by (simp_all add: readLoop_step_def Let_def split: option.splits)

lemma ids_Read [simp]:
  "pt_step (snd (stream_Read t h k)) = pt_step t" "pt_next_id (snd (stream_Read t h k)) = pt_next_id t"
  by (simp_all add: stream_Read_def Let_def)

lemma ids_set_phase [simp]:
  "pt_step (set_phase t i ph) = pt_step t" "pt_next_id (set_phase t i ph) = pt_next_id t"
  by (simp_all add: set_phase_def)

lemma ids_Write [simp]:
  "pt_step (snd (stream_Write cw t h p)) = pt_step t"
  "pt_next_id (snd (stream_Write cw t h p)) = pt_next_id t"
  using same_tunnel_Write [of t cw h p] by (simp_all add: same_tunnel_def)

lemma ids_handler_copy [simp]:
  "pt_step (handler_copy cw t i) = pt_step t" "pt_next_id (handler_copy cw t i) = pt_next_id t"
  by (auto simp: handler_copy_def stream_Read_def Let_def split: prod.splits handler_phase.splits)

lemma ids_handler [simp]:
  "pt_step (handler_start cw t i ok) = pt_step t" "pt_next_id (handler_start cw t i ok) = pt_next_id t"
  "pt_step (handler_reply cw t i d) = pt_step t" "pt_next_id (handler_reply cw t i d) = pt_next_id t"
  by (auto simp: handler_start_def handler_reply_def Let_def
      split: prod.splits handler_phase.splits option.splits)

lemma id_parity_Open: "id_parity ev t \<Longrightarrow> id_parity ev (snd (OpenStream t))"
  by (auto simp: OpenStream_def add_stream_def id_parity_def Let_def)

interpretation roles: invariant_steps "tunnel_step cw" "id_parity ev" for cw ev
proof
  fix t e
  assume "id_parity ev t"
  then show "id_parity ev (tunnel_step cw t e)"
    using id_parity_Open [of ev t] by (cases e) (simp_all add: id_parity_def)
qed

lemma id_parity_role: "id_parity controlling (NewP2PTunnelWithRole proxy controlling)"
  by (simp add: id_parity_def NewP2PTunnelWithRole_def newP2PTunnel_def)

lemma OpenStream_id:
  "OpenStream t = (Inr h, t') \<Longrightarrow> ps_id (pt_objs t' ! h) = pt_next_id t + pt_step t"
  by (auto simp: OpenStream_def add_stream_def Let_def split: if_splits)

section \<open>The structural invariant\<close>

definition phase_ok :: "nat \<Rightarrow> nat \<times> handler_phase \<Rightarrow> bool" where
  "phase_ok n hp \<longleftrightarrow> fst hp < n \<and>
     (case snd hp of HNew off len \<Rightarrow> off + len \<le> 65009 | _ \<Rightarrow> True)"

text \<open>
  Every entry of the stream map points to a live stream that carries the entry's ID, the
  read buffer keeps its size, every handler refers to a stream and holds a slice inside
  the buffer, and a closed tunnel has no streams and a closed connection.
\<close>

definition tunnel_inv :: "p2p_tunnel \<Rightarrow> bool" where
  "tunnel_inv t \<longleftrightarrow>
     gm_ok (pt_streams t) \<and>
     (\<forall>(sid, h) \<in> set (pt_streams t).
        h < length (pt_objs t) \<and> ps_id (pt_objs t ! h) = sid \<and> \<not> ps_closed (pt_objs t ! h)) \<and>
     length (pt_buf t) = 65009 \<and>
     (\<forall>hp \<in> set (pt_handlers t). phase_ok (length (pt_objs t)) hp) \<and>
     (pt_closed t \<longrightarrow> pt_streams t = [] \<and> pt_conn_closed t)"

definition streams_ok :: "p2p_tunnel \<Rightarrow> bool" where
  "streams_ok t \<longleftrightarrow>
     gm_ok (pt_streams t) \<and>
     (\<forall>(sid, h) \<in> set (pt_streams t).
        h < length (pt_objs t) \<and> ps_id (pt_objs t ! h) = sid \<and> \<not> ps_closed (pt_objs t ! h))"




lemma stream_Close_fields [simp]:
  "length (pt_objs (stream_Close cw t h)) = length (pt_objs t)"
  "pt_closed (stream_Close cw t h) = pt_closed t"
  "pt_buf (stream_Close cw t h) = pt_buf t"
  "pt_handlers (stream_Close cw t h) = pt_handlers t"
  "pt_conn_closed (stream_Close cw t h) = pt_conn_closed t"
  "pt_target (stream_Close cw t h) = pt_target t"
  by (simp_all add: stream_Close_def release_def mark_closed_def)



lemma streams_ok_add:
  assumes "streams_ok t"
  shows "streams_ok (snd (add_stream t sid))"
  using assms by (auto simp: streams_ok_def add_stream_def set_gm_put nth_append)

lemma tunnel_inv_alt:
  "tunnel_inv t \<longleftrightarrow> streams_ok t \<and> length (pt_buf t) = 65009 \<and>
     (\<forall>hp \<in> set (pt_handlers t). phase_ok (length (pt_objs t)) hp) \<and>
     (pt_closed t \<longrightarrow> pt_streams t = [] \<and> pt_conn_closed t)"
  by (auto simp: tunnel_inv_def streams_ok_def)



lemma fold_stream_Close_fields [simp]:
  "length (pt_objs (foldl (stream_Close cw) t hs)) = length (pt_objs t)"
  "pt_closed (foldl (stream_Close cw) t hs) = pt_closed t"
  "pt_buf (foldl (stream_Close cw) t hs) = pt_buf t"
  "pt_handlers (foldl (stream_Close cw) t hs) = pt_handlers t"
  by (induction hs arbitrary: t) simp_all


lemma phase_ok_mono: "phase_ok n hp \<Longrightarrow> n \<le> m \<Longrightarrow> phase_ok m hp"
  by (auto simp: phase_ok_def)









lemma set_phase_objs [simp]: "pt_objs (set_phase t i ph) = pt_objs t"
  by (simp add: set_phase_def)





lemma tunnel_inv_Open: "tunnel_inv t \<Longrightarrow> tunnel_inv (snd (OpenStream t))"
proof (cases "pt_closed t")
  case True
  assume "tunnel_inv t"
  with True show ?thesis by (simp add: OpenStream_def)
next
  case False
  assume inv: "tunnel_inv t"
  let ?sid = "pt_next_id t + pt_step t"
  have "streams_ok (t\<lparr>pt_next_id := ?sid\<rparr>)" using inv by (simp add: tunnel_inv_alt streams_ok_def)
  then have "streams_ok (snd (add_stream (t\<lparr>pt_next_id := ?sid\<rparr>) ?sid))" by (rule streams_ok_add)
  with inv False show ?thesis
    by (auto simp: OpenStream_def Let_def tunnel_inv_alt add_stream_def streams_ok_def
        intro: phase_ok_mono)
qed


lemma tunnel_inv_new: "tunnel_inv (newP2PTunnel proxy n s)"
  by (simp add: tunnel_inv_def newP2PTunnel_def p2pMaxPayload_def p2pHeaderSize_def)

section \<open>The initial data of a new stream\<close>

text \<open>
  The first data frame of an unknown stream: a stream object and a handler that holds the
  payload as a slice of the read buffer.
\<close>

lemma readLoop_step_new:
  assumes "pt_reading r" and "\<not> pt_closed r" and "length (pt_buf r) = 65009"
    and "gm_get (pt_streams r) sid = None" and "length d \<le> maxChunk"
  shows "readLoop_step cw r (Some (p2p_frame msgTypeData sid d)) =
    r\<lparr>pt_buf := p2p_frame msgTypeData sid d @ drop (9 + length d) (pt_buf r),
      pt_objs := pt_objs r @ [\<lparr>ps_id = sid, ps_buf = [], ps_closed = False\<rparr>],
      pt_streams := gm_put sid (length (pt_objs r)) (pt_streams r),
      pt_handlers := pt_handlers r @ [(length (pt_objs r), HNew 9 (length d))]\<rparr>"
  using assms
  by (simp add: readLoop_step_def dispatch_def maxChunk_value p2p_parse_frame Let_def add_stream_def)

section \<open>Properties\<close>

text \<open>
  C29. What one peer writes on a stream is what the other peer's stream receives: when the
  connection accepts the writes, \<^verbatim>\<open>Write\<close> reports the whole length, and the frames it
  emits, read in order by the peer's read loop, append exactly the written bytes to the
  read buffer of the stream with that ID, whatever the length of the data.
\<close>

theorem tunnel_write_delivered:
  assumes "\<forall>k. cw k" and "\<not> pt_closed t" and "\<not> ps_closed (pt_objs t ! h)"
    and "tunnel_inv r" and "pt_reading r" and "\<not> pt_closed r"
    and "gm_get (pt_streams r) (ps_id (pt_objs t ! h)) = Some g"
  shows "\<exists>frames. fst (stream_Write cw t h p) = (length p, None) \<and>
    pt_out (snd (stream_Write cw t h p)) = pt_out t @ frames \<and>
    ps_buf (pt_objs (receive_frames cw' r frames) ! g) = ps_buf (pt_objs r ! g) @ p"
proof -
  let ?fs = "map (p2p_frame msgTypeData (ps_id (pt_objs t ! h))) (chunk_list p)"
  have "(ps_id (pt_objs t ! h), g) \<in> set (pt_streams r)" using assms(7) by (rule map_of_SomeD)
  then have g: "g < length (pt_objs r)" using assms(4) by (auto simp: tunnel_inv_def)
  have buf: "length (pt_buf r) = 65009" using assms(4) by (simp add: tunnel_inv_def)
  have "ps_buf (pt_objs (receive_frames cw' r ?fs) ! g) = ps_buf (pt_objs r ! g) @ concat (chunk_list p)"
    by (rule receive_frames_data [OF _ assms(5,6) buf assms(7) g]) (auto dest: chunk_list_bounds)
  then show ?thesis
    using stream_Write_frames [OF assms(1-3), of p]
    by (intro exI [of _ ?fs]) (simp add: concat_chunk_list)
qed

definition demo_tunnel :: p2p_tunnel where
  "demo_tunnel = snd (OpenStream (NewP2PTunnelWithRole ''localhost:80'' True))"

lemma demo_tunnel_inv: "tunnel_inv demo_tunnel"
  unfolding demo_tunnel_def NewP2PTunnelWithRole_def by (simp add: tunnel_inv_Open tunnel_inv_new)

theorem tunnel_write_delivered_witness:
  "\<exists>frames. fst (stream_Write (\<lambda>_. True) demo_tunnel 0 [1, 2, 3]) = (3, None) \<and>
    pt_out (snd (stream_Write (\<lambda>_. True) demo_tunnel 0 [1, 2, 3])) = frames \<and>
    ps_buf (pt_objs (receive_frames (\<lambda>_. True) demo_tunnel frames) ! 0) = [1, 2, 3]"
proof -
  have facts: "\<not> pt_closed demo_tunnel" "\<not> ps_closed (pt_objs demo_tunnel ! 0)" "pt_reading demo_tunnel"
    "gm_get (pt_streams demo_tunnel) (ps_id (pt_objs demo_tunnel ! 0)) = Some 0"
    "pt_out demo_tunnel = []" "ps_buf (pt_objs demo_tunnel ! 0) = []"
    by (simp_all add: demo_tunnel_def NewP2PTunnelWithRole_def newP2PTunnel_def OpenStream_def add_stream_def)
  show ?thesis
    using tunnel_write_delivered [of "\<lambda>_. True" demo_tunnel 0 demo_tunnel 0 "[1, 2, 3]" "\<lambda>_. True",
        OF _ facts(1,2) demo_tunnel_inv facts(3,1,4)] facts(5,6)
    by (simp add: numeral_3_eq_3)
qed

text \<open>
  The two peers of an ICE session never open streams with the same ID: whatever else
  happened on either tunnel before, in any order and however often the 32-bit counter
  wrapped around, the stream the controlling peer opens has an even ID and the one the
  controlled peer opens an odd one.
\<close>

theorem role_stream_ids_disjoint:
  assumes "OpenStream (foldl (tunnel_step cw) (NewP2PTunnelWithRole proxy True) es) = (Inr h, t)"
    and "OpenStream (foldl (tunnel_step cw') (NewP2PTunnelWithRole proxy' False) es') = (Inr h', t')"
  shows "even (ps_id (pt_objs t ! h)) \<and> odd (ps_id (pt_objs t' ! h'))"
  using roles.run_inv [OF id_parity_role [of True proxy], of cw es]
    roles.run_inv [OF id_parity_role [of False proxy'], of cw' es']
    OpenStream_id [OF assms(1)] OpenStream_id [OF assms(2)]
  by (simp add: id_parity_def)

theorem role_stream_ids_disjoint_witness:
  "even (ps_id (pt_objs (snd (OpenStream (NewP2PTunnelWithRole [] True))) ! 0)) \<and>
   odd (ps_id (pt_objs (snd (OpenStream (NewP2PTunnelWithRole [] False))) ! 0))"
proof -
  have o: "OpenStream (foldl (tunnel_step cw) (NewP2PTunnelWithRole [] b) []) =
      (Inr 0, snd (OpenStream (NewP2PTunnelWithRole [] b)))" for b cw
    by (simp add: NewP2PTunnelWithRole_def newP2PTunnel_def OpenStream_def add_stream_def)
  show ?thesis using role_stream_ids_disjoint [OF o o] by blast
qed


text \<open>
  A handler that starts before the next read gets its data: if the first frame of a
  new stream carries \<open>d\<close> and the handler's dial succeeds before the read loop reads
  again, the target receives exactly \<open>d\<close>.
\<close>

theorem initial_data_intact:
  assumes "tunnel_inv r" and "pt_reading r" and "\<not> pt_closed r" and "pt_local_proxy r \<noteq> []"
    and "gm_get (pt_streams r) sid = None" and "d \<noteq> []" and "length d \<le> maxChunk"
  shows "pt_target (foldl (tunnel_step cw) r
      [EvRead (Some (p2p_frame msgTypeData sid d)), EvHandlerStart (length (pt_handlers r)) True]) =
    pt_target r @ [(length (pt_objs r), d)]"
proof -
  have buf: "length (pt_buf r) = 65009" using assms(1) by (simp add: tunnel_inv_def)
  show ?thesis
    using assms by (simp add: readLoop_step_new [OF assms(2,3) buf assms(5,7)] handler_start_def
        set_phase_def nth_append Let_def)
qed

lemma demo_role_tunnel:
  "tunnel_inv (NewP2PTunnelWithRole ''p'' True)" "pt_reading (NewP2PTunnelWithRole ''p'' True)"
  "\<not> pt_closed (NewP2PTunnelWithRole ''p'' True)" "pt_local_proxy (NewP2PTunnelWithRole ''p'' True) \<noteq> []"
  "gm_get (pt_streams (NewP2PTunnelWithRole ''p'' True)) 7 = None"
  "pt_handlers (NewP2PTunnelWithRole ''p'' True) = []" "pt_target (NewP2PTunnelWithRole ''p'' True) = []"
  "pt_objs (NewP2PTunnelWithRole ''p'' True) = []"
  unfolding NewP2PTunnelWithRole_def by (simp_all add: tunnel_inv_new) (simp_all add: newP2PTunnel_def)

theorem initial_data_intact_witness:
  "pt_target (foldl (tunnel_step (\<lambda>_. True)) (NewP2PTunnelWithRole ''p'' True)
     [EvRead (Some (p2p_frame msgTypeData 7 [10, 20])), EvHandlerStart 0 True]) = [(0, [10, 20])]"
  using initial_data_intact [OF demo_role_tunnel(1-5), of "[10, 20]" "\<lambda>_. True"] demo_role_tunnel(6-8)
  by (simp add: maxChunk_value)

text \<open>
  C37. A handler that is still dialling when the next frame of its stream arrives sends
  that frame's bytes instead of its own: the handler goroutine holds a slice of the read
  loop's buffer, which the next read overwrites. With two frames of equal length for a
  new stream, the target receives the second payload twice and the first one never.
\<close>

theorem initial_data_overwritten:
  assumes "tunnel_inv r" and "pt_reading r" and "\<not> pt_closed r" and "pt_local_proxy r \<noteq> []"
    and "gm_get (pt_streams r) sid = None" and "d \<noteq> []" and "length d \<le> 32 * 1024"
    and "length d' = length d"
  shows "pt_target (foldl (tunnel_step cw) r
      [EvRead (Some (p2p_frame msgTypeData sid d)), EvRead (Some (p2p_frame msgTypeData sid d')),
       EvHandlerStart (length (pt_handlers r)) True, EvHandlerCopy (length (pt_handlers r))]) =
    pt_target r @ [(length (pt_objs r), d'), (length (pt_objs r), d')]"
proof -
  have buf: "length (pt_buf r) = 65009" using assms(1) by (simp add: tunnel_inv_def)
  have len: "length d \<le> maxChunk" "length d' \<le> maxChunk" using assms(7,8) by (simp_all add: maxChunk_value)
  have ne: "d' \<noteq> []" using assms(6,8) by auto
  define r1 where "r1 = readLoop_step cw r (Some (p2p_frame msgTypeData sid d))"
  note r1 = readLoop_step_new [OF assms(2,3) buf assms(5) len(1), of cw, folded r1_def]
  have r2: "readLoop_step cw r1 (Some (p2p_frame msgTypeData sid d')) =
    r1\<lparr>pt_buf := p2p_frame msgTypeData sid d' @ drop (9 + length d') (pt_buf r1),
      pt_objs := (pt_objs r1)[length (pt_objs r) := (pt_objs r1 ! length (pt_objs r))
        \<lparr>ps_buf := ps_buf (pt_objs r1 ! length (pt_objs r)) @ d'\<rparr>]\<rparr>"
    by (rule readLoop_step_data) (use assms(2,3) buf len in \<open>simp_all add: r1 maxChunk_value\<close>)
  have sl: "slice (p2p_frame msgTypeData sid d' @ rest) 9 (9 + length d) = d'" for rest
    using slice_p2p_frame [of msgTypeData sid d' rest] assms(8) by simp
  show ?thesis
    using assms ne by (simp add: r1_def [symmetric] r2)
      (simp add: r1 handler_start_def handler_copy_def set_phase_def nth_append Let_def
        stream_Read_def sl)
qed

theorem initial_data_overwritten_witness:
  "pt_target (foldl (tunnel_step (\<lambda>_. True)) (NewP2PTunnelWithRole ''p'' True)
     [EvRead (Some (p2p_frame msgTypeData 7 [1])), EvRead (Some (p2p_frame msgTypeData 7 [2])),
      EvHandlerStart 0 True, EvHandlerCopy 0]) = [(0, [2]), (0, [2])]"
  using initial_data_overwritten [OF demo_role_tunnel(1-5), of "[1]" "[2]" "\<lambda>_. True"] demo_role_tunnel(6-8)
  by simp

end
