(* ===== verification/Signaling.thy ===== *)
theory Signaling
  imports Text "HOL-Library.List_Lexorder" "HOL-Library.Char_ord"
begin

text \<open>
  The signaling messages of \<^verbatim>\<open>cmd/p2p/signaling.go\<close> with the candidate type of
  \<^verbatim>\<open>ice.go\<close> and the peer information of \<^verbatim>\<open>p2p.go\<close>. Types that Go represents
  as strings stay strings, because a decoded message can hold any value in them. The JSON
  codec (\<open>unmarshal\<close>, \<open>marshal\<close>) and \<^verbatim>\<open>netip.ParseAddrPort\<close> (\<open>addr_ok\<close>, whether it
  succeeds) are arguments of the definitions that use them.
\<close>

section \<open>Data\<close>

abbreviation CandidateHost :: string where "CandidateHost \<equiv> ''host''"
abbreviation CandidateSrflx :: string where "CandidateSrflx \<equiv> ''srflx''"
abbreviation CandidateRelay :: string where "CandidateRelay \<equiv> ''relay''"

record candidate =
  cd_id :: string
  cd_type :: string
  cd_addr :: string
  cd_priority :: u32

record peer_info =
  pi_peer :: string
  pi_public :: string
  pi_local :: string
  pi_nat :: string
  pi_token :: string
  pi_session :: string

record signal_message =
  sm_type :: string
  sm_from :: string
  sm_to :: string
  sm_peer_info :: "peer_info option"
  sm_session :: string
  sm_candidates :: "candidate list"
  sm_error :: string

definition MaxSignalMessageSize :: nat where "MaxSignalMessageSize = 64 * 1024"
definition MaxICECandidates :: nat where "MaxICECandidates = 32"

abbreviation SignalTypeICEOffer :: string where "SignalTypeICEOffer \<equiv> ''ice_offer''"
abbreviation SignalTypeICEAnswer :: string where "SignalTypeICEAnswer \<equiv> ''ice_answer''"
abbreviation SignalTypeICECandidate :: string where "SignalTypeICECandidate \<equiv> ''ice_candidate''"

section \<open>Validation\<close>

definition validSignalType :: "string \<Rightarrow> bool" where
  "validSignalType t \<longleftrightarrow> t \<in> set [''p2p_discover'', ''p2p_peer_info'', ''p2p_punch'', ''p2p_ready'',
     ''p2p_fallback'', SignalTypeICEOffer, SignalTypeICEAnswer, SignalTypeICECandidate,
     ''p2p_tunnel_req'', ''p2p_tunnel_resp'', ''p2p_tunnel_data'', ''p2p_tunnel_close'']"

definition isICESignal :: "string \<Rightarrow> bool" where
  "isICESignal t \<longleftrightarrow> t = SignalTypeICEOffer \<or> t = SignalTypeICEAnswer \<or> t = SignalTypeICECandidate"

definition validCandidateType :: "string \<Rightarrow> bool" where
  "validCandidateType t \<longleftrightarrow> t = CandidateHost \<or> t = CandidateSrflx \<or> t = CandidateRelay"

datatype candidate_error = InvalidCandidate | NotLiteralAddr

definition ValidateCandidate :: "(string \<Rightarrow> bool) \<Rightarrow> candidate \<Rightarrow> candidate_error option" where
  "ValidateCandidate addr_ok c =
     (if cd_id c = [] \<or> length (cd_id c) > 128 \<or> cd_addr c = [] \<or> length (cd_addr c) > 256 \<or>
         \<not> validCandidateType (cd_type c)
      then Some InvalidCandidate
      else if addr_ok (cd_addr c) then None
      else Some NotLiteralAddr)"

text \<open>The loops that validate a list stop at the first error.\<close>

fun first_invalid :: "(string \<Rightarrow> bool) \<Rightarrow> candidate list \<Rightarrow> candidate_error option" where
  "first_invalid addr_ok [] = None"
| "first_invalid addr_ok (c # cs) =
     (case ValidateCandidate addr_ok c of Some e \<Rightarrow> Some e | None \<Rightarrow> first_invalid addr_ok cs)"

datatype signal_error =
    InvalidSignalSize | DecodeFailed | UnknownSignalType | TooManyCandidates
  | PeersAndSessionRequired | FieldTooLong | BadCandidate candidate_error
  | CandidateRequired | ExactlyOneCandidate

definition DecodeSignal ::
  "(bytes \<Rightarrow> signal_message option) \<Rightarrow> (string \<Rightarrow> bool) \<Rightarrow> bytes \<Rightarrow> signal_error + signal_message" where
  "DecodeSignal unmarshal addr_ok data =
     (if length data = 0 \<or> length data > MaxSignalMessageSize then Inl InvalidSignalSize
      else case unmarshal data of
        None \<Rightarrow> Inl DecodeFailed
      | Some msg \<Rightarrow>
          if \<not> validSignalType (sm_type msg) then Inl UnknownSignalType
          else if length (sm_candidates msg) > MaxICECandidates then Inl TooManyCandidates
          else if isICESignal (sm_type msg) then
            (if sm_from msg = [] \<or> sm_to msg = [] \<or> sm_session msg = [] then Inl PeersAndSessionRequired
             else if length (sm_from msg) > 128 \<or> length (sm_to msg) > 128 \<or> length (sm_session msg) > 128
             then Inl FieldTooLong
             else case first_invalid addr_ok (sm_candidates msg) of
                    Some e \<Rightarrow> Inl (BadCandidate e)
                  | None \<Rightarrow>
                      if (sm_type msg = SignalTypeICEOffer \<or> sm_type msg = SignalTypeICEAnswer) \<and>
                         sm_candidates msg = [] then Inl CandidateRequired
                      else if sm_type msg = SignalTypeICECandidate \<and> length (sm_candidates msg) \<noteq> 1
                      then Inl ExactlyOneCandidate
                      else Inr msg)
          else Inr msg)"

text \<open>Go compares strings bytewise, as the lexicographic order on characters does.\<close>

definition ShouldInitiateICE :: "string \<Rightarrow> string \<Rightarrow> bool" where
  "ShouldInitiateICE localPeer remotePeer \<longleftrightarrow> localPeer \<noteq> [] \<and> remotePeer \<noteq> [] \<and> localPeer < remotePeer"

section \<open>Constructors of messages\<close>

abbreviation plain_signal :: "string \<Rightarrow> string \<Rightarrow> string \<Rightarrow> signal_message" where
  "plain_signal t from to \<equiv> \<lparr>sm_type = t, sm_from = from, sm_to = to, sm_peer_info = None,
     sm_session = [], sm_candidates = [], sm_error = []\<rparr>"

definition NewICEOfferSignal :: "string \<Rightarrow> string \<Rightarrow> string \<Rightarrow> candidate list \<Rightarrow> signal_message" where
  "NewICEOfferSignal from to session cs =
     (plain_signal SignalTypeICEOffer from to)\<lparr>sm_session := session, sm_candidates := cs\<rparr>"

definition NewICEAnswerSignal :: "string \<Rightarrow> string \<Rightarrow> string \<Rightarrow> candidate list \<Rightarrow> signal_message" where
  "NewICEAnswerSignal from to session cs =
     (plain_signal SignalTypeICEAnswer from to)\<lparr>sm_session := session, sm_candidates := cs\<rparr>"

definition NewICECandidateSignal :: "string \<Rightarrow> string \<Rightarrow> string \<Rightarrow> candidate \<Rightarrow> signal_message" where
  "NewICECandidateSignal from to session c =
     (plain_signal SignalTypeICECandidate from to)\<lparr>sm_session := session, sm_candidates := [c]\<rparr>"

definition NewDiscoverSignal :: "string \<Rightarrow> string \<Rightarrow> signal_message" where
  "NewDiscoverSignal from to = plain_signal ''p2p_discover'' from to"

definition NewPeerInfoSignal :: "string \<Rightarrow> peer_info option \<Rightarrow> signal_message" where
  "NewPeerInfoSignal from info = (plain_signal ''p2p_peer_info'' from [])\<lparr>sm_peer_info := info\<rparr>"

definition NewPunchSignal :: "string \<Rightarrow> string \<Rightarrow> string \<Rightarrow> signal_message" where
  "NewPunchSignal from to session = (plain_signal ''p2p_punch'' from to)\<lparr>sm_session := session\<rparr>"

definition NewReadySignal :: "string \<Rightarrow> string \<Rightarrow> string \<Rightarrow> signal_message" where
  "NewReadySignal from to session = (plain_signal ''p2p_ready'' from to)\<lparr>sm_session := session\<rparr>"

definition NewFallbackSignal :: "string \<Rightarrow> string \<Rightarrow> string \<Rightarrow> string \<Rightarrow> signal_message" where
  "NewFallbackSignal from to session reason =
     (plain_signal ''p2p_fallback'' from to)\<lparr>sm_session := session, sm_error := reason\<rparr>"

section \<open>Facts\<close>

lemma first_invalid_None:
  "first_invalid addr_ok cs = None \<longleftrightarrow> (\<forall>c \<in> set cs. ValidateCandidate addr_ok c = None)"
  by (induction cs) (auto split: option.splits)

definition candidate_ok :: "(string \<Rightarrow> bool) \<Rightarrow> candidate \<Rightarrow> bool" where
  "candidate_ok addr_ok c \<longleftrightarrow> cd_id c \<noteq> [] \<and> length (cd_id c) \<le> 128 \<and> cd_addr c \<noteq> [] \<and>
     length (cd_addr c) \<le> 256 \<and> validCandidateType (cd_type c) \<and> addr_ok (cd_addr c)"

lemma ValidateCandidate_None: "ValidateCandidate addr_ok c = None \<longleftrightarrow> candidate_ok addr_ok c"
  by (auto simp: ValidateCandidate_def candidate_ok_def split: if_splits)

text \<open>
  What a consumer of decoded signals may rely on: the size limits and, for ICE signals,
  bound peers and session, valid candidates and their number.
\<close>

definition signal_ok :: "(string \<Rightarrow> bool) \<Rightarrow> signal_message \<Rightarrow> bool" where
  "signal_ok addr_ok m \<longleftrightarrow> validSignalType (sm_type m) \<and> length (sm_candidates m) \<le> 32 \<and>
     (isICESignal (sm_type m) \<longrightarrow>
        sm_from m \<noteq> [] \<and> sm_to m \<noteq> [] \<and> sm_session m \<noteq> [] \<and>
        length (sm_from m) \<le> 128 \<and> length (sm_to m) \<le> 128 \<and> length (sm_session m) \<le> 128 \<and>
        (\<forall>c \<in> set (sm_candidates m). candidate_ok addr_ok c) \<and> sm_candidates m \<noteq> [] \<and>
        (sm_type m = SignalTypeICECandidate \<longrightarrow> length (sm_candidates m) = 1))"

lemma first_invalid_iff:
  "first_invalid addr_ok cs = None \<longleftrightarrow> (\<forall>c \<in> set cs. candidate_ok addr_ok c)"
  by (simp add: first_invalid_None ValidateCandidate_None)

text \<open>The count rules of the closing switch, for an ICE signal.\<close>

lemma ice_counts:
  "isICESignal t \<Longrightarrow>
     (\<not> ((t = SignalTypeICEOffer \<or> t = SignalTypeICEAnswer) \<and> cs = []) \<and>
      \<not> (t = SignalTypeICECandidate \<and> length cs \<noteq> 1)) \<longleftrightarrow>
     (cs \<noteq> [] \<and> (t = SignalTypeICECandidate \<longrightarrow> length cs = 1))"
  by (auto simp: isICESignal_def)

text \<open>A success returns the decoded message, so both sides speak of the same one.\<close>

lemma decode_signal_value:
  "DecodeSignal unmarshal addr_ok data = Inr m \<Longrightarrow> unmarshal data = Some m"
  by (simp add: DecodeSignal_def split: option.splits if_splits)

lemma decode_signal_some:
  assumes "unmarshal data = Some m"
  shows "DecodeSignal unmarshal addr_ok data = Inr m \<longleftrightarrow>
    data \<noteq> [] \<and> length data \<le> 65536 \<and> signal_ok addr_ok m"
proof (cases "isICESignal (sm_type m)")
  case False
  with assms show ?thesis
    by (simp add: DecodeSignal_def signal_ok_def MaxSignalMessageSize_def MaxICECandidates_def not_less)
next
  case True
  show ?thesis
    unfolding signal_ok_def first_invalid_iff [symmetric] DecodeSignal_def assms
    using True ice_counts [OF True, of "sm_candidates m"]
    by (cases "first_invalid addr_ok (sm_candidates m)")
       (simp_all add: MaxSignalMessageSize_def MaxICECandidates_def not_less, argo)
qed

lemma decode_signal_iff:
  "DecodeSignal unmarshal addr_ok data = Inr m \<longleftrightarrow>
     data \<noteq> [] \<and> length data \<le> 65536 \<and> unmarshal data = Some m \<and> signal_ok addr_ok m"
  using decode_signal_value decode_signal_some by blast

section \<open>Properties\<close>

text \<open>
  Decoding accepts exactly the well-formed signals: a datagram of 1 to 65536 bytes
  that parses to a message is accepted, unchanged, if and only if the message has a known
  type and at most 32 candidates and, when it is an ICE signal, non-empty peers and
  session of at most 128 bytes, only valid candidates with literal addresses, at least
  one candidate, and exactly one in a trickled candidate.
\<close>

theorem decode_signal_exact:
  "DecodeSignal unmarshal addr_ok data = Inr m \<longleftrightarrow>
     data \<noteq> [] \<and> length data \<le> 65536 \<and> unmarshal data = Some m \<and> signal_ok addr_ok m"
  by (rule decode_signal_iff)

text \<open>
  Offers, answers and trickled candidates survive the wire: built from non-empty
  identifiers of at most 128 bytes and 1 to 32 valid candidates, and encoded by a JSON
  codec that decodes its own output within the size limit, they decode to themselves.
\<close>

theorem ice_signals_roundtrip:
  assumes codec: "m \<in> {NewICEOfferSignal a b session cs, NewICEAnswerSignal a b session cs,
      NewICECandidateSignal a b session (hd cs)}"
      "unmarshal (marshal m) = Some m" "marshal m \<noteq> []" "length (marshal m) \<le> 65536"
    and ids: "a \<noteq> []" "b \<noteq> []" "session \<noteq> []" "length a \<le> 128" "length b \<le> 128" "length session \<le> 128"
    and cs: "cs \<noteq> []" "length cs \<le> 32" "\<forall>c \<in> set cs. candidate_ok addr_ok c"
  shows "DecodeSignal unmarshal addr_ok (marshal m) = Inr m"
proof -
  have "candidate_ok addr_ok (hd cs)" using cs by simp
  then have "signal_ok addr_ok m"
    using codec(1) ids cs
    by (auto simp add: signal_ok_def validSignalType_def isICESignal_def NewICEOfferSignal_def
        NewICEAnswerSignal_def NewICECandidateSignal_def)
  with codec(2-4) show ?thesis by (simp add: decode_signal_iff)
qed

abbreviation demo_candidate :: candidate where
  "demo_candidate \<equiv> \<lparr>cd_id = ''host-1'', cd_type = CandidateHost, cd_addr = ''10.0.0.1:4000'', cd_priority = 126\<rparr>"

theorem ice_signals_roundtrip_witness:
  "DecodeSignal (\<lambda>_. Some (NewICEOfferSignal ''a'' ''b'' ''s'' [demo_candidate])) (\<lambda>_. True)
     ((\<lambda>_. [123]) (NewICEOfferSignal ''a'' ''b'' ''s'' [demo_candidate])) =
   Inr (NewICEOfferSignal ''a'' ''b'' ''s'' [demo_candidate])"
  by (rule ice_signals_roundtrip [where a = "''a''" and b = "''b''" and session = "''s''" and cs = "[demo_candidate]"])
     (simp_all add: candidate_ok_def validCandidateType_def)

text \<open>
  Offer glare is resolved: of two distinct authenticated peer IDs exactly one side
  initiates the ICE exchange, and a peer never initiates with itself.
\<close>

theorem ice_glare_resolved:
  "(a \<noteq> [] \<and> b \<noteq> [] \<and> a \<noteq> b) = (ShouldInitiateICE a b \<noteq> ShouldInitiateICE b a)"
  by (auto simp: ShouldInitiateICE_def)

end
