(* ===== verification/Stun.thy ===== *)
theory Stun
  imports Signaling
begin

text \<open>
  The three STUN binding clients: \<^verbatim>\<open>gatherSrflx\<close> of \<^verbatim>\<open>ice.go\<close>,
  \<^verbatim>\<open>simpleSTUNBinding\<close> of \<^verbatim>\<open>p2p.go\<close> and \<^verbatim>\<open>stunBindingOnSocket\<close> of
  \<^verbatim>\<open>prepared_ice.go\<close>. Sockets are arguments: whether resolving, dialing, writing and
  setting deadlines succeed, which transaction ID was drawn, and which datagram was read.
  A read of the response buffer out of its range is the error \<open>IndexOutOfRange\<close>, which
  stands for Go's panic and which the theorems exclude.
\<close>

section \<open>Buffers\<close>

datatype stun_error =
    IndexOutOfRange | ResolveFailed | DialFailed | RandFailed | WriteFailed | DeadlineFailed
  | ReadFailed | InvalidResponse | InvalidTransaction | InvalidLength | TruncatedAttribute | NoMappedAddress

text \<open>\<^verbatim>\<open>conn.Read(buf)\<close> of one datagram: the buffer afterwards and the count.\<close>

definition read_buffer :: "nat \<Rightarrow> bytes \<Rightarrow> bytes \<times> nat" where
  "read_buffer cap data = (take cap data @ replicate (cap - length data) 0, min cap (length data))"

definition u8 :: "bytes \<Rightarrow> nat \<Rightarrow> byte option" where
  "u8 b i = (if i < length b then Some (b ! i) else None)"

definition u16_at :: "bytes \<Rightarrow> nat \<Rightarrow> u16 option" where
  "u16_at b i = (if i + 2 \<le> length b then Some (get16 (drop i b)) else None)"

definition magicCookie :: u32 where "magicCookie = 0x2112A442"

definition stun_request :: "bytes \<Rightarrow> bytes" where
  "stun_request tx = put16 0x0001 @ put16 0 @ put32 magicCookie @ tx"

text \<open>
  The endpoint in the value of an address attribute at \<open>off\<close>: the port at +2 and the
  IPv4 address at +4, XORed with the magic cookie for XOR-MAPPED-ADDRESS.
\<close>

definition cookie_bytes :: bytes where "cookie_bytes = [0x21, 0x12, 0xA4, 0x42]"

definition attr_endpoint :: "bool \<Rightarrow> bytes \<Rightarrow> nat \<Rightarrow> (bytes \<times> u16) option" where
  "attr_endpoint xored b off =
     do { port \<leftarrow> u16_at b (off + 2);
          a0 \<leftarrow> u8 b (off + 4); a1 \<leftarrow> u8 b (off + 5); a2 \<leftarrow> u8 b (off + 6); a3 \<leftarrow> u8 b (off + 7);
          Some (if xored then (map2 (XOR) [a0, a1, a2, a3] cookie_bytes, port XOR 0x2112)
                else ([a0, a1, a2, a3], port)) }"

text \<open>\<^verbatim>\<open>ip.String()\<close> of an IPv4 address and \<^verbatim>\<open>net.JoinHostPort\<close> on it.\<close>

definition ip_string :: "bytes \<Rightarrow> string" where
  "ip_string ip = join_with (CHR ''.'') (map (\<lambda>b. format_nat (unat b)) ip)"

definition endpoint_string :: "bytes \<times> u16 \<Rightarrow> string" where
  "endpoint_string ep = ip_string (fst ep) @ '':'' @ format_nat (unat (snd ep))"

section \<open>gatherSrflx\<close>

function srflx_attributes :: "bytes \<Rightarrow> nat \<Rightarrow> nat \<Rightarrow> stun_error + (bytes \<times> u16)" where
  "srflx_attributes b e off =
     (if off + 4 \<le> e then
        case (u16_at b off, u16_at b (off + 2)) of
          (Some typ, Some len) \<Rightarrow>
            let ln = unat len; off = off + 4 in
            if off + ln > e then Inl TruncatedAttribute
            else if typ = 0x0020 \<and> ln \<ge> 8 then
              (case u8 b (off + 1) of
                 None \<Rightarrow> Inl IndexOutOfRange
               | Some family \<Rightarrow>
                   if family = 0x01 then
                     (case attr_endpoint True b off of None \<Rightarrow> Inl IndexOutOfRange | Some ep \<Rightarrow> Inr ep)
                   else srflx_attributes b e (off + pad4 ln))
            else srflx_attributes b e (off + pad4 ln)
        | _ \<Rightarrow> Inl IndexOutOfRange
      else Inl NoMappedAddress)"
  by pat_completeness auto
termination by (relation "measure (\<lambda>(b, e, off). e - off)") auto

definition srflx_parse :: "bytes \<Rightarrow> bytes \<Rightarrow> stun_error + (bytes \<times> u16)" where
  "srflx_parse tx data =
     (let (b, n) = read_buffer 1500 data in
      if n < 20 \<or> get16 b \<noteq> 0x0101 then Inl InvalidResponse
      else let msgLen = unat (get16 (slice b 2 4)) in
        if msgLen mod 4 \<noteq> 0 \<or> msgLen > n - 20 \<or> get32 (slice b 4 8) \<noteq> magicCookie \<or> slice b 8 20 \<noteq> tx
        then Inl InvalidTransaction
        else srflx_attributes b (20 + msgLen) 20)"

record stun_env =
  se_resolve :: bool
  se_custom_dial :: bool
  se_dial :: bool
  se_tx :: "bytes option"
  se_write :: bool
  se_deadline :: bool
  se_read :: "bytes option"

definition gatherSrflx :: "stun_env \<Rightarrow> stun_error + candidate" where
  "gatherSrflx env =
     (if \<not> se_resolve env \<and> \<not> se_custom_dial env then Inl ResolveFailed
      else if \<not> se_dial env then Inl DialFailed
      else case se_tx env of None \<Rightarrow> Inl RandFailed
      | Some tx \<Rightarrow>
          if \<not> se_write env then Inl WriteFailed
          else if \<not> se_deadline env then Inl DeadlineFailed
          else case se_read env of None \<Rightarrow> Inl ReadFailed
          | Some data \<Rightarrow>
              (case srflx_parse tx data of
                 Inl err \<Rightarrow> Inl err
               | Inr ep \<Rightarrow> Inr \<lparr>cd_id = ''srflx-'' @ ip_string (fst ep), cd_type = CandidateSrflx,
                                cd_addr = endpoint_string ep, cd_priority = 100\<rparr>))"

section \<open>simpleSTUNBinding\<close>

function simple_attributes :: "bytes \<Rightarrow> nat \<Rightarrow> nat \<Rightarrow> nat \<Rightarrow> stun_error + (bytes \<times> u16)" where
  "simple_attributes b n msgLen off =
     (if off < 20 + msgLen \<and> off + 4 \<le> n then
        case (u16_at b off, u16_at b (off + 2)) of
          (Some typ, Some len) \<Rightarrow>
            let ln = unat len; off = off + 4 in
            if off + ln > n then Inl NoMappedAddress
            else if (typ = 0x0020 \<or> typ = 0x0001) \<and> ln \<ge> 8 then
              (case u8 b (off + 1) of
                 None \<Rightarrow> Inl IndexOutOfRange
               | Some family \<Rightarrow>
                   if family = 0x01 then
                     (case attr_endpoint (typ = 0x0020) b off of None \<Rightarrow> Inl IndexOutOfRange | Some ep \<Rightarrow> Inr ep)
                   else simple_attributes b n msgLen (off + pad4 ln))
            else simple_attributes b n msgLen (off + pad4 ln)
        | _ \<Rightarrow> Inl IndexOutOfRange
      else Inl NoMappedAddress)"
  by pat_completeness auto
termination by (relation "measure (\<lambda>(b, n, msgLen, off). n - off)") auto

definition simple_parse :: "bytes \<Rightarrow> bytes \<Rightarrow> stun_error + (bytes \<times> u16)" where
  "simple_parse request data =
     (let (b, n) = read_buffer 1024 data in
      if n < 20 then Inl InvalidResponse
      else if b ! 0 \<noteq> 0x01 \<or> b ! 1 \<noteq> 0x01 then Inl InvalidResponse
      else if slice b 4 20 \<noteq> slice request 4 20 then Inl InvalidTransaction
      else let msgLen = unat (get16 (slice b 2 4)) in
        if msgLen mod 4 \<noteq> 0 \<or> msgLen > n - 20 then Inl InvalidLength
        else simple_attributes b n msgLen 20)"

definition simpleSTUNBinding :: "stun_env \<Rightarrow> string \<Rightarrow> stun_error + (string \<times> string)" where
  "simpleSTUNBinding env localAddr =
     (if \<not> se_resolve env then Inl ResolveFailed
      else if \<not> se_dial env then Inl DialFailed
      else case se_tx env of None \<Rightarrow> Inl RandFailed
      | Some tx \<Rightarrow>
          if \<not> se_write env then Inl WriteFailed
          else case se_read env of None \<Rightarrow> Inl ReadFailed
          | Some data \<Rightarrow>
              (case simple_parse (stun_request tx) data of
                 Inl err \<Rightarrow> Inl err
               | Inr ep \<Rightarrow> Inr (endpoint_string ep, localAddr)))"

section \<open>stunBindingOnSocket\<close>

function socket_attributes :: "bytes \<Rightarrow> nat \<Rightarrow> nat \<Rightarrow> nat \<Rightarrow> stun_error + (bytes \<times> u16)" where
  "socket_attributes b n msgLen off =
     (if off + 4 \<le> 20 + msgLen then
        case (u16_at b off, u16_at b (off + 2)) of
          (Some typ, Some len) \<Rightarrow>
            let ln = unat len; off = off + 4 in
            if off + ln > n then Inl TruncatedAttribute
            else if ln \<ge> 8 then
              (case u8 b (off + 1) of
                 None \<Rightarrow> Inl IndexOutOfRange
               | Some family \<Rightarrow>
                   if family = 0x01 \<and> (typ = 0x0020 \<or> typ = 0x0001) then
                     (case attr_endpoint (typ = 0x0020) b off of None \<Rightarrow> Inl IndexOutOfRange | Some ep \<Rightarrow> Inr ep)
                   else socket_attributes b n msgLen (off + pad4 ln))
            else socket_attributes b n msgLen (off + pad4 ln)
        | _ \<Rightarrow> Inl IndexOutOfRange
      else Inl NoMappedAddress)"
  by pat_completeness auto
termination by (relation "measure (\<lambda>(b, n, msgLen, off). 20 + msgLen - off)") auto

definition socket_parse :: "bool \<Rightarrow> bytes \<Rightarrow> bytes \<Rightarrow> stun_error + (bytes \<times> u16)" where
  "socket_parse from_server request data =
     (let (b, n) = read_buffer 1024 data in
      if \<not> from_server \<or> n < 20 \<or> b ! 0 \<noteq> 0x01 \<or> b ! 1 \<noteq> 0x01 \<or> slice b 4 20 \<noteq> slice request 4 20
      then Inl InvalidResponse
      else let msgLen = unat (get16 (slice b 2 4)) in
        if msgLen > n - 20 \<or> msgLen mod 4 \<noteq> 0 then Inl InvalidLength
        else socket_attributes b n msgLen 20)"

text \<open>Besides the mapped address, the call leaves a deadline on the socket; see \<open>Prepared_ICE\<close>.\<close>

definition stunBindingOnSocket :: "stun_env \<Rightarrow> bool \<Rightarrow> stun_error + string" where
  "stunBindingOnSocket env from_server =
     (if \<not> se_resolve env then Inl ResolveFailed
      else case se_tx env of None \<Rightarrow> Inl RandFailed
      | Some tx \<Rightarrow>
          if \<not> se_deadline env then Inl DeadlineFailed
          else if \<not> se_write env then Inl WriteFailed
          else case se_read env of None \<Rightarrow> Inl ReadFailed
          | Some data \<Rightarrow>
              (case socket_parse from_server (stun_request tx) data of
                 Inl err \<Rightarrow> Inl err
               | Inr ep \<Rightarrow> Inr (endpoint_string ep)))"

declare srflx_attributes.simps [simp del] simple_attributes.simps [simp del] socket_attributes.simps [simp del]


section \<open>No read out of range\<close>

lemma u16_at_Some [simp]: "i + 2 \<le> length b \<Longrightarrow> u16_at b i = Some (get16 (drop i b))"
  by (simp add: u16_at_def)

lemma u8_Some [simp]: "i < length b \<Longrightarrow> u8 b i = Some (b ! i)"
  by (simp add: u8_def)

lemma attr_endpoint_None: "attr_endpoint xored b off = None \<Longrightarrow> length b < off + 8"
  by (rule ccontr) (simp add: attr_endpoint_def)

lemma srflx_in_range: "e \<le> length b \<Longrightarrow> srflx_attributes b e off \<noteq> Inl IndexOutOfRange"
proof (induction b e off rule: srflx_attributes.induct)
  case (1 b e off)
  then show ?case
    by (subst srflx_attributes.simps) (auto simp: Let_def dest!: attr_endpoint_None split: option.splits)
qed

lemma simple_in_range: "n \<le> length b \<Longrightarrow> simple_attributes b n msgLen off \<noteq> Inl IndexOutOfRange"
proof (induction b n msgLen off rule: simple_attributes.induct)
  case (1 b n msgLen off)
  then show ?case
    by (subst simple_attributes.simps) (auto simp: Let_def dest!: attr_endpoint_None split: option.splits)
qed

lemma socket_in_range:
  "n \<le> length b \<Longrightarrow> 20 + msgLen \<le> n \<Longrightarrow> socket_attributes b n msgLen off \<noteq> Inl IndexOutOfRange"
proof (induction b n msgLen off rule: socket_attributes.induct)
  case (1 b n msgLen off)
  then show ?case
    by (subst socket_attributes.simps) (auto simp: Let_def dest!: attr_endpoint_None split: option.splits)
qed

lemma read_buffer_length: "read_buffer cap data = (b, n) \<Longrightarrow> n \<le> length b"
  by (auto simp: read_buffer_def)

section \<open>Responses as RFC 5389 lays them out\<close>

definition stun_attr :: "u16 \<Rightarrow> bytes \<Rightarrow> bytes" where
  "stun_attr typ v = put16 typ @ put16 (word_of_nat (length v)) @ v @ replicate (pad4 (length v) - length v) 0"

definition xor_mapped_value :: "bytes \<Rightarrow> u16 \<Rightarrow> bytes" where
  "xor_mapped_value ip port = [0, 1] @ put16 (port XOR 0x2112) @ map2 (XOR) ip cookie_bytes"

definition stun_response :: "bytes \<Rightarrow> (u16 \<times> bytes) list \<Rightarrow> bytes" where
  "stun_response tx attrs =
     (let body = concat (map (\<lambda>(t, v). stun_attr t v) attrs)
      in put16 0x0101 @ put16 (word_of_nat (length body)) @ put32 magicCookie @ tx @ body)"

lemma length_stun_attr [simp]: "length (stun_attr typ v) = 4 + pad4 (length v)"
  using pad4_bounds [of "length v"] by (simp add: stun_attr_def)

lemma attr_reads:
  assumes "drop off b = stun_attr typ v @ rest" "length v < 65536"
  shows "u16_at b off = Some typ" "u16_at b (off + 2) = Some (word_of_nat (length v))"
    "unat (word_of_nat (length v) :: u16) = length v"
    "i < length v \<Longrightarrow> u8 b (off + 4 + i) = Some (v ! i)"
    "i + 2 \<le> length v \<Longrightarrow> u16_at b (off + 4 + i) = Some (get16 (drop i v))"
    "drop (off + 4 + pad4 (length v)) b = rest"
proof -
  have pad: "length v \<le> pad4 (length v)" by (rule pad4_bounds)
  have len: "length b = off + 4 + pad4 (length v) + length rest"
  proof -
    have "length (drop off b) = 4 + pad4 (length v) + length rest" using assms(1) by simp
    then show ?thesis by simp
  qed
  have d4: "drop (off + 4) b = v @ replicate (pad4 (length v) - length v) 0 @ rest"
  proof -
    have "drop (off + 4) b = drop 4 (drop off b)" by (simp add: add.commute)
    then show ?thesis by (simp add: assms(1) stun_attr_def)
  qed
  show "u16_at b off = Some typ"
    using len assms(1) by (simp add: u16_at_def stun_attr_def)
  have "drop (off + 2) b = put16 (word_of_nat (length v)) @ v @ replicate (pad4 (length v) - length v) 0 @ rest"
  proof -
    have "drop (off + 2) b = drop 2 (drop off b)" by (simp add: add.commute)
    then show ?thesis by (simp add: assms(1) stun_attr_def)
  qed
  then show "u16_at b (off + 2) = Some (word_of_nat (length v))"
    using len by (simp add: u16_at_def)
  show "unat (word_of_nat (length v) :: u16) = length v"
    using assms(2) by (simp add: unat_of_nat)
  show "u8 b (off + 4 + i) = Some (v ! i)" if "i < length v"
  proof -
    have "b ! (off + 4 + i) = drop (off + 4) b ! i" using len that pad by (subst nth_drop) auto
    then show ?thesis using that len pad by (simp add: u8_def d4 nth_append)
  qed
  show "u16_at b (off + 4 + i) = Some (get16 (drop i v))" if "i + 2 \<le> length v"
  proof -
    have "drop (off + 4 + i) b = drop i (drop (off + 4) b)" by (simp add: add.commute)
    also have "\<dots> = drop i v @ replicate (pad4 (length v) - length v) 0 @ rest" using that by (simp add: d4)
    finally show ?thesis using that len pad by (simp add: u16_at_def get16_def)
  qed
  have "drop (off + 4 + pad4 (length v)) b = drop (4 + pad4 (length v)) (drop off b)"
    by (simp add: ac_simps)
  then show "drop (off + 4 + pad4 (length v)) b = rest" by (simp add: assms(1))
qed

lemma length_2: "length xs = 2 \<Longrightarrow> \<exists>a b. xs = [a, b]"
  by (auto simp: length_Suc_conv numeral_eq_Suc)

lemma xor_cookie: "length ip = 4 \<Longrightarrow> map2 (XOR) (map2 (XOR) ip cookie_bytes) cookie_bytes = (ip :: bytes)"
proof -
  assume "length ip = 4"
  then obtain a b c d where "ip = [a, b, c, d]" by (auto simp: length_Suc_conv numeral_eq_Suc)
  then show ?thesis by (simp add: cookie_bytes_def xor.assoc)
qed

lemma attr_endpoint_xor:
  assumes "drop off b = stun_attr typ (xor_mapped_value ip port) @ rest" "length ip = 4"
  shows "attr_endpoint True b (off + 4) = Some (ip, port)" "u8 b (5 + off) = Some 1"
    "length (xor_mapped_value ip port) = 8"
proof -
  obtain a0 a1 a2 a3 where ip: "ip = [a0, a1, a2, a3]"
    using assms(2) by (auto simp: length_Suc_conv numeral_eq_Suc)
  let ?v = "xor_mapped_value ip port"
  show len: "length ?v = 8" by (simp add: xor_mapped_value_def ip cookie_bytes_def)
  note reads = attr_reads [OF assms(1)]
  have v: "?v = [0, 1] @ put16 (port XOR 0x2112) @ [a0 XOR 0x21, a1 XOR 0x12, a2 XOR 0xA4, a3 XOR 0x42]"
    by (simp add: xor_mapped_value_def ip cookie_bytes_def)
  obtain p0 p1 where p: "put16 (port XOR 0x2112) = [p0, p1]"
    using length_2 [OF length_put(1)] by blast
  have "drop 2 ?v = put16 (port XOR 0x2112) @ drop 4 ?v" by (simp add: v p)
  then have port: "get16 (drop 2 ?v) = port XOR 0x2112" by simp
  show "u8 b (5 + off) = Some 1" using reads(4) [of 1] len by (simp add: v)
  have "u16_at b (off + 4 + 2) = Some (port XOR 0x2112)" using reads(5) [of 2] len port by simp
  moreover have "u8 b (off + 4 + 4) = Some (a0 XOR 0x21)" "u8 b (off + 4 + 5) = Some (a1 XOR 0x12)"
    "u8 b (off + 4 + 6) = Some (a2 XOR 0xA4)" "u8 b (off + 4 + 7) = Some (a3 XOR 0x42)"
    using reads(4) [of 4] reads(4) [of 5] reads(4) [of 6] reads(4) [of 7] len by (simp_all add: v p)
  ultimately show "attr_endpoint True b (off + 4) = Some (ip, port)"
    by (simp add: attr_endpoint_def cookie_bytes_def ip xor.assoc)
qed

text \<open>
  What the three attribute loops share: they step over attributes that hold no mapped
  address and stop at an XOR-MAPPED-ADDRESS. A client of the interface gets the address
  from behind any number of other attributes.
\<close>

locale stun_scanner =
  fixes scan :: "bytes \<Rightarrow> nat \<Rightarrow> nat \<Rightarrow> stun_error + (bytes \<times> u16)"
  assumes skip: "drop off b = stun_attr typ v @ rest \<Longrightarrow> length v < 65536 \<Longrightarrow> typ \<noteq> 0x0020 \<Longrightarrow>
      typ \<noteq> 0x0001 \<Longrightarrow> off + 4 + pad4 (length v) \<le> e \<Longrightarrow> e \<le> length b \<Longrightarrow> 20 \<le> off \<Longrightarrow>
      scan b e off = scan b e (off + 4 + pad4 (length v))"
    and hit: "drop off b = stun_attr 0x0020 (xor_mapped_value ip port) @ rest \<Longrightarrow> length ip = 4 \<Longrightarrow>
      off + 12 \<le> e \<Longrightarrow> e \<le> length b \<Longrightarrow> 20 \<le> off \<Longrightarrow> scan b e off = Inr (ip, port)"
begin

lemma scan_finds:
  assumes "drop off b = concat (map (\<lambda>(t, v). stun_attr t v) before) @ stun_attr 0x0020 (xor_mapped_value ip port) @ rest"
    and "\<forall>(t, v) \<in> set before. t \<noteq> 0x0020 \<and> t \<noteq> 0x0001 \<and> length v < 65536"
    and "length ip = 4" "20 \<le> off" "e \<le> length b"
    and "off + length (concat (map (\<lambda>(t, v). stun_attr t v) before)) + 12 \<le> e"
  shows "scan b e off = Inr (ip, port)"
  using assms
proof (induction before arbitrary: off)
  case Nil
  then show ?case by (intro hit) simp_all
next
  case (Cons tv before)
  obtain t v where tv: "tv = (t, v)" by fastforce
  let ?rest = "concat (map (\<lambda>(t, v). stun_attr t v) before) @ stun_attr 0x0020 (xor_mapped_value ip port) @ rest"
  have d: "drop off b = stun_attr t v @ ?rest" using Cons.prems(1) by (simp add: tv)
  have v: "length v < 65536" "t \<noteq> 0x0020" "t \<noteq> 0x0001" using Cons.prems(2) by (auto simp: tv)
  have "scan b e off = scan b e (off + 4 + pad4 (length v))"
    using Cons.prems v by (intro skip [OF d]) (auto simp: tv)
  also have "\<dots> = Inr (ip, port)"
    using Cons.prems attr_reads(6) [OF d v(1)] by (intro Cons.IH) (auto simp: tv)
  finally show ?case .
qed

end

interpretation srflx: stun_scanner srflx_attributes
proof
  fix off b ty v rest e
  assume d: "drop off b = stun_attr ty v @ rest" and v: "length v < 65536"
    and t: "ty \<noteq> 0x0020" and e: "off + 4 + pad4 (length v) \<le> e"
  have "off + 4 + length v \<le> e" using e pad4_bounds(1) [of "length v"] by linarith
  then show "srflx_attributes b e off = srflx_attributes b e (off + 4 + pad4 (length v))"
    using t attr_reads(1-3) [OF d v] by (subst srflx_attributes.simps) (simp add: Let_def)
next
  fix off b ip port rest e
  assume d: "drop off b = stun_attr 0x0020 (xor_mapped_value ip port) @ rest" and ip: "length ip = (4::nat)"
    and e: "off + 12 \<le> e"
  note ep = attr_endpoint_xor [OF d ip]
  then show "srflx_attributes b e off = Inr (ip, port)"
    using e attr_reads(1-3) [OF d]
    by (subst srflx_attributes.simps) (simp add: Let_def)
qed

interpretation simple: stun_scanner "\<lambda>b e. simple_attributes b e (e - 20)"
proof
  fix off b ty v rest e
  assume d: "drop off b = stun_attr ty v @ rest" and v: "length v < 65536"
    and t: "ty \<noteq> 0x0020" "ty \<noteq> 0x0001" and e: "off + 4 + pad4 (length v) \<le> e" "20 \<le> off"
  have "off + 4 + length v \<le> e" using e pad4_bounds(1) [of "length v"] by linarith
  then show "simple_attributes b e (e - 20) off = simple_attributes b e (e - 20) (off + 4 + pad4 (length v))"
    using t e attr_reads(1-3) [OF d v] by (subst simple_attributes.simps) (simp add: Let_def)
next
  fix off b ip port rest e
  assume d: "drop off b = stun_attr 0x0020 (xor_mapped_value ip port) @ rest" and ip: "length ip = (4::nat)"
    and e: "off + 12 \<le> e" "20 \<le> off"
  note ep = attr_endpoint_xor [OF d ip]
  then show "simple_attributes b e (e - 20) off = Inr (ip, port)"
    using e attr_reads(1-3) [OF d]
    by (subst simple_attributes.simps) (simp add: Let_def)
qed

interpretation socket: stun_scanner "\<lambda>b e. socket_attributes b e (e - 20)"
proof
  fix off b ty v rest e
  assume d: "drop off b = stun_attr ty v @ rest" and v: "length v < 65536"
    and t: "ty \<noteq> 0x0020" "ty \<noteq> 0x0001" and e: "off + 4 + pad4 (length v) \<le> e" "20 \<le> off"
  have "off + 4 + length v \<le> e" using e pad4_bounds(1) [of "length v"] by linarith
  moreover have "8 \<le> length v \<Longrightarrow> u8 b (5 + off) = Some (v ! 1)" using attr_reads(4) [OF d v, of 1] by simp
  ultimately show "socket_attributes b e (e - 20) off = socket_attributes b e (e - 20) (off + 4 + pad4 (length v))"
    using t e attr_reads(1-3) [OF d v] by (subst socket_attributes.simps) (simp add: Let_def)
next
  fix off b ip port rest e
  assume d: "drop off b = stun_attr 0x0020 (xor_mapped_value ip port) @ rest" and ip: "length ip = (4::nat)"
    and e: "off + 12 \<le> e" "20 \<le> off"
  note ep = attr_endpoint_xor [OF d ip]
  then show "socket_attributes b e (e - 20) off = Inr (ip, port)"
    using e attr_reads(1-3) [OF d]
    by (subst socket_attributes.simps) (simp add: Let_def)
qed


lemma read_buffer_fits:
  "length data \<le> cap \<Longrightarrow> read_buffer cap data = (data @ replicate (cap - length data) 0, length data)"
  by (simp add: read_buffer_def)

lemma response_header:
  assumes "length tx = 12" "length body < 65536"
    and "b = put16 0x0101 @ put16 (word_of_nat (length body)) @ put32 magicCookie @ tx @ body @ pad"
  shows "get16 b = 0x0101" "b ! 0 = 1" "b ! 1 = 1" "unat (get16 (slice b 2 4)) = length body"
    "get32 (slice b 4 8) = magicCookie" "slice b 8 20 = tx" "slice b 4 20 = slice (stun_request tx) 4 20"
    "drop 20 b = body @ pad"
proof -
  have "unat (0x0101 :: u16) = 257" "be_encode 2 257 = [1, 1]" by (simp, simp add: numeral_2_eq_2)
  then have type: "put16 0x0101 = [1, 1]" by (simp only: put16_def)
  show "get16 b = 0x0101" by (simp add: assms(3))
  show "b ! 0 = 1" "b ! 1 = 1" by (simp_all add: assms(3) type)
  have "slice b 2 4 = put16 (word_of_nat (length body))" by (simp add: assms(3) slice_def)
  then show "unat (get16 (slice b 2 4)) = length body" using assms(2) by (simp add: unat_of_nat)
  have "slice b 4 8 = put32 magicCookie" by (simp add: assms(3) slice_def)
  then show "get32 (slice b 4 8) = magicCookie" by simp
  show "slice b 8 20 = tx" "slice b 4 20 = slice (stun_request tx) 4 20" "drop 20 b = body @ pad"
    using assms(1) by (simp_all add: assms(3) slice_def stun_request_def)
qed

lemma concat_attrs_mod_4: "length (concat (map (\<lambda>(t, v). stun_attr t v) attrs)) mod 4 = 0"
proof (induction attrs)
  case (Cons tv attrs)
  have "length (stun_attr t v) mod 4 = 0" for t v
    unfolding length_stun_attr mod_add_self1 by (rule pad4_mod)
  with Cons show ?case by (cases tv) (simp add: mod_add_eq [symmetric])
qed simp

section \<open>Properties\<close>

text \<open>
  None of the three STUN response parsers ever indexes its buffer out of range,
  whatever datagram arrives: attribute lengths and the message length are checked before
  every read.
\<close>

theorem stun_parsers_in_range:
  "srflx_parse tx data \<noteq> Inl IndexOutOfRange \<and> simple_parse request data \<noteq> Inl IndexOutOfRange \<and>
   socket_parse from_server request data \<noteq> Inl IndexOutOfRange"
proof (intro conjI)
  obtain b n where r: "read_buffer 1500 data = (b, n)" by fastforce
  then show "srflx_parse tx data \<noteq> Inl IndexOutOfRange"
    using read_buffer_length [OF r] srflx_in_range by (auto simp: srflx_parse_def Let_def)
next
  obtain b n where r: "read_buffer 1024 data = (b, n)" by fastforce
  then show "simple_parse request data \<noteq> Inl IndexOutOfRange"
    using read_buffer_length [OF r] simple_in_range by (auto simp: simple_parse_def Let_def)
  show "socket_parse from_server request data \<noteq> Inl IndexOutOfRange"
    using r read_buffer_length [OF r] socket_in_range by (auto simp: socket_parse_def Let_def)
qed

text \<open>
  The three parsers agree with the encoding of RFC 5389: a binding response to the
  request that carries the XOR-MAPPED-ADDRESS of an endpoint, behind any attributes that
  are not mapped addresses and before any others, decodes to that endpoint in all of them,
  as long as it fits the smallest receive buffer of 1024 bytes.
\<close>

theorem stun_parsers_agree:
  assumes "length tx = 12" "length ip = 4"
    and "\<forall>(t, v) \<in> set before. t \<noteq> 0x0020 \<and> t \<noteq> 0x0001 \<and> length v < 65536"
    and "data = stun_response tx (before @ (0x0020, xor_mapped_value ip port) # others)"
    and "length data \<le> 1024"
  shows "srflx_parse tx data = Inr (ip, port) \<and> simple_parse (stun_request tx) data = Inr (ip, port) \<and>
    socket_parse True (stun_request tx) data = Inr (ip, port)"
proof -
  let ?attrs = "\<lambda>l. concat (map (\<lambda>(t, v). stun_attr t v) l)"
  let ?hit = "stun_attr 0x0020 (xor_mapped_value ip port)"
  define body where "body = ?attrs (before @ (0x0020, xor_mapped_value ip port) # others)"
  have data: "data = put16 0x0101 @ put16 (word_of_nat (length body)) @ put32 magicCookie @ tx @ body"
    unfolding assms(4) stun_response_def body_def Let_def ..
  then have len: "length data = 20 + length body" using assms(1) by simp
  have small: "length body < 65536" using len assms(5) by simp
  have aligned: "length body mod 4 = 0" unfolding body_def by (rule concat_attrs_mod_4)
  have "length ?hit = 12"
    using assms(2) by (simp add: xor_mapped_value_def cookie_bytes_def pad4_def)
  then have fits: "20 + length (?attrs before) + 12 \<le> 20 + length body" by (simp add: body_def)
  have split: "body @ pad = ?attrs before @ ?hit @ (?attrs others @ pad)" for pad
    by (simp add: body_def)
  have buffer: "data @ pad = put16 0x0101 @ put16 (word_of_nat (length body)) @ put32 magicCookie @ tx @ body @ pad" for pad
    by (simp add: data)
  note header = response_header [OF assms(1) small buffer]
  have found: "drop 20 (data @ pad) = ?attrs before @ ?hit @ (?attrs others @ pad)" for pad
    using header(8) [of pad] split by simp
  have ok: "20 + length body \<le> length (data @ pad)" for pad using len by simp
  have srflx: "srflx_parse tx data = Inr (ip, port)"
    using srflx.scan_finds [OF found assms(3,2) _ ok fits] header(1,4-6) len assms(5) aligned
    by (simp add: srflx_parse_def read_buffer_fits Let_def)
  have simple: "simple_parse (stun_request tx) data = Inr (ip, port)"
    using simple.scan_finds [OF found assms(3,2) _ ok fits] header(2-4,7) len assms(5) aligned
    by (simp add: simple_parse_def read_buffer_fits Let_def)
  have socket: "socket_parse True (stun_request tx) data = Inr (ip, port)"
    using socket.scan_finds [OF found assms(3,2) _ ok fits] header(2-4,7) len assms(5) aligned
    by (simp add: socket_parse_def read_buffer_fits Let_def)
  from srflx simple socket show ?thesis by simp
qed

abbreviation demo_tx :: bytes where "demo_tx \<equiv> replicate 12 7"

theorem stun_parsers_agree_witness:
  "srflx_parse demo_tx (stun_response demo_tx ([(0x8022, [120, 114])] @ (0x0020, xor_mapped_value [203, 0, 113, 9] 4242) # [])) =
   Inr ([203, 0, 113, 9], 4242)"
proof -
  let ?data = "stun_response demo_tx ([(0x8022, [120, 114])] @ (0x0020, xor_mapped_value [203, 0, 113, 9] 4242) # [])"
  have "length ?data \<le> 1024"
    by (simp add: stun_response_def stun_attr_def xor_mapped_value_def cookie_bytes_def pad4_def)
  with stun_parsers_agree [of demo_tx "[203, 0, 113, 9]" "[(0x8022, [120, 114])]" ?data 4242 "[]"]
  show ?thesis by simp
qed

end
