(* ===== verification/Consent.thy ===== *)
theory Consent
  imports Tunnel Stun "HOL-Library.Sublist"
begin

text \<open>
  The consent layer below the P2P tunnel, \<^verbatim>\<open>cmd/p2p/consent.go\<close>: framed records,
  AEAD-sealed data with a replay window, in-order delivery, acknowledgements and consent
  probes. SHA-256, HMAC and AES-GCM are the fields of a \<open>crypto\<close> record, an argument of the
  definitions. A waiter channel in a pending map is represented by its key, and closing it
  by recording the key as confirmed. What the wrapped connection reads is an argument of
  \<open>consent_Read\<close>, and the records it is asked to write are a result.
\<close>

section \<open>Data\<close>

record crypto =
  cr_sha256 :: "bytes \<Rightarrow> bytes"
  cr_hmac :: "bytes \<Rightarrow> bytes \<Rightarrow> bytes"
  cr_seal :: "bytes \<Rightarrow> bytes \<Rightarrow> bytes \<Rightarrow> bytes \<Rightarrow> bytes" \<comment> \<open>key, nonce, plaintext, additional data\<close>
  cr_open :: "bytes \<Rightarrow> bytes \<Rightarrow> bytes \<Rightarrow> bytes \<Rightarrow> bytes option" \<comment> \<open>key, nonce, ciphertext, additional data\<close>

definition consentMagic :: bytes where "consentMagic = bytes_of ''XRC1''"
abbreviation consentData :: byte where "consentData \<equiv> 0"
abbreviation consentRequest :: byte where "consentRequest \<equiv> 1"
abbreviation consentResponse :: byte where "consentResponse \<equiv> 2"
abbreviation consentDataAck :: byte where "consentDataAck \<equiv> 3"

definition maxConsentApplicationRecord :: nat where
  "maxConsentApplicationRecord = p2pMaxPayload + p2pHeaderSize + 1"
abbreviation consentDataNonceSize :: nat where "consentDataNonceSize \<equiv> 12"
abbreviation consentDataTagSize :: nat where "consentDataTagSize \<equiv> 16"
definition maxConsentRecord :: nat where
  "maxConsentRecord = maxConsentApplicationRecord + consentDataNonceSize + consentDataTagSize"
abbreviation maxConsentPending :: nat where "maxConsentPending \<equiv> 16"
abbreviation maxConsentDataPending :: nat where "maxConsentDataPending \<equiv> 64"
abbreviation consentDataRetries :: nat where "consentDataRetries \<equiv> 5"

datatype consent_error =
    RecordTooLarge | TooManyPending | ConnWriteFailed | ConnReadFailed | ConnClosed | AckTimeout
  | TruncatedRecord | LatePunch | InvalidFraming | InvalidRecordLength | TruncatedData
  | AuthenticationFailed | UnknownKind byte | NonceFailed | ProbeContextDone

record consent_conn =
  cc_key :: bytes
  cc_session :: string
  cc_send_key :: bytes
  cc_recv_key :: bytes
  cc_send_aad :: bytes
  cc_recv_aad :: bytes
  cc_send_ack_key :: bytes
  cc_recv_ack_key :: bytes
  cc_reliable :: bool
  cc_send_salt :: bytes
  cc_send_seq :: u64
  cc_done :: bool
  cc_read_buf :: bytes
  cc_pending :: "string list"
  cc_confirmed :: "string list"
  cc_pending_data :: "u64 list"
  cc_acked :: "u64 list"
  cc_recv_salt :: "bytes option"
  cc_recv_highest :: u64
  cc_recv_window :: u64
  cc_recv_next :: u64
  cc_recv_pending :: "(u64, bytes) gomap"

section \<open>Construction\<close>

definition deriveConsentKey :: "crypto \<Rightarrow> string \<Rightarrow> bytes \<Rightarrow> string \<Rightarrow> bytes" where
  "deriveConsentKey cr label key session =
     cr_sha256 cr (bytes_of (''xrok-p2p/'' @ label @ ''/v1'') @ [0] @ key @ [0] @ bytes_of session)"

definition data_aad :: "string \<Rightarrow> string \<Rightarrow> bytes" where
  "data_aad session label = bytes_of ''xrok-p2p-data-v2'' @ [0] @ bytes_of session @ [0] @ bytes_of (''from='' @ label)"

text \<open>\<open>None\<close>: the connection is returned as it is, without the consent layer.\<close>

definition aes_key_ok :: "bytes \<Rightarrow> bool" where
  "aes_key_ok k \<longleftrightarrow> length k = 16 \<or> length k = 24 \<or> length k = 32"

definition newDirectionalConsentConn ::
  "crypto \<Rightarrow> bytes option \<Rightarrow> bool \<Rightarrow> bytes \<Rightarrow> string \<Rightarrow> string \<Rightarrow> string \<Rightarrow> consent_conn option" where
  "newDirectionalConsentConn cr random_salt conn_nil key session sendLabel receiveLabel =
     (if conn_nil \<or> key = [] \<or> session = [] then None
      else
        let sendKey = deriveConsentKey cr (''data/from/'' @ sendLabel) key session;
            receiveKey = deriveConsentKey cr (''data/from/'' @ receiveLabel) key session
        in if \<not> aes_key_ok sendKey \<or> \<not> aes_key_ok receiveKey then None
           else case random_salt of None \<Rightarrow> None
           | Some salt \<Rightarrow> Some
              \<lparr>cc_key = deriveConsentKey cr ''control'' key session, cc_session = session,
               cc_send_key = sendKey, cc_recv_key = receiveKey,
               cc_send_aad = data_aad session sendLabel, cc_recv_aad = data_aad session receiveLabel,
               cc_send_ack_key = deriveConsentKey cr (''ack/for/'' @ sendLabel) key session,
               cc_recv_ack_key = deriveConsentKey cr (''ack/for/'' @ receiveLabel) key session,
               cc_reliable = (sendLabel \<noteq> receiveLabel), cc_send_salt = salt, cc_send_seq = 0, cc_done = False,
               cc_read_buf = [], cc_pending = [], cc_confirmed = [], cc_pending_data = [], cc_acked = [],
               cc_recv_salt = None, cc_recv_highest = 0, cc_recv_window = 0, cc_recv_next = 1, cc_recv_pending = []\<rparr>)"

definition newConsentConn :: "crypto \<Rightarrow> bytes option \<Rightarrow> bool \<Rightarrow> bytes \<Rightarrow> string \<Rightarrow> consent_conn option" where
  "newConsentConn cr random_salt conn_nil key session =
     newDirectionalConsentConn cr random_salt conn_nil key session ''shared'' ''shared''"

section \<open>Records\<close>

definition writeRecord :: "byte \<Rightarrow> bytes \<Rightarrow> consent_error + bytes" where
  "writeRecord kind payload =
     (if length payload > maxConsentRecord then Inl RecordTooLarge
      else Inr (consentMagic @ [kind] @ put32 (word_of_nat (length payload)) @ payload))"

definition readRecord :: "consent_error + bytes \<Rightarrow> consent_error + (byte \<times> bytes)" where
  "readRecord input =
     (case input of Inl e \<Rightarrow> Inl e
      | Inr data \<Rightarrow>
          let (record, n) = read_buffer (maxConsentRecord + 9) data in
          if n < 9 then Inl TruncatedRecord
          else if take 15 (take n record) = bytes_of ''XROK-P2P-PUNCH:'' then Inl LatePunch
          else if take 4 record \<noteq> consentMagic then Inl InvalidFraming
          else let len = get32 (slice record 5 9) in
            if unat len > maxConsentRecord then Inl RecordTooLarge
            else if n \<noteq> 9 + unat len then Inl InvalidRecordLength
            else Inr (record ! 4, slice record 9 n))"

section \<open>Controls\<close>

definition controlPayloadWithKey :: "crypto \<Rightarrow> bytes \<Rightarrow> string \<Rightarrow> byte \<Rightarrow> string \<Rightarrow> bytes" where
  "controlPayloadWithKey cr key session kind token =
     bytes_of (token @ '':'' @ base64url (cr_hmac cr key
       (bytes_of (session @ '':'' @ format_nat (unat kind) @ '':'' @ token))))"

definition controlPayload :: "crypto \<Rightarrow> consent_conn \<Rightarrow> byte \<Rightarrow> string \<Rightarrow> bytes" where
  "controlPayload cr c kind nonce = controlPayloadWithKey cr (cc_key c) (cc_session c) kind nonce"

text \<open>The prefix before the first colon.\<close>

definition verifyControl :: "crypto \<Rightarrow> consent_conn \<Rightarrow> byte \<Rightarrow> bytes \<Rightarrow> string option" where
  "verifyControl cr c kind payload =
     (let s = string_of payload in
      if CHR '':'' \<notin> set s then None
      else let nonce = takeWhile (\<lambda>ch. ch \<noteq> CHR '':'') s in
        if nonce \<noteq> [] \<and> payload = controlPayload cr c kind nonce then Some nonce else None)"

definition verifyControlWithKey :: "crypto \<Rightarrow> bytes \<Rightarrow> string \<Rightarrow> byte \<Rightarrow> bytes \<Rightarrow> string option" where
  "verifyControlWithKey cr key session kind payload =
     (case split_last (CHR '':'') (string_of payload) of
        None \<Rightarrow> None
      | Some (token, _) \<Rightarrow>
          if token = [] then None
          else if payload = controlPayloadWithKey cr key session kind token then Some token else None)"

text \<open>\<^verbatim>\<open>%x\<close> of a byte slice.\<close>

definition hex_digit :: "nat \<Rightarrow> char" where "hex_digit d = ''0123456789abcdef'' ! d"

definition format_hex :: "bytes \<Rightarrow> string" where
  "format_hex bs = concat (map (\<lambda>b. [hex_digit (unat b div 16), hex_digit (unat b mod 16)]) bs)"

definition dataAckPayload :: "crypto \<Rightarrow> consent_conn \<Rightarrow> u64 \<Rightarrow> bytes \<Rightarrow> bytes" where
  "dataAckPayload cr c sequence nonce =
     controlPayloadWithKey cr (cc_recv_ack_key c) (cc_session c) consentDataAck
       (format_hex (take 4 nonce) @ '':'' @ format_nat (unat sequence))"

definition verifyDataAck :: "crypto \<Rightarrow> consent_conn \<Rightarrow> bytes \<Rightarrow> u64 option" where
  "verifyDataAck cr c payload =
     (case verifyControlWithKey cr (cc_send_ack_key c) (cc_session c) consentDataAck payload of
        None \<Rightarrow> None
      | Some token \<Rightarrow>
          (case split_last (CHR '':'') token of
             None \<Rightarrow> None
           | Some (_, digits) \<Rightarrow> map_option word_of_nat (parse_uint 64 digits)))"

section \<open>Data records\<close>

definition sealData :: "crypto \<Rightarrow> bytes \<Rightarrow> consent_conn \<Rightarrow> bytes \<times> u64 \<times> consent_conn" where
  "sealData cr plaintext c =
     (let sequence = cc_send_seq c + 1; nonce = cc_send_salt c @ put64 sequence
      in (nonce @ cr_seal cr (cc_send_key c) nonce plaintext (cc_send_aad c), sequence, c\<lparr>cc_send_seq := sequence\<rparr>))"

text \<open>The sliding window: the highest sequence and a bitmap of the 64 up to it.\<close>

definition replay_window :: "u64 \<Rightarrow> u64 \<times> u64 \<Rightarrow> bool \<times> u64 \<times> u64" where
  "replay_window sequence hw =
     (let (highest, window) = hw in
      if sequence > highest then
        let shift = sequence - highest;
            window = (if shift \<ge> 64 then 0 else push_bit (unat shift) window)
        in (True, sequence, window OR 1)
      else
        let delta = highest - sequence in
        if delta \<ge> 64 \<or> window AND push_bit (unat delta) 1 \<noteq> 0 then (False, highest, window)
        else (True, highest, window OR push_bit (unat delta) 1))"

datatype open_result = Opened bytes u64 | Replayed u64 | OpenFailed consent_error

definition openData :: "crypto \<Rightarrow> bytes \<Rightarrow> consent_conn \<Rightarrow> open_result \<times> consent_conn" where
  "openData cr payload c =
     (if length payload < consentDataNonceSize + consentDataTagSize then (OpenFailed TruncatedData, c)
      else
        let nonce = take consentDataNonceSize payload in
        case cr_open cr (cc_recv_key c) nonce (drop consentDataNonceSize payload) (cc_recv_aad c) of
          None \<Rightarrow> (OpenFailed AuthenticationFailed, c)
        | Some plaintext \<Rightarrow>
            let sequence = get64 (drop 4 nonce); salt = take 4 nonce in
            if cc_recv_salt c \<noteq> None \<and> cc_recv_salt c \<noteq> Some salt then (Replayed sequence, c)
            else
              let c = c\<lparr>cc_recv_salt := Some salt\<rparr>;
                  (fresh, highest, window) = replay_window sequence (cc_recv_highest c, cc_recv_window c);
                  c = c\<lparr>cc_recv_highest := highest, cc_recv_window := window\<rparr>
              in if fresh then (Opened plaintext sequence, c) else (Replayed sequence, c))"

section \<open>Read\<close>

definition take_ready :: "consent_conn \<Rightarrow> consent_conn" where
  "take_ready c =
     (case gm_get (cc_recv_pending c) (cc_recv_next c) of
        Some ready \<Rightarrow>
          if ready \<noteq> [] then c\<lparr>cc_recv_pending := gm_del (cc_recv_next c) (cc_recv_pending c),
                               cc_recv_next := cc_recv_next c + 1, cc_read_buf := ready\<rparr>
          else c
      | None \<Rightarrow> c)"

definition copy_out :: "nat \<Rightarrow> consent_conn \<Rightarrow> bytes \<times> consent_conn" where
  "copy_out cap c = (take cap (cc_read_buf c), c\<lparr>cc_read_buf := drop cap (cc_read_buf c)\<rparr>)"

text \<open>Records written by \<^verbatim>\<open>_ = c.writeRecord(...)\<close>: nothing if the payload is too large.\<close>

definition written :: "byte \<Rightarrow> bytes \<Rightarrow> bytes list" where
  "written kind payload = (case writeRecord kind payload of Inl _ \<Rightarrow> [] | Inr r \<Rightarrow> [r])"

definition accept_data :: "bytes \<Rightarrow> u64 \<Rightarrow> consent_conn \<Rightarrow> bool \<times> consent_conn" where
  "accept_data plaintext sequence c =
     (if sequence = cc_recv_next c then
        (True, c\<lparr>cc_recv_next := cc_recv_next c + 1, cc_read_buf := plaintext\<rparr>)
      else if sequence > cc_recv_next c \<and> sequence - cc_recv_next c < 64 then
        (True, c\<lparr>cc_recv_pending := gm_put sequence plaintext (cc_recv_pending c)\<rparr>)
      else (False, c))"

definition read_data ::
  "crypto \<Rightarrow> nat \<Rightarrow> bytes \<Rightarrow> consent_conn \<Rightarrow> (consent_error + bytes) \<times> bytes list \<times> consent_conn" where
  "read_data cr cap payload c =
     (case openData cr payload c of
        (OpenFailed e, c) \<Rightarrow> (Inl e, [], c)
      | (Replayed sequence, c) \<Rightarrow>
          (Inr [], written consentDataAck (dataAckPayload cr c sequence (take consentDataNonceSize payload)), c)
      | (Opened plaintext sequence, c) \<Rightarrow>
          let (ack, c) = accept_data plaintext sequence c;
              out = (if ack then written consentDataAck (dataAckPayload cr c sequence (take consentDataNonceSize payload)) else []);
              (result, c) = copy_out cap c
          in (Inr result, out, c))"

definition consent_Read ::
  "crypto \<Rightarrow> nat \<Rightarrow> consent_error + bytes \<Rightarrow> consent_conn \<Rightarrow> (consent_error + bytes) \<times> bytes list \<times> consent_conn" where
  "consent_Read cr cap input c =
     (if cc_read_buf c \<noteq> [] then let (out, c) = copy_out cap c in (Inr out, [], c)
      else
        let c = take_ready c in
        if cc_read_buf c \<noteq> [] then let (out, c) = copy_out cap c in (Inr out, [], c)
        else case readRecord input of
          Inl e \<Rightarrow> if e = LatePunch then (Inr [], [], c) else (Inl e, [], c)
        | Inr (kind, payload) \<Rightarrow>
            if kind = consentData then read_data cr cap payload c
            else if kind = consentRequest then
              (case verifyControl cr c consentRequest payload of
                 Some nonce \<Rightarrow> (Inr [], written consentResponse (controlPayload cr c consentResponse nonce), c)
               | None \<Rightarrow> (Inr [], [], c))
            else if kind = consentResponse then
              (case verifyControl cr c consentResponse payload of
                 Some nonce \<Rightarrow>
                   (Inr [], [], if nonce \<in> set (cc_pending c)
                      then c\<lparr>cc_pending := removeAll nonce (cc_pending c), cc_confirmed := nonce # cc_confirmed c\<rparr>
                      else c)
               | None \<Rightarrow> (Inr [], [], c))
            else if kind = consentDataAck then
              (case verifyDataAck cr c payload of
                 Some sequence \<Rightarrow>
                   (Inr [], [], if sequence \<in> set (cc_pending_data c)
                      then c\<lparr>cc_pending_data := removeAll sequence (cc_pending_data c), cc_acked := sequence # cc_acked c\<rparr>
                      else c)
               | None \<Rightarrow> (Inr [], [], c))
            else (Inl (UnknownKind kind), [], c))"

section \<open>Write\<close>

definition consent_Close :: "consent_conn \<Rightarrow> consent_conn" where
  "consent_Close c = c\<lparr>cc_done := True\<rparr>"

text \<open>The part of \<^verbatim>\<open>Write\<close> before the record goes out.\<close>

definition begin_write :: "crypto \<Rightarrow> bytes \<Rightarrow> consent_conn \<Rightarrow> (consent_error + (bytes \<times> u64)) \<times> consent_conn" where
  "begin_write cr p c =
     (if length p > maxConsentApplicationRecord then (Inl RecordTooLarge, c)
      else
        let (payload, sequence, c) = sealData cr p c in
        if length (cc_pending_data c) \<ge> maxConsentDataPending then (Inl TooManyPending, c)
        else (Inr (payload, sequence), c\<lparr>cc_pending_data := List.insert sequence (cc_pending_data c)\<rparr>))"

definition forget_data :: "u64 \<Rightarrow> consent_conn \<Rightarrow> consent_conn" where
  "forget_data sequence c = c\<lparr>cc_pending_data := removeAll sequence (cc_pending_data c)\<rparr>"

text \<open>
  What one round of a retry loop observes: the write of the record failing, or after it
  the acknowledgement, the connection closing, or the retry timer.
\<close>

datatype attempt = AttemptFailed | AttemptAcked | AttemptClosed | AttemptTimeout

function writeReliableData ::
  "(nat \<Rightarrow> attempt) \<Rightarrow> bytes \<Rightarrow> u64 \<Rightarrow> nat \<Rightarrow> consent_conn \<Rightarrow> (consent_error + nat) \<times> nat \<times> consent_conn" where
  "writeReliableData env plaintext sequence attempt c =
     (if attempt \<le> consentDataRetries then
        (case env attempt of
           AttemptFailed \<Rightarrow> (Inl ConnWriteFailed, Suc attempt, forget_data sequence (consent_Close c))
         | AttemptAcked \<Rightarrow> (Inr (length plaintext), Suc attempt, forget_data sequence c)
         | AttemptClosed \<Rightarrow> (Inl ConnClosed, Suc attempt, forget_data sequence c)
         | AttemptTimeout \<Rightarrow> writeReliableData env plaintext sequence (Suc attempt) c)
      else (Inl AckTimeout, attempt, forget_data sequence (consent_Close c)))"
  by pat_completeness auto
termination by (relation "measure (\<lambda>(env, p, s, attempt, c). 6 - attempt)") auto

function retransmitData :: "(nat \<Rightarrow> attempt) \<Rightarrow> u64 \<Rightarrow> nat \<Rightarrow> consent_conn \<Rightarrow> nat \<times> consent_conn" where
  "retransmitData env sequence attempt c =
     (if attempt < consentDataRetries then
        (case env attempt of
           AttemptTimeout \<Rightarrow> retransmitData env sequence (Suc attempt) c
         | AttemptFailed \<Rightarrow> (Suc attempt, forget_data sequence c)
         | _ \<Rightarrow> (attempt, forget_data sequence c))
      else (attempt, forget_data sequence c))"
  by pat_completeness auto
termination by (relation "measure (\<lambda>(env, s, attempt, c). 5 - attempt)") auto

text \<open>
  \<^verbatim>\<open>Write\<close>: in reliable mode it returns when the record is acknowledged; otherwise it
  returns after the first transmission, with \<^verbatim>\<open>retransmitData\<close> left running, which
  the third component reports.
\<close>

definition consent_Write ::
  "crypto \<Rightarrow> (nat \<Rightarrow> attempt) \<Rightarrow> bytes \<Rightarrow> consent_conn \<Rightarrow> (consent_error + nat) \<times> consent_conn \<times> u64 option" where
  "consent_Write cr env p c =
     (case begin_write cr p c of
        (Inl e, c) \<Rightarrow> (Inl e, c, None)
      | (Inr (payload, sequence), c) \<Rightarrow>
          if cc_reliable c then
            (case writeReliableData env p sequence 0 c of (r, _, c) \<Rightarrow> (r, c, None))
          else if env 0 = AttemptFailed then (Inl ConnWriteFailed, forget_data sequence c, None)
          else (Inr (length p), c, Some sequence))"

section \<open>Probes\<close>

definition begin_probe :: "crypto \<Rightarrow> bytes option \<Rightarrow> consent_conn \<Rightarrow> (consent_error + (string \<times> bytes list)) \<times> consent_conn" where
  "begin_probe cr random c =
     (case random of None \<Rightarrow> (Inl NonceFailed, c)
      | Some nonceBytes \<Rightarrow>
          let nonce = base64url nonceBytes in
          if length (cc_pending c) \<ge> maxConsentPending then (Inl TooManyPending, c)
          else (Inr (nonce, written consentRequest (controlPayload cr c consentRequest nonce)),
                c\<lparr>cc_pending := List.insert nonce (cc_pending c)\<rparr>))"

datatype probe_outcome = ProbeWriteFailed | ProbeConfirmed | ProbeDone

definition end_probe :: "string \<Rightarrow> probe_outcome \<Rightarrow> consent_conn \<Rightarrow> consent_error option \<times> consent_conn" where
  "end_probe nonce outcome c =
     ((case outcome of ProbeWriteFailed \<Rightarrow> Some ConnWriteFailed | ProbeConfirmed \<Rightarrow> None | ProbeDone \<Rightarrow> Some ProbeContextDone),
      c\<lparr>cc_pending := removeAll nonce (cc_pending c)\<rparr>)"

declare writeReliableData.simps [simp del] retransmitData.simps [simp del]


section \<open>Round trips of records and controls\<close>

lemma magic_bytes: "consentMagic = [88, 82, 67, 49]"
  by (simp add: consentMagic_def bytes_of_def)

lemma max_record: "maxConsentRecord = 65037" "maxConsentApplicationRecord = 65009"
  by (simp_all add: maxConsentRecord_def maxConsentApplicationRecord_def p2pMaxPayload_def p2pHeaderSize_def)

lemma readRecord_writeRecord:
  assumes "writeRecord kind payload = Inr r"
  shows "readRecord (Inr r) = Inr (kind, payload)"
proof -
  let ?len = "put32 (word_of_nat (length payload))"
  have small: "length payload \<le> 65037" and r: "r = consentMagic @ [kind] @ ?len @ payload"
    using assms by (auto simp: writeRecord_def max_record split: if_splits)
  have len: "length r = 9 + length payload" by (simp add: r magic_bytes)
  have unat: "unat (word_of_nat (length payload) :: u32) = length payload"
    using small by (simp add: unat_of_nat)
  have buf: "read_buffer 65046 r = (r @ replicate (65046 - length r) 0, length r)"
    using small len by (simp add: read_buffer_fits)
  have "take 15 r \<noteq> bytes_of ''XROK-P2P-PUNCH:''"
  proof
    assume "take 15 r = bytes_of ''XROK-P2P-PUNCH:''"
    then have "take 15 r ! 2 = bytes_of ''XROK-P2P-PUNCH:'' ! 2" by simp
    then show False by (simp add: r magic_bytes bytes_of_def)
  qed
  moreover have "slice (r @ pad) 5 9 = ?len" "(r @ pad) ! 4 = kind" "slice (r @ pad) 9 (length r) = payload" for pad
    by (simp_all add: r magic_bytes slice_def)
  moreover have "take 4 (r @ pad) = consentMagic" for pad by (simp add: r magic_bytes)
  ultimately show ?thesis
    using len unat small by (simp add: readRecord_def buf max_record)
qed

lemma written_small: "length payload \<le> 65037 \<Longrightarrow> \<exists>r. written kind payload = [r] \<and> writeRecord kind payload = Inr r"
  by (simp add: written_def writeRecord_def max_record)

lemma hex_digit_no_colon: "d < 16 \<Longrightarrow> hex_digit d \<noteq> CHR '':''"
proof -
  assume "d < 16"
  then have "hex_digit d \<in> set ''0123456789abcdef''" unfolding hex_digit_def by (intro nth_mem) simp
  then show ?thesis by auto
qed

lemma format_hex_no_colon: "CHR '':'' \<notin> set (format_hex bs)"
proof -
  have "unat b div 16 < 16" for b :: byte using unat_less_256 [of b] by (simp del: unat_less_256)
  then show ?thesis by (auto simp: format_hex_def hex_digit_no_colon dest: sym [of "CHR '':''"])
qed

lemma verifyControlWithKey_roundtrip:
  "token \<noteq> [] \<Longrightarrow> verifyControlWithKey cr key session kind (controlPayloadWithKey cr key session kind token) = Some token"
  by (simp add: verifyControlWithKey_def controlPayloadWithKey_def base64url_no_colon del: bytes_of_append)

lemma verifyControl_roundtrip:
  assumes "nonce \<noteq> []" "CHR '':'' \<notin> set nonce"
  shows "verifyControl cr c kind (controlPayload cr c kind nonce) = Some nonce"
proof -
  have "takeWhile (\<lambda>ch. ch \<noteq> CHR '':'') (nonce @ '':'' @ rest) = nonce" for rest
    using assms(2) by (induction nonce) auto
  with assms(1) show ?thesis
    by (simp add: verifyControl_def controlPayload_def controlPayloadWithKey_def Let_def del: bytes_of_append)
qed

lemma verifyDataAck_roundtrip:
  assumes "cc_send_ack_key a = cc_recv_ack_key b" "cc_session a = cc_session b"
  shows "verifyDataAck cr a (dataAckPayload cr b sequence nonce) = Some sequence"
proof -
  let ?digits = "format_nat (unat sequence)"
  have "split_last (CHR '':'') (format_hex (take 4 nonce) @ CHR '':'' # ?digits) = Some (format_hex (take 4 nonce), ?digits)"
    by (rule split_last_append) (rule format_nat_no_colon)
  moreover have "parse_uint 64 ?digits = Some (unat sequence)"
    by (rule parse_uint_format) simp
  ultimately show ?thesis
    using assms verifyControlWithKey_roundtrip [of "format_hex (take 4 nonce) @ CHR '':'' # ?digits"]
    by (simp add: verifyDataAck_def dataAckPayload_def)
qed

section \<open>The replay window as a set\<close>

text \<open>The abstract window: the highest sequence and the set of all sequences accepted so far.\<close>

definition spec_window :: "u64 \<Rightarrow> nat \<times> nat set \<Rightarrow> bool \<times> nat \<times> nat set" where
  "spec_window sequence hs =
     (let s = unat sequence; (h, seen) = hs in
      if s > h \<or> (h - s < 64 \<and> s \<notin> seen) then (True, max h s, insert s seen) else (False, h, seen))"

definition window_rel :: "u64 \<times> u64 \<Rightarrow> nat \<times> nat set \<Rightarrow> bool" where
  "window_rel hw hs \<longleftrightarrow> unat (fst hw) = fst hs \<and> (\<forall>s \<in> snd hs. s \<le> fst hs) \<and>
     (\<forall>\<delta> < 64. bit (snd hw) \<delta> \<longleftrightarrow> \<delta> \<le> fst hs \<and> fst hs - \<delta> \<in> snd hs)"

lemma window_ahead:
  assumes rel: "window_rel (hi, w) (h, seen)" and ahead: "h < unat s"
  shows "window_rel (s, (if s - hi \<ge> 64 then 0 else push_bit (unat (s - hi)) w) OR 1) (unat s, insert (unat s) seen)"
proof -
  have hi: "unat hi = h" and seen: "\<forall>x \<in> seen. x \<le> h"
    and w: "\<And>\<delta>. \<delta> < 64 \<Longrightarrow> bit w \<delta> \<longleftrightarrow> \<delta> \<le> h \<and> h - \<delta> \<in> seen"
    using rel by (auto simp: window_rel_def)
  define shift where "shift = unat s - h"
  have shift: "unat (s - hi) = shift" "0 < shift" "unat s = h + shift"
    using ahead hi by (simp_all add: shift_def unat_sub_if')
  have ge: "s - hi \<ge> 64 \<longleftrightarrow> shift \<ge> 64" using shift(1) by (simp add: word_le_nat_alt)
  have "bit ((if s - hi \<ge> 64 then 0 else push_bit (unat (s - hi)) w) OR 1) \<delta> \<longleftrightarrow>
      \<delta> = 0 \<or> (shift \<le> \<delta> \<and> \<delta> \<le> h + shift \<and> h + shift - \<delta> \<in> seen)" if "\<delta> < 64" for \<delta>
    using that w [of "\<delta> - shift"] ge shift(1,2)
    by (auto simp: bit_simps)
  moreover have "\<delta> \<le> unat s \<and> unat s - \<delta> \<in> insert (unat s) seen \<longleftrightarrow>
      \<delta> = 0 \<or> (shift \<le> \<delta> \<and> \<delta> \<le> h + shift \<and> h + shift - \<delta> \<in> seen)" for \<delta>
    using seen shift by (auto dest!: bspec)
  ultimately show ?thesis using seen ahead by (auto simp: window_rel_def)
qed

lemma window_behind:
  assumes rel: "window_rel (hi, w) (h, seen)" and behind: "unat s \<le> h" "h - unat s < 64"
  shows "bit w (h - unat s) \<longleftrightarrow> unat s \<in> seen"
    and "window_rel (hi, w OR push_bit (h - unat s) 1) (h, insert (unat s) seen)"
  using assms by (auto simp: window_rel_def bit_simps)

interpretation window: simulation "\<lambda>hw s. replay_window s hw" "\<lambda>hs s. spec_window s hs" window_rel
proof -
  have sim: "fst (replay_window s hw) = fst (spec_window s hs) \<and>
      window_rel (snd (replay_window s hw)) (snd (spec_window s hs))" if "window_rel hw hs" for s hw hs
  proof -
    obtain hi w h seen where eq: "hw = (hi, w)" "hs = (h, seen)" by fastforce
    have hi: "unat hi = h" using that by (simp add: eq window_rel_def)
    show ?thesis
    proof (cases "h < unat s")
      case True
      with window_ahead [of hi w h seen s] that hi show ?thesis
        by (auto simp: eq replay_window_def spec_window_def word_less_nat_alt Let_def max_def)
    next
      case False
      then have delta: "unat (hi - s) = h - unat s" using hi by (simp add: unat_sub_if')
      have ge: "hi - s \<ge> 64 \<longleftrightarrow> h - unat s \<ge> 64" using delta by (simp add: word_le_nat_alt)
      from False that window_behind [of hi w h seen s] show ?thesis
        by (auto simp: eq replay_window_def spec_window_def word_less_nat_alt Let_def hi ge delta
            and_exp_eq_0_iff_not_bit max_def)
    qed
  qed
  show "simulation (\<lambda>hw s. replay_window s hw) (\<lambda>hs s. spec_window s hs) window_rel"
    by unfold_locales (simp_all add: sim)
qed


section \<open>In-order delivery under an arbitrary network\<close>

text \<open>
  Authenticity of the records: whatever ciphertext the receiver's key opens is the
  \<open>s\<close>-th record of the sender, \<open>P s\<close>, under the nonce with sequence \<open>s\<close>, for a sender
  that has sealed fewer than \<open>2^64 - 1\<close> records.
\<close>

definition seq_limit :: nat where "seq_limit = 2 ^ 64 - 1"

definition authentic :: "crypto \<Rightarrow> (nat \<Rightarrow> bytes) \<Rightarrow> consent_conn \<Rightarrow> bool" where
  "authentic cr P c \<longleftrightarrow>
     (\<forall>nonce ct p. cr_open cr (cc_recv_key c) nonce ct (cc_recv_aad c) = Some p \<longrightarrow>
        0 < unat (get64 (drop 4 nonce)) \<and> unat (get64 (drop 4 nonce)) < seq_limit \<and>
        p = P (unat (get64 (drop 4 nonce))))"

definition stream_step :: "crypto \<Rightarrow> consent_conn \<times> bytes \<Rightarrow> nat \<times> (consent_error + bytes) \<Rightarrow> consent_conn \<times> bytes" where
  "stream_step cr s e =
     (case consent_Read cr (fst e) (snd e) (fst s) of
        (Inr out, _, c) \<Rightarrow> (c, snd s @ out)
      | (Inl _, _, c) \<Rightarrow> (c, snd s))"

text \<open>What was handed to the reader and what is buffered make up the records before \<open>recvNext\<close>.\<close>

definition pending_ok :: "(nat \<Rightarrow> bytes) \<Rightarrow> (u64, bytes) gomap \<Rightarrow> bool" where
  "pending_ok P m \<longleftrightarrow> (\<forall>k p. gm_get m k = Some p \<longrightarrow> unat k < seq_limit \<and> p = P (unat k))"

definition stream_inv :: "crypto \<Rightarrow> (nat \<Rightarrow> bytes) \<Rightarrow> consent_conn \<times> bytes \<Rightarrow> bool" where
  "stream_inv cr P s \<longleftrightarrow> (let (c, out) = s in
     authentic cr P c \<and> 0 < unat (cc_recv_next c) \<and>
     out @ cc_read_buf c = concat (map P [1..<unat (cc_recv_next c)]) \<and>
     pending_ok P (cc_recv_pending c))"

lemma authentic_cong: "cc_recv_key c = cc_recv_key d \<Longrightarrow> cc_recv_aad c = cc_recv_aad d \<Longrightarrow> authentic cr P c = authentic cr P d"
  by (simp only: authentic_def)

lemma authentic_update [simp]:
  "authentic cr P (c\<lparr>cc_recv_pending := x\<rparr>) = authentic cr P c"
  "authentic cr P (c\<lparr>cc_recv_next := n\<rparr>) = authentic cr P c"
  "authentic cr P (c\<lparr>cc_read_buf := y\<rparr>) = authentic cr P c"
  "authentic cr P (c\<lparr>cc_pending := pn\<rparr>) = authentic cr P c"
  "authentic cr P (c\<lparr>cc_confirmed := cf\<rparr>) = authentic cr P c"
  "authentic cr P (c\<lparr>cc_pending_data := pd\<rparr>) = authentic cr P c"
  "authentic cr P (c\<lparr>cc_acked := ak\<rparr>) = authentic cr P c"
  by (rule authentic_cong, simp, simp)+

lemma pending_ok_get: "pending_ok P m \<Longrightarrow> gm_get m k = Some p \<Longrightarrow> unat k < seq_limit \<and> p = P (unat k)"
  unfolding pending_ok_def by blast

lemma pending_ok_del [simp]: "pending_ok P m \<Longrightarrow> pending_ok P (gm_del k m)"
  unfolding pending_ok_def gm_get_del by (metis option.distinct(1))

lemma pending_ok_put [simp]: "pending_ok P m \<Longrightarrow> unat k < seq_limit \<Longrightarrow> pending_ok P (gm_put k (P (unat k)) m)"
  unfolding pending_ok_def gm_get_put by (metis option.inject)

lemma unat_Suc_u64: "unat (w :: u64) < seq_limit \<Longrightarrow> unat (w + 1) = Suc (unat w)"
  using unat_plus_if' [of w 1] by (simp add: seq_limit_def)

lemma concat_Suc: "0 < n \<Longrightarrow> concat (map P [1..<Suc n]) = concat (map P [1..<n]) @ P n"
  by simp

lemma stream_inv_take_ready:
  assumes "stream_inv cr P (c, out)" "cc_read_buf c = []"
  shows "stream_inv cr P (take_ready c, out)"
proof (cases "gm_get (cc_recv_pending c) (cc_recv_next c)")
  case (Some ready)
  have "pending_ok P (cc_recv_pending c)" using assms(1) by (simp add: stream_inv_def)
  from pending_ok_get [OF this Some] have "unat (cc_recv_next c) < seq_limit \<and> ready = P (unat (cc_recv_next c))" .
  with assms Some show ?thesis
    by (simp add: take_ready_def stream_inv_def unat_Suc_u64)
qed (use assms in \<open>simp add: take_ready_def\<close>)

lemma stream_inv_copy_out:
  "stream_inv cr P (c, out) \<Longrightarrow> copy_out cap c = (part, c') \<Longrightarrow> stream_inv cr P (c', out @ part)"
  by (auto simp: copy_out_def stream_inv_def)

lemma openData_frame:
  assumes "openData cr payload c = (r, c')"
  shows "cc_recv_next c' = cc_recv_next c" "cc_recv_pending c' = cc_recv_pending c"
    "cc_read_buf c' = cc_read_buf c" "cc_recv_key c' = cc_recv_key c" "cc_recv_aad c' = cc_recv_aad c"
  using assms by (auto simp: openData_def Let_def split: if_splits option.splits prod.splits)

lemma openData_authentic:
  assumes "openData cr payload c = (Opened plaintext sequence, c')" "authentic cr P c"
  shows "0 < unat sequence \<and> unat sequence < seq_limit \<and> plaintext = P (unat sequence)"
proof -
  have "cr_open cr (cc_recv_key c) (take 12 payload) (drop 12 payload) (cc_recv_aad c) = Some plaintext"
    "sequence = get64 (drop 4 (take 12 payload))"
    using assms(1) by (auto simp: openData_def Let_def split: if_splits option.splits prod.splits)
  with assms(2) show ?thesis unfolding authentic_def by blast
qed

lemma stream_inv_accept:
  assumes "stream_inv cr P (c, out)" "cc_read_buf c = []" "accept_data (P (unat sequence)) sequence c = (ack, c')"
    and "0 < unat sequence" "unat sequence < seq_limit"
  shows "stream_inv cr P (c', out)"
  using assms by (auto simp: accept_data_def stream_inv_def unat_Suc_u64 split: if_splits)

lemma stream_inv_read_data:
  assumes "stream_inv cr P (c, out)" "cc_read_buf c = []" "read_data cr cap payload c = (r, acks, c')"
  shows "stream_inv cr P (c', case r of Inr part \<Rightarrow> out @ part | Inl _ \<Rightarrow> out)"
proof -
  obtain o' c1 where open1: "openData cr payload c = (o', c1)" by fastforce
  note frame = openData_frame [OF open1]
  have inv1: "stream_inv cr P (c1, out)"
    using assms(1) frame authentic_cong [OF frame(4,5)] by (simp add: stream_inv_def)
  have buf1: "cc_read_buf c1 = []" using assms(2) frame by simp
  show ?thesis
  proof (cases o')
    case (Opened plaintext sequence)
    obtain ack c2 where acc: "accept_data plaintext sequence c1 = (ack, c2)" by fastforce
    obtain part c3 where out: "copy_out cap c2 = (part, c3)" by fastforce
    have "authentic cr P c" using assms(1) by (simp add: stream_inv_def)
    from openData_authentic [OF open1 [unfolded Opened] this]
    have "stream_inv cr P (c2, out)" using stream_inv_accept [OF inv1 buf1] acc by auto
    from stream_inv_copy_out [OF this out] assms(3) open1 Opened acc out show ?thesis
      by (auto simp: read_data_def)
  qed (use assms(3) open1 inv1 in \<open>auto simp: read_data_def\<close>)
qed

lemma stream_inv_update [simp]:
  "stream_inv cr P (c\<lparr>cc_pending := x, cc_confirmed := y\<rparr>, out) = stream_inv cr P (c, out)"
  "stream_inv cr P (c\<lparr>cc_pending_data := z, cc_acked := w\<rparr>, out) = stream_inv cr P (c, out)"
  by (simp_all add: stream_inv_def)

lemma consent_Read_buffered:
  assumes "cc_read_buf c \<noteq> []"
  shows "consent_Read cr cap input c = (let (out, c) = copy_out cap c in (Inr out, [], c))"
  using assms by (simp add: consent_Read_def)

lemma stream_inv_Read:
  assumes inv: "stream_inv cr P (c, out)" and read: "consent_Read cr cap input c = (r, acks, c')"
  shows "stream_inv cr P (c', case r of Inr part \<Rightarrow> out @ part | Inl _ \<Rightarrow> out)"
proof (cases "cc_read_buf c = []")
  case False
  obtain part c1 where out: "copy_out cap c = (part, c1)" by fastforce
  from stream_inv_copy_out [OF inv out] False read out show ?thesis by (auto simp: consent_Read_def)
next
  case empty: True
  define d where "d = take_ready c"
  have invd: "stream_inv cr P (d, out)" unfolding d_def using stream_inv_take_ready [OF inv empty] .
  show ?thesis
  proof (cases "cc_read_buf d = []")
    case False
    obtain part c1 where out: "copy_out cap d = (part, c1)" by fastforce
    from stream_inv_copy_out [OF invd out] empty False read out show ?thesis
      by (auto simp: consent_Read_def d_def [symmetric] Let_def)
  next
    case True
    show ?thesis
    proof (cases "\<exists>payload. readRecord input = Inr (consentData, payload)")
      case data: True
      then obtain payload where "readRecord input = Inr (consentData, payload)" by blast
      with read empty True have "read_data cr cap payload d = (r, acks, c')"
        by (simp add: consent_Read_def d_def [symmetric] Let_def)
      from stream_inv_read_data [OF invd True this] show ?thesis .
    next
      case False
      with read empty True invd show ?thesis
        by (auto simp: consent_Read_def d_def [symmetric] Let_def
            split: sum.splits prod.splits if_splits option.splits)
    qed
  qed
qed

interpretation stream: invariant_steps "stream_step cr" "stream_inv cr P"
  for cr :: crypto and P :: "nat \<Rightarrow> bytes"
proof
  fix s e
  assume inv: "stream_inv cr P s"
  obtain c out where s: "s = (c, out)" by fastforce
  obtain r acks c' where read: "consent_Read cr (fst e) (snd e) c = (r, acks, c')" using prod_cases3 by blast
  from stream_inv_Read [OF inv [unfolded s] read] read show "stream_inv cr P (stream_step cr s e)"
    by (cases r) (simp_all add: stream_step_def s)
qed

section \<open>Reliable exchange\<close>

text \<open>
  One stop-and-wait round: the sender writes a message, the receiver reads the record and
  the sender reads the acknowledgements that it caused.
\<close>

definition exchange :: "crypto \<Rightarrow> nat \<Rightarrow> consent_conn \<times> consent_conn \<Rightarrow> bytes \<Rightarrow> bytes \<times> consent_conn \<times> consent_conn" where
  "exchange cr cap ab m =
     (case begin_write cr m (fst ab) of
        (Inl _, a) \<Rightarrow> ([], a, snd ab)
      | (Inr (payload, sequence), a) \<Rightarrow>
          (case writeRecord consentData payload of
             Inl _ \<Rightarrow> ([], a, snd ab)
           | Inr r \<Rightarrow>
               (case consent_Read cr cap (Inr r) (snd ab) of
                  (res, acks, b) \<Rightarrow>
                    (case res of Inr out \<Rightarrow> out | Inl _ \<Rightarrow> [],
                     foldl (\<lambda>a ack. snd (snd (consent_Read cr cap (Inr ack) a))) a acks, b))))"

text \<open>Documented behaviour of AES-GCM and HMAC-SHA-256: opening what was sealed, and sizes.\<close>

definition crypto_ok :: "crypto \<Rightarrow> bool" where
  "crypto_ok cr \<longleftrightarrow>
     (\<forall>k n p ad. cr_open cr k n (cr_seal cr k n p ad) ad = Some p \<and> length (cr_seal cr k n p ad) = length p + 16) \<and>
     (\<forall>k m. length (cr_hmac cr k m) = 32)"

definition channel :: "nat \<Rightarrow> consent_conn \<times> consent_conn \<Rightarrow> bool" where
  "channel k ab \<longleftrightarrow> (let (a, b) = ab in
     unat (cc_send_seq a) = k \<and> unat (cc_recv_highest b) = k \<and> unat (cc_recv_next b) = Suc k \<and>
     (cc_recv_salt b = None \<or> cc_recv_salt b = Some (cc_send_salt a)) \<and> length (cc_send_salt a) = 4 \<and>
     cc_pending_data a = [] \<and> cc_read_buf a = [] \<and> cc_recv_pending a = [] \<and>
     cc_read_buf b = [] \<and> cc_recv_pending b = [] \<and>
     cc_send_key a = cc_recv_key b \<and> cc_send_aad a = cc_recv_aad b \<and>
     cc_send_ack_key a = cc_recv_ack_key b \<and> cc_session a = cc_session b)"

lemma ack_size:
  assumes "crypto_ok cr"
  shows "length (dataAckPayload cr c sequence nonce) \<le> 65037"
proof -
  have "length (format_hex (take 4 nonce)) \<le> 8"
    by (simp add: format_hex_def length_concat comp_def sum_list_triv)
  moreover have "length (format_nat (unat sequence)) \<le> 20"
    using length_format_nat [of "unat sequence" 19] unat_less_u64 [of sequence] by (simp del: unat_less_u64)
  moreover have "length (base64url (cr_hmac cr k m)) \<le> 64" for k m
    using length_base64url [of "cr_hmac cr k m"] assms by (simp add: crypto_ok_def)
  moreover obtain k m where "length (dataAckPayload cr c sequence nonce) = length (format_hex (take 4 nonce)) +
      (length (format_nat (unat sequence)) + 2 + length (base64url (cr_hmac cr k m)))"
    unfolding dataAckPayload_def controlPayloadWithKey_def length_bytes_of length_append by auto
  moreover note this
  ultimately have "length (dataAckPayload cr c sequence nonce) \<le> 8 + (20 + 2 + 64)"
    by (metis add_mono order_refl)
  then show ?thesis by simp
qed


lemma openData_sealed:
  assumes "crypto_ok cr" "channel k (a, b)" "k < seq_limit" "sealData cr m a = (payload, sequence, a')"
  shows "unat sequence = Suc k" "length payload = length m + 28" "take 12 payload = cc_send_salt a @ put64 sequence"
    "\<exists>window. openData cr payload b = (Opened m sequence,
       b\<lparr>cc_recv_salt := Some (cc_send_salt a), cc_recv_highest := sequence, cc_recv_window := window\<rparr>)"
proof -
  let ?nonce = "cc_send_salt a @ put64 sequence"
  have seq: "sequence = cc_send_seq a + 1" and payload: "payload = ?nonce @ cr_seal cr (cc_send_key a) ?nonce m (cc_send_aad a)"
    using assms(4) by (auto simp: sealData_def Let_def)
  have ch: "unat (cc_send_seq a) = k" "unat (cc_recv_highest b) = k" "length (cc_send_salt a) = 4"
    "cc_recv_salt b = None \<or> cc_recv_salt b = Some (cc_send_salt a)"
    "cc_send_key a = cc_recv_key b" "cc_send_aad a = cc_recv_aad b"
    using assms(2) by (simp_all add: channel_def)
  show s: "unat sequence = Suc k" using unat_Suc_u64 [of "cc_send_seq a"] assms(3) ch(1) by (simp add: seq)
  have len: "length (cr_seal cr key n m ad) = length m + 16"
    and opens: "cr_open cr key n (cr_seal cr key n m ad) ad = Some m" for key n ad
    using assms(1) by (simp_all add: crypto_ok_def)
  show length: "length payload = length m + 28" by (simp add: payload len ch(3))
  show nonce: "take 12 payload = ?nonce" by (simp add: payload ch(3))
  have body: "drop 12 payload = cr_seal cr (cc_recv_key b) ?nonce m (cc_recv_aad b)"
    by (simp add: payload ch(3,5,6))
  have parts: "get64 (drop 4 ?nonce) = sequence" "take 4 ?nonce = cc_send_salt a" by (simp_all add: ch(3))
  have fresh: "cc_recv_highest b < sequence" using s ch(2) by (simp add: word_less_nat_alt)
  show "\<exists>window. openData cr payload b = (Opened m sequence,
       b\<lparr>cc_recv_salt := Some (cc_send_salt a), cc_recv_highest := sequence, cc_recv_window := window\<rparr>)"
  proof (intro exI)
    have salt: "\<not> (cc_recv_salt b \<noteq> None \<and> cc_recv_salt b \<noteq> Some (cc_send_salt a))" using ch(4) by auto
    show "openData cr payload b = (Opened m sequence,
       b\<lparr>cc_recv_salt := Some (cc_send_salt a), cc_recv_highest := sequence,
         cc_recv_window := snd (snd (replay_window sequence (cc_recv_highest b, cc_recv_window b)))\<rparr>)"
      unfolding openData_def nonce body opens parts Let_def length if_not_P [OF salt]
      using fresh by (simp add: replay_window_def Let_def)
  qed
qed

lemma exchange_delivers:
  assumes "crypto_ok cr" "channel k (a, b)" "Suc k < seq_limit" "length m \<le> 65009" "65009 \<le> cap"
  shows "\<exists>a' b'. exchange cr cap (a, b) m = (m, a', b') \<and> channel (Suc k) (a', b') \<and>
    cc_acked a' = (cc_send_seq a + 1) # cc_acked a"
proof -
  obtain payload sequence a1 where sl: "sealData cr m a = (payload, sequence, a1)" using prod_cases3 by blast
  have a1: "a1 = a\<lparr>cc_send_seq := sequence\<rparr>" and seq: "sequence = cc_send_seq a + 1"
    using sl by (auto simp: sealData_def Let_def)
  have k: "k < seq_limit" using assms(3) by simp
  note sealed = openData_sealed [OF assms(1,2) k sl]
  obtain window where od: "openData cr payload b = (Opened m sequence,
       b\<lparr>cc_recv_salt := Some (cc_send_salt a), cc_recv_highest := sequence, cc_recv_window := window\<rparr>)"
    using sealed(4) by blast
  have ch: "cc_pending_data a = []" "cc_read_buf a = []" "cc_recv_pending a = []" "cc_read_buf b = []"
    "cc_recv_pending b = []" "unat (cc_recv_next b) = Suc k"
    using assms(2) by (simp_all add: channel_def)
  define a2 where "a2 = a1\<lparr>cc_pending_data := [sequence]\<rparr>"
  have bw: "begin_write cr m a = (Inr (payload, sequence), a2)"
    using assms(4) sl ch(1) by (simp add: begin_write_def max_record a1 a2_def)
  obtain r where r: "writeRecord consentData payload = Inr r"
    using written_small [of payload consentData] sealed(2) assms(4) by auto
  have next_b: "sequence = cc_recv_next b" using sealed(1) ch(6) by (simp add: word_unat_eq_iff)
  define b1 where "b1 = b\<lparr>cc_recv_salt := Some (cc_send_salt a), cc_recv_highest := sequence,
     cc_recv_window := window, cc_recv_next := cc_recv_next b + 1\<rparr>"
  obtain ack where ack: "written consentDataAck (dataAckPayload cr b1 sequence (take 12 payload)) = [ack]"
    "writeRecord consentDataAck (dataAckPayload cr b1 sequence (take 12 payload)) = Inr ack"
    using written_small [OF ack_size [OF assms(1)]] by blast
  have same: "dataAckPayload cr (b1\<lparr>cc_read_buf := x\<rparr>) = dataAckPayload cr b1" for x
    by (simp add: dataAckPayload_def fun_eq_iff)
  have acc: "accept_data m sequence (b\<lparr>cc_recv_salt := Some (cc_send_salt a), cc_recv_highest := sequence,
      cc_recv_window := window\<rparr>) = (True, b1\<lparr>cc_read_buf := m\<rparr>)"
    by (simp add: accept_data_def next_b b1_def)
  have data: "read_data cr cap payload b = (Inr m, [ack], b1)"
  proof -
    have "b1\<lparr>cc_read_buf := []\<rparr> = b1" using ch(4) by (simp add: b1_def)
    with assms(4,5) show ?thesis by (simp add: read_data_def od acc same ack(1) copy_out_def)
  qed
  have readb: "consent_Read cr cap (Inr r) b = (Inr m, [ack], b1)"
    using ch(4,5) by (simp add: consent_Read_def take_ready_def readRecord_writeRecord [OF r] data)
  have keys: "cc_send_ack_key a2 = cc_recv_ack_key b1" "cc_session a2 = cc_session b1"
    using assms(2) by (simp_all add: channel_def a1 a2_def b1_def)
  define a3 where "a3 = a2\<lparr>cc_pending_data := [], cc_acked := sequence # cc_acked a2\<rparr>"
  have reada: "snd (snd (consent_Read cr cap (Inr ack) a2)) = a3"
    using ch(2,3) verifyDataAck_roundtrip [OF keys]
    by (simp add: consent_Read_def take_ready_def readRecord_writeRecord [OF ack(2)] a1 a2_def a3_def)
  have "exchange cr cap (a, b) m = (m, a3, b1)"
    by (simp add: exchange_def bw r readb reada)
  moreover have "channel (Suc k) (a3, b1)"
    using assms(2) sealed(1) next_b unat_Suc_u64 [of "cc_recv_next b"] ch(6) assms(3)
    by (simp add: channel_def a1 a2_def a3_def b1_def)
  moreover have "cc_acked a3 = (cc_send_seq a + 1) # cc_acked a" by (simp add: a1 a2_def a3_def seq)
  ultimately show ?thesis by blast
qed

lemma exchange_run:
  assumes "crypto_ok cr" "65009 \<le> cap"
  shows "channel k (a, b) \<Longrightarrow> k + length ms < seq_limit \<Longrightarrow> \<forall>m \<in> set ms. length m \<le> 65009 \<Longrightarrow>
    fst (run_outputs (exchange cr cap) (a, b) ms) = ms \<and>
    channel (k + length ms) (snd (run_outputs (exchange cr cap) (a, b) ms))"
proof (induction ms arbitrary: k a b)
  case (Cons m ms)
  obtain a' b' where "exchange cr cap (a, b) m = (m, a', b')" "channel (Suc k) (a', b')"
    using exchange_delivers [OF assms(1) Cons.prems(1) _ _ assms(2), of m] Cons.prems(2,3) by auto
  with Cons.IH [of "Suc k" a' b'] Cons.prems(2,3) show ?case by (simp add: case_prod_beta)
qed simp

section \<open>Records beyond the window\<close>

lemma replay_window_twice:
  assumes "fst (replay_window s hw)"
  shows "replay_window s (snd (replay_window s hw)) = (False, snd (replay_window s hw))"
proof -
  obtain h w where hw: "hw = (h, w)" by fastforce
  show ?thesis
  proof (cases "s > h")
    case True
    then show ?thesis by (simp add: hw replay_window_def Let_def bit_simps and_exp_eq_0_iff_not_bit [of _ 0, simplified])
  next
    case False
    with assms have "h - s < 64" by (auto simp: hw replay_window_def Let_def split: if_splits)
    then have "unat (h - s) < 64" by (simp add: word_less_nat_alt)
    with False assms show ?thesis
      by (auto simp: hw replay_window_def Let_def and_exp_eq_0_iff_not_bit bit_simps split: if_splits)
  qed
qed

lemma openData_OpenedD:
  assumes "openData cr payload c = (Opened plaintext sequence, c')"
  shows "\<not> length payload < 28"
    "cr_open cr (cc_recv_key c) (take 12 payload) (drop 12 payload) (cc_recv_aad c) = Some plaintext"
    "sequence = get64 (drop 4 (take 12 payload))"
    "fst (replay_window sequence (cc_recv_highest c, cc_recv_window c))"
    "(cc_recv_highest c', cc_recv_window c') = snd (replay_window sequence (cc_recv_highest c, cc_recv_window c))"
    "cc_recv_salt c' = Some (take 4 (take 12 payload))"
  using assms by (auto simp: openData_def Let_def split: if_splits option.splits prod.splits)

lemma openData_twice:
  assumes "openData cr payload c = (Opened plaintext sequence, c')"
  shows "openData cr payload c' = (Replayed sequence, c')"
proof -
  note opened = openData_OpenedD [OF assms]
  have window: "replay_window sequence (cc_recv_highest c', cc_recv_window c') = (False, cc_recv_highest c', cc_recv_window c')"
    unfolding opened(5) by (rule replay_window_twice [OF opened(4)])
  have "cr_open cr (cc_recv_key c') (take 12 payload) (drop 12 payload) (cc_recv_aad c') = Some plaintext"
    using opened(2) openData_frame(4,5) [OF assms] by simp
  with opened(1,6) window show ?thesis
    unfolding opened(3) by (simp add: openData_def)
qed

section \<open>Facts on acceptance and retries\<close>

text \<open>The sequences that a run of decisions accepted.\<close>

definition accepted :: "u64 list \<Rightarrow> bool list \<Rightarrow> u64 list" where
  "accepted ss decisions = map fst (filter snd (zip ss decisions))"

lemma accepted_simps [simp]:
  "accepted [] ds = []"
  "accepted (s # ss) (ok # ds) = (if ok then s # accepted ss ds else accepted ss ds)"
  by (simp_all add: accepted_def)

lemma spec_accepts_once:
  "\<forall>x \<in> seen. x \<le> h \<Longrightarrow> ds = fst (run_outputs (\<lambda>hs s. spec_window s hs) (h, seen) ss) \<Longrightarrow>
     distinct (accepted ss ds) \<and> (\<forall>s \<in> set (accepted ss ds). unat s \<notin> seen)"
proof (induction ss arbitrary: h seen ds)
  case Nil
  then show ?case by simp
next
  case (Cons s ss)
  obtain ok h' seen' where step: "spec_window s (h, seen) = (ok, h', seen')" using prod_cases3 by blast
  let ?rest = "fst (run_outputs (\<lambda>hs s. spec_window s hs) (h', seen') ss)"
  have ds: "ds = ok # ?rest" using Cons.prems(2) step by (simp add: case_prod_beta)
  have inv: "\<forall>x \<in> seen'. x \<le> h'" and seen': "seen' = (if ok then insert (unat s) seen else seen)"
    and new: "ok \<longrightarrow> unat s \<notin> seen"
    using step Cons.prems(1) by (auto simp: spec_window_def Let_def split: if_splits)
  from Cons.IH [OF inv refl] seen' new show ?case
    unfolding ds by (auto split: if_splits)
qed

lemma window_initial: "window_rel (0, 0) (0, {})"
  by (simp add: window_rel_def)

text \<open>The round in which a retry loop sees something else than its timer, if any.\<close>

definition first_event :: "(nat \<Rightarrow> attempt) \<Rightarrow> nat \<Rightarrow> nat option" where
  "first_event env from = find (\<lambda>k. env k \<noteq> AttemptTimeout) [from..<6]"

lemma writeReliableData_first:
  "attempt \<le> 6 \<Longrightarrow> writeReliableData env p s attempt c =
     (case first_event env attempt of
        None \<Rightarrow> (Inl AckTimeout, 6, forget_data s (consent_Close c))
      | Some k \<Rightarrow> ((case env k of AttemptAcked \<Rightarrow> Inr (length p) | AttemptClosed \<Rightarrow> Inl ConnClosed | _ \<Rightarrow> Inl ConnWriteFailed),
                   Suc k, forget_data s (if env k = AttemptFailed then consent_Close c else c)))"
proof (induction env p s attempt c rule: writeReliableData.induct)
  case (1 env p s attempt c)
  show ?case
  proof (cases "attempt \<le> 5")
    case True
    then have "[attempt..<6] = attempt # [Suc attempt..<6]" by (simp add: upt_conv_Cons)
    with True 1 show ?thesis
      by (subst writeReliableData.simps) (simp add: first_event_def split: attempt.splits)
  next
    case False
    with "1.prems" have "attempt = 6" by simp
    then show ?thesis by (subst writeReliableData.simps) (simp add: first_event_def)
  qed
qed

section \<open>Properties\<close>

text \<open>
  C5. Data is delivered in order and at most once under an arbitrary network: feed a fresh
  receiver any sequence of datagrams, lost, repeated, reordered or forged, with any read
  sizes. If the AEAD opens only what the peer sealed, the bytes that Read returns are, all
  together, a prefix of the peer's records in sending order.
\<close>

theorem consent_stream_in_order:
  assumes "newDirectionalConsentConn cr salt conn_nil key session sendLabel receiveLabel = Some c" "authentic cr P c"
  shows "\<exists>n. prefix (snd (foldl (stream_step cr) (c, []) inputs)) (concat (map P [1..<n]))"
proof -
  have "stream_inv cr P (c, [])"
    using assms by (auto simp: newDirectionalConsentConn_def Let_def stream_inv_def pending_ok_def
        split: if_splits option.splits)
  then have "stream_inv cr P (foldl (stream_step cr) (c, []) inputs)" by (rule stream.run_inv)
  then show ?thesis
    unfolding stream_inv_def by (auto simp: case_prod_beta Let_def prefix_def intro: sym)
qed

abbreviation demo_crypto :: crypto where
  "demo_crypto \<equiv> \<lparr>cr_sha256 = \<lambda>_. replicate 32 1, cr_hmac = \<lambda>_ _. replicate 32 2,
     cr_seal = \<lambda>_ _ p _. p @ replicate 16 0, cr_open = \<lambda>_ _ ct _. Some (take (length ct - 16) ct)\<rparr>"

text \<open>An AEAD that opens one record only: the peer sealed \<open>[7]\<close> as its first.\<close>

abbreviation demo_single :: crypto where
  "demo_single \<equiv> demo_crypto\<lparr>cr_open := \<lambda>_ n _ _. if get64 (drop 4 n) = 1 then Some [7] else None\<rparr>"

abbreviation demo_conn :: "crypto \<Rightarrow> bytes \<Rightarrow> string \<Rightarrow> string \<Rightarrow> consent_conn" where
  "demo_conn cr salt x y \<equiv> the (newDirectionalConsentConn cr (Some salt) False [9] ''s'' x y)"

lemma demo_conn_some:
  assumes "\<And>x. length (cr_sha256 cr x) = 32"
  shows "newDirectionalConsentConn cr (Some salt) False [9] ''s'' x y = Some (demo_conn cr salt x y)"
  using assms by (simp add: newDirectionalConsentConn_def deriveConsentKey_def aes_key_ok_def Let_def)

theorem consent_stream_in_order_witness:
  "\<exists>n. prefix (snd (foldl (stream_step demo_single) (demo_conn demo_single [1, 2, 3, 4] ''a'' ''b'', [])
     [(8, Inr (consentMagic @ [0] @ put32 29 @ [5, 6, 7, 8] @ put64 1 @ replicate 17 0)), (8, Inr [3])]))
     (concat (map (\<lambda>_. [7 :: byte]) [1..<n]))"
  by (rule consent_stream_in_order [OF demo_conn_some])
     (simp_all add: authentic_def seq_limit_def)

text \<open>
  C28. A reliable transfer completes over a working network: for two peers with mirrored
  labels, each message of at most 65009 bytes written in turn is returned by the other
  side's Read unchanged, its acknowledgement verifies at the sender, and no record stays
  pending, for fewer than 2^64 - 1 messages.
\<close>

theorem consent_transfer_complete:
  assumes "crypto_ok cr"
    and "newDirectionalConsentConn cr (Some saltA) False key session labelA labelB = Some a"
    and "newDirectionalConsentConn cr (Some saltB) False key session labelB labelA = Some b"
    and "length saltA = 4" "65009 \<le> cap" "length ms < 2 ^ 64 - 1" "\<forall>m \<in> set ms. length m \<le> 65009"
  shows "fst (run_outputs (exchange cr cap) (a, b) ms) = ms \<and>
    cc_pending_data (fst (snd (run_outputs (exchange cr cap) (a, b) ms))) = []"
proof -
  have "channel 0 (a, b)"
    using assms(2-4) by (auto simp: newDirectionalConsentConn_def Let_def channel_def split: if_splits)
  moreover have "length ms < seq_limit" using assms(6) by (simp add: seq_limit_def)
  ultimately show ?thesis
    using exchange_run [OF assms(1,5), of 0 a b ms] assms(7) by (auto simp: channel_def)
qed

theorem consent_transfer_complete_witness:
  "fst (run_outputs (exchange demo_crypto 70000) (demo_conn demo_crypto [1, 2, 3, 4] ''a'' ''b'',
     demo_conn demo_crypto [5, 6, 7, 8] ''b'' ''a'') [[1, 2], [3]]) = [[1, 2], [3]]"
proof -
  have sha: "length (cr_sha256 demo_crypto x) = 32" for x by simp
  have ok: "crypto_ok demo_crypto" by (simp add: crypto_ok_def)
  show ?thesis
    by (rule consent_transfer_complete [OF ok demo_conn_some [OF sha] demo_conn_some [OF sha], THEN conjunct1])
       simp_all
qed

text \<open>
  C31. The 64-bit sliding window is a set: over any stream of sequences it takes the same
  decisions as the specification that remembers every accepted sequence and rejects what
  was accepted before or is more than 63 below the highest; so no sequence is accepted
  twice.
\<close>

theorem replay_window_refines_set:
  "let decisions = fst (run_outputs (\<lambda>hw s. replay_window s hw) (0, 0) ss) in
   decisions = fst (run_outputs (\<lambda>hs s. spec_window s hs) (0, {}) ss) \<and> distinct (accepted ss decisions)"
proof -
  have eq: "fst (run_outputs (\<lambda>hw s. replay_window s hw) (0, 0) ss) = fst (run_outputs (\<lambda>hs s. spec_window s hs) (0, {}) ss)"
    using window.run_refines [OF window_initial] by blast
  with spec_accepts_once [of "{}" 0 _ ss] show ?thesis by (simp add: Let_def)
qed

text \<open>
  C39. A record 64 or more ahead of the next expected one is lost although it is
  acknowledged: the first copy is authenticated and marked as seen, but neither delivered
  nor kept nor acknowledged; when the sender repeats it, the second copy counts as a
  replay and is acknowledged, in a form that the sender accepts.
\<close>

theorem consent_beyond_window_acked:
  assumes "crypto_ok cr" "cc_read_buf b = []" "gm_get (cc_recv_pending b) (cc_recv_next b) = None"
    and "readRecord input = Inr (consentData, payload)" "openData cr payload b = (Opened plaintext sequence, b')"
    and "unat sequence \<ge> unat (cc_recv_next b) + 64"
    and "cc_send_ack_key a = cc_recv_ack_key b'" "cc_session a = cc_session b'"
  shows "consent_Read cr cap input b = (Inr [], [], b') \<and>
    (\<exists>ack ackPayload. consent_Read cr cap input b' = (Inr [], [ack], b') \<and>
       readRecord (Inr ack) = Inr (consentDataAck, ackPayload) \<and> verifyDataAck cr a ackPayload = Some sequence)"
proof -
  note frame = openData_frame [OF assms(5)]
  have far: "sequence \<noteq> cc_recv_next b'" "cc_recv_next b' < sequence \<Longrightarrow> \<not> sequence - cc_recv_next b' < 64"
    using assms(6) frame(1) by (auto simp: word_less_nat_alt unat_sub_if')
  then have acc: "accept_data plaintext sequence b' = (False, b')" by (simp add: accept_data_def)
  have ready: "take_ready b = b" "take_ready b' = b'" using assms(3) frame by (simp_all add: take_ready_def)
  have "b'\<lparr>cc_read_buf := []\<rparr> = b'" using assms(2) frame(3) by simp
  then have first: "consent_Read cr cap input b = (Inr [], [], b')"
    using assms(2,4,5) ready frame(3) acc by (simp add: consent_Read_def read_data_def copy_out_def)
  obtain ack where ack: "written consentDataAck (dataAckPayload cr b' sequence (take 12 payload)) = [ack]"
    "writeRecord consentDataAck (dataAckPayload cr b' sequence (take 12 payload)) = Inr ack"
    using written_small [OF ack_size [OF assms(1)]] by blast
  have "consent_Read cr cap input b' = (Inr [], [ack], b')"
    using assms(2,4) ready frame(3) ack(1)
    by (simp add: consent_Read_def read_data_def openData_twice [OF assms(5)])
  with first readRecord_writeRecord [OF ack(2)] verifyDataAck_roundtrip [OF assms(7,8)] show ?thesis by blast
qed

text \<open>Record 65 arrives first at a receiver that waits for record 1.\<close>

abbreviation demo_far :: bytes where
  "demo_far \<equiv> [1, 2, 3, 4] @ put64 65 @ [7] @ replicate 16 0"

theorem consent_beyond_window_acked_witness:
  "\<exists>b' ack. consent_Read demo_crypto 8 (writeRecord consentData demo_far) (demo_conn demo_crypto [5, 6, 7, 8] ''b'' ''a'') = (Inr [], [], b') \<and>
     consent_Read demo_crypto 8 (writeRecord consentData demo_far) b' = (Inr [], [ack], b')"
proof -
  let ?b = "demo_conn demo_crypto [5, 6, 7, 8] ''b'' ''a''" and ?a = "demo_conn demo_crypto [1, 2, 3, 4] ''a'' ''b''"
  let ?b' = "?b\<lparr>cc_recv_salt := Some [1, 2, 3, 4], cc_recv_highest := 65, cc_recv_window := 1\<rparr>"
  have conn: "newDirectionalConsentConn demo_crypto (Some salt) False [9] ''s'' x y = Some (demo_conn demo_crypto salt x y)" for salt x y
    by (rule demo_conn_some) simp
  have ok: "crypto_ok demo_crypto" by (simp add: crypto_ok_def)
  have b: "cc_read_buf ?b = []" "cc_recv_pending ?b = []" "cc_recv_next ?b = 1" "cc_recv_salt ?b = None"
    "cc_recv_highest ?b = 0" "cc_recv_window ?b = 0"
    using conn [of "[5, 6, 7, 8]" "''b''" "''a''"] by (auto simp: newDirectionalConsentConn_def Let_def split: if_splits)
  have keys: "cc_send_ack_key ?a = cc_recv_ack_key ?b'" "cc_session ?a = cc_session ?b'"
    using conn by (auto simp: newDirectionalConsentConn_def Let_def aes_key_ok_def deriveConsentKey_def)
  obtain r where r: "writeRecord consentData demo_far = Inr r" by (simp add: writeRecord_def max_record)
  have opened: "openData demo_crypto demo_far ?b = (Opened [7] 65, ?b')"
    using b by (simp add: openData_def replay_window_def Let_def)
  show ?thesis
    using consent_beyond_window_acked [OF ok b(1) _ readRecord_writeRecord [OF r] opened _ keys, of 8] b
    unfolding r by auto
qed

text \<open>
  A consent probe is confirmed by the peer: the request of a probe, read by a peer
  with the same control key and session, is answered with a response that removes the
  probe's nonce from the prober's pending set and confirms it.
\<close>

theorem consent_probe_confirmed:
  assumes "crypto_ok cr" "cc_key a = cc_key b" "cc_session a = cc_session b"
    and "cc_read_buf a = []" "cc_recv_pending a = []" "cc_read_buf b = []" "cc_recv_pending b = []"
    and "length random = 18" "begin_probe cr (Some random) a = (Inr (nonce, requests), a')"
  shows "\<exists>request response. requests = [request] \<and>
    consent_Read cr cap (Inr request) b = (Inr [], [response], b) \<and>
    consent_Read cr cap (Inr response) a' =
      (Inr [], [], a'\<lparr>cc_pending := removeAll nonce (cc_pending a'), cc_confirmed := nonce # cc_confirmed a'\<rparr>)"
proof -
  have nonce: "nonce = base64url random" and a': "a' = a\<lparr>cc_pending := List.insert nonce (cc_pending a)\<rparr>"
    and requests: "requests = written consentRequest (controlPayload cr a consentRequest nonce)"
    using assms(9) by (auto simp: begin_probe_def Let_def split: if_splits)
  have n: "nonce \<noteq> []" "CHR '':'' \<notin> set nonce" using assms(8) by (auto simp: nonce base64url_no_colon)
  have mac: "length (base64url (cr_hmac cr k m)) \<le> 64" for k m
    using length_base64url [of "cr_hmac cr k m"] assms(1) by (simp add: crypto_ok_def)
  have token: "length (base64url random) \<le> 36" using length_base64url [of random] assms(8) by simp
  have size: "length (controlPayload cr c kind nonce) \<le> 65037" for c kind
    by (simp add: controlPayload_def controlPayloadWithKey_def nonce del: bytes_of_append)
       (rule order_trans [OF add_mono [OF token mac]], simp)
  have same: "controlPayload cr a = controlPayload cr b" "controlPayload cr a' = controlPayload cr b"
    using assms(2,3) by (simp_all add: controlPayload_def fun_eq_iff a')
  obtain req where req: "written consentRequest (controlPayload cr b consentRequest nonce) = [req]"
    "writeRecord consentRequest (controlPayload cr b consentRequest nonce) = Inr req"
    using written_small [OF size] by blast
  obtain resp where resp: "written consentResponse (controlPayload cr b consentResponse nonce) = [resp]"
    "writeRecord consentResponse (controlPayload cr b consentResponse nonce) = Inr resp"
    using written_small [OF size] by blast
  have "consent_Read cr cap (Inr req) b = (Inr [], [resp], b)"
    using assms(6,7) verifyControl_roundtrip [OF n]
    by (simp add: consent_Read_def take_ready_def readRecord_writeRecord [OF req(2)] resp(1))
  moreover have "consent_Read cr cap (Inr resp) a' =
      (Inr [], [], a'\<lparr>cc_pending := removeAll nonce (cc_pending a'), cc_confirmed := nonce # cc_confirmed a'\<rparr>)"
  proof -
    have "cc_read_buf a' = []" "cc_recv_pending a' = []" "nonce \<in> set (cc_pending a')"
      using assms(4,5) by (simp_all add: a')
    then show ?thesis
      using verifyControl_roundtrip [OF n, of cr a' consentResponse]
      by (simp add: consent_Read_def take_ready_def readRecord_writeRecord [OF resp(2)] same)
  qed
  ultimately show ?thesis using requests req(1) same(1) by auto
qed

theorem consent_probe_confirmed_witness:
  "\<exists>nonce request response. fst (begin_probe demo_crypto (Some (replicate 18 3)) (demo_conn demo_crypto [1, 2, 3, 4] ''a'' ''b'')) = Inr (nonce, [request]) \<and>
     consent_Read demo_crypto 8 (Inr request) (demo_conn demo_crypto [5, 6, 7, 8] ''b'' ''a'') =
       (Inr [], [response], demo_conn demo_crypto [5, 6, 7, 8] ''b'' ''a'')"
proof -
  let ?b = "demo_conn demo_crypto [5, 6, 7, 8] ''b'' ''a''" and ?a = "demo_conn demo_crypto [1, 2, 3, 4] ''a'' ''b''"
  have conn: "newDirectionalConsentConn demo_crypto (Some salt) False [9] ''s'' x y = Some (demo_conn demo_crypto salt x y)" for salt x y
    by (rule demo_conn_some) simp
  have ok: "crypto_ok demo_crypto" by (simp add: crypto_ok_def)
  have bufs: "cc_read_buf (demo_conn demo_crypto salt x y) = []" "cc_recv_pending (demo_conn demo_crypto salt x y) = []"
    "cc_pending (demo_conn demo_crypto salt x y) = []" for salt x y
    using conn [of salt x y] by (auto simp: newDirectionalConsentConn_def Let_def split: if_splits)
  have keys: "cc_key ?a = cc_key ?b" "cc_session ?a = cc_session ?b"
    by (simp_all add: newDirectionalConsentConn_def Let_def aes_key_ok_def deriveConsentKey_def)
  obtain nonce requests a' where probe: "begin_probe demo_crypto (Some (replicate 18 3)) ?a = (Inr (nonce, requests), a')"
    using bufs(3) by (simp add: begin_probe_def Let_def)
  from consent_probe_confirmed [OF ok keys bufs(1,2) bufs(1,2) _ probe] probe show ?thesis by fastforce
qed

text \<open>
  A reliable Write transmits its record at most six times and its result is decided by
  the first round that is not a timeout: an acknowledgement makes it return the length, a
  closed connection or failing write is reported, and six silent rounds give an
  acknowledgement timeout; a failing write and the timeout close the connection, and the
  sequence never stays pending.
\<close>

theorem reliable_write_outcome:
  "writeReliableData env p s 0 c =
     (case find (\<lambda>k. env k \<noteq> AttemptTimeout) [0..<6] of
        None \<Rightarrow> (Inl AckTimeout, 6, forget_data s (consent_Close c))
      | Some k \<Rightarrow> ((case env k of AttemptAcked \<Rightarrow> Inr (length p) | AttemptClosed \<Rightarrow> Inl ConnClosed | _ \<Rightarrow> Inl ConnWriteFailed),
                   Suc k, forget_data s (if env k = AttemptFailed then consent_Close c else c)))"
  using writeReliableData_first [of 0] by (simp add: first_event_def)

end
