(* ===== verification/ICE.thy ===== *)
theory ICE
  imports Stun "HOL-Library.Product_Lexorder" "HOL-Library.Sublist" "HOL-Library.Multiset"
begin

text \<open>
  The ICE agent: candidate gathering, the checklist, connectivity checks and the relay
  fallback, and the consent lifecycle of a session (\<^verbatim>\<open>ice.go\<close>, \<^verbatim>\<open>ice_session.go\<close>
  and the pure helpers of \<^verbatim>\<open>p2p_ice.go\<close>). The injected collaborators
  (\<^verbatim>\<open>ConnectivityChecker\<close>, \<^verbatim>\<open>RelayProvider\<close>, \<^verbatim>\<open>ConsentProbe\<close>) and the
  operating system's interfaces are arguments; the clock advances while a collaborator runs.
\<close>

section \<open>Contexts\<close>

text \<open>A \<^verbatim>\<open>context.Context\<close>: its deadline and the instant at which it gets cancelled, if any.\<close>

record ctx =
  cx_deadline :: "time option"
  cx_cancel :: "time option"

definition WithTimeout :: "ctx \<Rightarrow> time \<Rightarrow> time \<Rightarrow> ctx" where
  "WithTimeout c now d =
     c\<lparr>cx_deadline := Some (case cx_deadline c of None \<Rightarrow> now + d | Some e \<Rightarrow> min e (now + d))\<rparr>"

definition ctx_err :: "ctx \<Rightarrow> time \<Rightarrow> bool" where
  "ctx_err c now \<longleftrightarrow> (case cx_deadline c of None \<Rightarrow> False | Some d \<Rightarrow> d \<le> now) \<or>
     (case cx_cancel c of None \<Rightarrow> False | Some t \<Rightarrow> t \<le> now)"

section \<open>Configuration\<close>

record ice_config =
  ic_stun :: string
  ic_gather_timeout :: time
  ic_check_timeout :: time
  ic_checklist_timeout :: time
  ic_probe :: bool
  ic_consent_interval :: time
  ic_consent_failures :: int
  ic_consent_key :: bytes
  ic_consent_session :: string
  ic_send_label :: string
  ic_receive_label :: string

definition NewICEAgent :: "ice_config \<Rightarrow> ice_config" where
  "NewICEAgent cfg = cfg
     \<lparr>ic_gather_timeout := (if ic_gather_timeout cfg \<le> 0 then 3 * second else ic_gather_timeout cfg),
      ic_check_timeout := (if ic_check_timeout cfg \<le> 0 then 3 * second else ic_check_timeout cfg),
      ic_checklist_timeout := (if ic_checklist_timeout cfg \<le> 0 then 12 * second else ic_checklist_timeout cfg),
      ic_consent_interval := (if ic_consent_interval cfg \<le> 0 then 15 * second else ic_consent_interval cfg),
      ic_consent_failures := (if ic_consent_failures cfg \<le> 0 then 3 else ic_consent_failures cfg),
      ic_probe := (ic_probe cfg \<or> ic_consent_key cfg \<noteq> [] \<and> ic_consent_session cfg \<noteq> [])\<rparr>"

section \<open>Gathering\<close>

text \<open>
  The interfaces of the host: for each address of each interface what
  \<^verbatim>\<open>net.ParseCIDR\<close> makes of it; the outer \<open>None\<close> is an error of \<^verbatim>\<open>net.Interfaces\<close>.
\<close>

definition host_candidate :: "string \<Rightarrow> candidate" where
  "host_candidate host = \<lparr>cd_id = ''host-'' @ host, cd_type = CandidateHost, cd_addr = host, cd_priority = 126\<rparr>"

definition GatherCandidates :: "ice_config \<Rightarrow> string option list list option \<Rightarrow> stun_env \<Rightarrow> candidate list option" where
  "GatherCandidates cfg interfaces env =
     (case interfaces of None \<Rightarrow> None
      | Some ifs \<Rightarrow>
          let out = concat (map (\<lambda>addrs. map host_candidate (List.map_filter id addrs)) ifs);
              out = (if out = [] then [\<lparr>cd_id = ''host-loopback'', cd_type = CandidateHost,
                                        cd_addr = ''127.0.0.1'', cd_priority = 126\<rparr>] else out)
          in Some (if ic_stun cfg \<noteq> []
                   then case gatherSrflx env of Inr c \<Rightarrow> out @ [c] | Inl _ \<Rightarrow> out
                   else out))"

text \<open>The first pair of one type, in the order of the nested loops.\<close>

definition pairs_where :: "(candidate \<Rightarrow> candidate \<Rightarrow> bool) \<Rightarrow> candidate list \<Rightarrow> candidate list \<Rightarrow> (candidate \<times> candidate) list" where
  "pairs_where p ls rs = filter (\<lambda>(l, r). p l r) (List.product ls rs)"

definition ice_Select :: "candidate list \<Rightarrow> candidate list \<Rightarrow> (candidate \<times> candidate) option" where
  "ice_Select ls rs =
     (case concat (map (\<lambda>t. pairs_where (\<lambda>l r. cd_type l = t \<and> cd_type r = t) ls rs)
                       [CandidateRelay, CandidateSrflx, CandidateHost]) of
        lr # _ \<Rightarrow> Some lr
      | [] \<Rightarrow> (case pairs_where (\<lambda>l r. cd_type l = CandidateRelay \<or> cd_type r = CandidateRelay) ls rs of
                 lr # _ \<Rightarrow> Some lr
               | [] \<Rightarrow> None))"

section \<open>Checklist\<close>

datatype pair_state = PairWaiting | PairInProgress | PairSucceeded | PairFailed | PairNominated

record candidate_pair =
  cp_local :: candidate
  cp_remote :: candidate
  cp_priority :: u64
  cp_state :: pair_state

definition candidatePriority :: "candidate \<Rightarrow> u32" where
  "candidatePriority c =
     (if cd_priority c \<noteq> 0 then cd_priority c
      else if cd_type c = CandidateHost then 126
      else if cd_type c = CandidateSrflx then 100
      else if cd_type c = CandidateRelay then 1
      else 0)"

definition pairPriority :: "candidate \<Rightarrow> candidate \<Rightarrow> u64" where
  "pairPriority l r =
     (let g = ucast (candidatePriority l); d = ucast (candidatePriority r);
          (mn, mx) = (if g > d then (d, g) else (g, d));
          tie = (if g > d then 1 else 0)
      in push_bit 32 mn + push_bit 1 mx + tie)"

definition usable :: "candidate \<Rightarrow> bool" where
  "usable c \<longleftrightarrow> \<not> (cd_addr c = [] \<or> cd_type c = CandidateRelay)"

definition waiting_pair :: "candidate \<Rightarrow> candidate \<Rightarrow> candidate_pair" where
  "waiting_pair l r = \<lparr>cp_local = l, cp_remote = r, cp_priority = pairPriority l r, cp_state = PairWaiting\<rparr>"

definition pair_less :: "candidate_pair \<Rightarrow> candidate_pair \<Rightarrow> bool" where
  "pair_less p q \<longleftrightarrow>
     (if cp_priority p \<noteq> cp_priority q then cp_priority p > cp_priority q
      else if cd_id (cp_local p) \<noteq> cd_id (cp_local q) then cd_id (cp_local p) < cd_id (cp_local q)
      else cd_id (cp_remote p) < cd_id (cp_remote q))"

text \<open>\<^verbatim>\<open>sort.SliceStable\<close> with a comparison function.\<close>

fun stable_insert :: "('a \<Rightarrow> 'a \<Rightarrow> bool) \<Rightarrow> 'a \<Rightarrow> 'a list \<Rightarrow> 'a list" where
  "stable_insert lt x [] = [x]"
| "stable_insert lt x (y # ys) = (if lt y x then y # stable_insert lt x ys else x # y # ys)"

definition SliceStable :: "('a \<Rightarrow> 'a \<Rightarrow> bool) \<Rightarrow> 'a list \<Rightarrow> 'a list" where
  "SliceStable lt xs = foldr (stable_insert lt) xs []"

definition Checklist :: "candidate list \<Rightarrow> candidate list \<Rightarrow> candidate_pair list" where
  "Checklist ls rs =
     SliceStable pair_less
       (concat (map (\<lambda>l. if usable l then map (waiting_pair l) (filter usable rs) else []) ls))"

section \<open>Sessions\<close>

datatype session_error = NoError | ContextDone | TickSourceClosed | ConsentExpired nat

record 'c ice_session =
  ss_pair :: candidate_pair
  ss_conn :: 'c
  ss_via_relay :: bool
  ss_err :: session_error
  ss_cancelled :: bool
  ss_conn_closed :: bool
  ss_done :: bool

definition newSession :: "candidate_pair \<Rightarrow> 'c \<Rightarrow> bool \<Rightarrow> 'c ice_session" where
  "newSession pair conn viaRelay =
     \<lparr>ss_pair = pair, ss_conn = conn, ss_via_relay = viaRelay, ss_err = NoError, ss_cancelled = False,
      ss_conn_closed = False, ss_done = False\<rparr>"

text \<open>\<^verbatim>\<open>once.Do\<close>: after the first call the body never runs again; \<open>ss_done\<close> records that.\<close>

definition terminate :: "session_error \<Rightarrow> 'c ice_session \<Rightarrow> 'c ice_session" where
  "terminate e s = (if ss_done s then s
     else s\<lparr>ss_err := e, ss_cancelled := True, ss_conn_closed := True, ss_done := True\<rparr>)"

definition session_Close :: "'c ice_session \<Rightarrow> 'c ice_session" where
  "session_Close s = terminate NoError s"

datatype monitor_event = MonitorDone | MonitorTick bool | MonitorTicksClosed

text \<open>
  The loop of \<^verbatim>\<open>monitorConsent\<close> over what its \<^verbatim>\<open>select\<close> receives: the context
  ending, a tick followed by a probe with the given outcome, or the tick channel closing.
\<close>

fun monitor_loop :: "int \<Rightarrow> nat \<Rightarrow> 'c ice_session \<Rightarrow> monitor_event list \<Rightarrow> 'c ice_session" where
  "monitor_loop limit failures s [] = s"
| "monitor_loop limit failures s (MonitorDone # es) = terminate ContextDone s"
| "monitor_loop limit failures s (MonitorTicksClosed # es) = terminate TickSourceClosed s"
| "monitor_loop limit failures s (MonitorTick True # es) = monitor_loop limit 0 s es"
| "monitor_loop limit failures s (MonitorTick False # es) =
     (if int (Suc failures) \<ge> limit then terminate (ConsentExpired (Suc failures)) s
      else monitor_loop limit (Suc failures) s es)"

definition monitorConsent :: "ice_config \<Rightarrow> 'c ice_session \<Rightarrow> monitor_event list \<Rightarrow> 'c ice_session" where
  "monitorConsent cfg s es =
     (if \<not> ic_probe cfg then (if MonitorDone \<in> set es then terminate ContextDone s else s)
      else monitor_loop (ic_consent_failures cfg) 0 s es)"

section \<open>Connect\<close>

type_synonym 'c checker = "time \<Rightarrow> ctx \<Rightarrow> candidate \<Rightarrow> candidate \<Rightarrow> time \<times> bool \<times> 'c option"
type_synonym 'c relay_provider = "time \<Rightarrow> string \<Rightarrow> time \<times> bool \<times> 'c option \<times> candidate"

datatype connect_failure =
    ContextRequired | PeerRequired | NoUsablePairs | BudgetExhausted | CheckFailed string string
  | NoChecker | RelayNil | RelayInvalid | RelayFailed

text \<open>
  The timeout of the next check: the configured one, or the fair share of what is left of
  the direct phase. Go divides durations towards zero, which differs from \<^verbatim>\<open>div\<close>
  only below zero, where the share is not used.
\<close>

definition check_timeout :: "ice_config \<Rightarrow> ctx \<Rightarrow> time \<Rightarrow> nat \<Rightarrow> time" where
  "check_timeout cfg dctx now remaining =
     (case cx_deadline dctx of
        None \<Rightarrow> ic_check_timeout cfg
      | Some d \<Rightarrow> let fairShare = (d - now) div int remaining in
          if fairShare > 0 \<and> fairShare < ic_check_timeout cfg then fairShare else ic_check_timeout cfg)"

fun check_loop ::
  "'c checker \<Rightarrow> ice_config \<Rightarrow> ctx \<Rightarrow> time \<Rightarrow> candidate_pair list \<Rightarrow> connect_failure list \<Rightarrow>
   time \<times> connect_failure list \<times> (candidate_pair \<times> 'c) option" where
  "check_loop check cfg dctx now [] failures = (now, failures, None)"
| "check_loop check cfg dctx now (pair # rest) failures =
     (if ctx_err dctx now then (now, failures @ [BudgetExhausted], None)
      else
        let timeout = check_timeout cfg dctx now (length (pair # rest));
            (t, err, conn) = check now (WithTimeout dctx now timeout) (cp_local pair) (cp_remote pair)
        in case (err, conn) of
             (False, Some c) \<Rightarrow> (t, failures, Some (pair\<lparr>cp_state := PairNominated\<rparr>, c))
           | _ \<Rightarrow> check_loop check cfg dctx t rest
                    (failures @ [CheckFailed (cd_id (cp_local pair)) (cd_id (cp_remote pair))]))"

definition direct_phase ::
  "'c checker option \<Rightarrow> ice_config \<Rightarrow> ctx \<Rightarrow> time \<Rightarrow> candidate list \<Rightarrow> candidate list \<Rightarrow>
   time \<times> connect_failure list \<times> (candidate_pair \<times> 'c) option" where
  "direct_phase checker cfg c now ls rs =
     (case checker of
        None \<Rightarrow> (now, [NoChecker], None)
      | Some check \<Rightarrow>
          let checklist = Checklist ls rs in
          check_loop check cfg (WithTimeout c now (ic_checklist_timeout cfg)) now checklist
            (if checklist = [] then [NoUsablePairs] else []))"

text \<open>\<^verbatim>\<open>Candidate{}\<close>, the zero value the relay pair gets when the peer sent no candidate.\<close>

definition zero_candidate :: candidate where
  "zero_candidate = \<lparr>cd_id = [], cd_type = [], cd_addr = [], cd_priority = 0\<rparr>"

definition relay_phase ::
  "'c relay_provider option \<Rightarrow> time \<Rightarrow> string \<Rightarrow> candidate list \<Rightarrow> connect_failure list \<Rightarrow>
   connect_failure list + 'c ice_session" where
  "relay_phase relay now peer rs failures =
     (case relay of
        None \<Rightarrow> Inl failures
      | Some allocate \<Rightarrow>
          (case allocate now peer of
             (_, err, conn, rc) \<Rightarrow>
               if err then Inl (failures @ [RelayFailed])
               else case conn of
                 None \<Rightarrow> Inl (failures @ [RelayNil])
               | Some c \<Rightarrow>
                   if cd_type rc \<noteq> CandidateRelay \<or> cd_addr rc = [] then Inl (failures @ [RelayInvalid])
                   else let target = (if rs \<noteq> [] then rs ! 0 else zero_candidate)
                        in Inr (newSession \<lparr>cp_local = rc, cp_remote = target,
                                  cp_priority = pairPriority rc target, cp_state = PairNominated\<rparr> c True)))"

definition ice_Connect ::
  "'c checker option \<Rightarrow> 'c relay_provider option \<Rightarrow> ice_config \<Rightarrow> ctx option \<Rightarrow> time \<Rightarrow> string \<Rightarrow>
   candidate list \<Rightarrow> candidate list \<Rightarrow> connect_failure list + 'c ice_session" where
  "ice_Connect checker relay cfg cx now peer ls rs =
     (case cx of None \<Rightarrow> Inl [ContextRequired]
      | Some c \<Rightarrow>
          if peer = [] then Inl [PeerRequired]
          else case direct_phase checker cfg c now ls rs of
            (_, _, Some (pair, conn)) \<Rightarrow> Inr (newSession pair conn False)
          | (t, failures, None) \<Rightarrow> relay_phase relay t peer rs failures)"

section \<open>Helpers of the P2P manager\<close>

fun onePreparedChecklistCandidate :: "candidate list \<Rightarrow> candidate list" where
  "onePreparedChecklistCandidate [] = []"
| "onePreparedChecklistCandidate (c # cs) =
     (if cd_type c \<noteq> CandidateRelay then [c] else onePreparedChecklistCandidate cs)"

definition peerCandidates :: "peer_info \<Rightarrow> candidate list" where
  "peerCandidates p =
     (if pi_public p \<noteq> []
      then [\<lparr>cd_id = ''peer-srflx-'' @ pi_peer p, cd_type = CandidateSrflx, cd_addr = pi_public p, cd_priority = 100\<rparr>]
      else []) @
     (if pi_local p \<noteq> [] \<and> pi_local p \<noteq> pi_public p
      then [\<lparr>cd_id = ''peer-host-'' @ pi_peer p, cd_type = CandidateHost, cd_addr = pi_local p, cd_priority = 126\<rparr>]
      else [])"

text \<open>
  Key and session of the consent layer. \<open>sha256\<close> is an argument; \<^verbatim>\<open>sort.Strings\<close> of
  the two endpoint strings is HOL's sort for the lexicographic order.
\<close>

definition endpoint_material :: "string \<Rightarrow> string \<Rightarrow> string \<Rightarrow> string" where
  "endpoint_material peer session token = join_with (char_of (0 :: nat)) [peer, session, token]"

definition consentMaterial ::
  "(bytes \<Rightarrow> bytes) \<Rightarrow> string \<Rightarrow> string \<Rightarrow> string \<Rightarrow> peer_info option \<Rightarrow> string \<Rightarrow> bytes \<times> string" where
  "consentMaterial sha256 localID authToken sessionID peer negotiationID =
     (case peer of None \<Rightarrow> ([], [])
      | Some p \<Rightarrow>
          if localID = [] \<or> authToken = [] \<or> sessionID = [] \<or> pi_peer p = [] \<or> pi_token p = [] \<or> pi_session p = []
          then ([], [])
          else
            let endpoints = sort [endpoint_material localID sessionID authToken,
                                  endpoint_material (pi_peer p) (pi_session p) (pi_token p)];
                sum = sha256 (bytes_of (negotiationID @ char_of (2 :: nat) # join_with (char_of (1 :: nat)) endpoints))
            in (sum, base64url (take 18 sum)))"


section \<open>Facts on the checklist\<close>

text \<open>The comparison function of the sort is the order of a key, so the sort is HOL's stable one.\<close>

definition pair_key :: "candidate_pair \<Rightarrow> int \<times> string \<times> string" where
  "pair_key p = (- uint (cp_priority p), cd_id (cp_local p), cd_id (cp_remote p))"

lemma pair_less_key: "pair_less p q \<longleftrightarrow> pair_key p < pair_key q"
  by (auto simp: pair_less_def pair_key_def word_less_def word_uint_eq_iff)

lemma stable_insert_insort:
  "(\<And>x y. lt x y \<longleftrightarrow> f x < (f y :: 'k :: linorder)) \<Longrightarrow> stable_insert lt x xs = insort_key f x xs"
  by (induction xs) auto

lemma SliceStable_sort_key:
  assumes "\<And>x y. lt x y \<longleftrightarrow> f x < (f y :: 'k :: linorder)"
  shows "SliceStable lt xs = sort_key f xs"
  unfolding SliceStable_def sort_key_def
  by (induction xs) (simp_all add: stable_insert_insort [OF assms])

definition direct_pairs :: "candidate list \<Rightarrow> candidate list \<Rightarrow> candidate_pair list" where
  "direct_pairs ls rs = map (\<lambda>(l, r). waiting_pair l r) (List.product (filter usable ls) (filter usable rs))"

lemma checklist_sort: "Checklist ls rs = sort_key pair_key (direct_pairs ls rs)"
proof -
  have "concat (map (\<lambda>l. if usable l then map (waiting_pair l) (filter usable rs) else []) ls) = direct_pairs ls rs"
    by (induction ls) (simp_all add: direct_pairs_def)
  then show ?thesis unfolding Checklist_def by (simp add: SliceStable_sort_key [OF pair_less_key])
qed

lemma checklist_usable: "p \<in> set (Checklist ls rs) \<Longrightarrow>
  cp_local p \<in> set ls \<and> cp_remote p \<in> set rs \<and> usable (cp_local p) \<and> usable (cp_remote p)"
  by (auto simp: checklist_sort direct_pairs_def waiting_pair_def)

section \<open>Facts on the direct phase\<close>

text \<open>A checker that honours its context: it returns by the deadline it was given.\<close>

definition honours_deadline :: "'c checker \<Rightarrow> bool" where
  "honours_deadline check \<longleftrightarrow>
     (\<forall>now cx l r d. cx_deadline cx = Some d \<longrightarrow> fst (check now cx l r) \<le> max now d)"

lemma with_timeout_deadline:
  "cx_deadline (WithTimeout c now d) = Some (case cx_deadline c of None \<Rightarrow> now + d | Some e \<Rightarrow> min e (now + d))"
  by (simp add: WithTimeout_def)

lemma check_loop_time:
  assumes "honours_deadline check" "cx_deadline dctx = Some d"
  shows "fst (check_loop check cfg dctx now pairs fs) \<le> max now d"
proof (induction pairs arbitrary: now fs)
  case (Cons pair rest)
  let ?cx = "WithTimeout dctx now (check_timeout cfg dctx now (length (pair # rest)))"
  obtain t err conn where r: "check now ?cx (cp_local pair) (cp_remote pair) = (t, err, conn)"
    using prod_cases3 by blast
  have "\<exists>e \<le> d. cx_deadline ?cx = Some e" by (simp add: with_timeout_deadline assms(2))
  then have t: "t \<le> max now d"
    using assms(1) r unfolding honours_deadline_def by (metis dual_order.trans fst_conv max.mono order_refl)
  have "fst (check_loop check cfg dctx t rest fs') \<le> max now d" for fs'
    using Cons.IH [of t fs'] t by simp
  with r t show ?case by (auto simp: Let_def split: option.splits bool.splits)
qed simp

lemma fair_share_left:
  fixes rem k :: int
  assumes "0 < k" "k \<le> rem"
  shows "0 < rem div k" "k - 1 \<le> rem - rem div k"
proof -
  define q where "q = rem div k"
  have q: "1 \<le> q" using assms pos_imp_zdiv_pos_iff [of k rem] by (simp add: q_def)
  then show "0 < rem div k" by (simp add: q_def)
  have "q * k \<le> rem" using div_mult_mod_eq [of rem k] pos_mod_sign [OF assms(1), of rem] unfolding q_def by linarith
  moreover have "k - 1 \<le> q * (k - 1)" using q assms(1) mult_right_mono [of 1 q "k - 1"] by simp
  ultimately show "k - 1 \<le> rem - rem div k" unfolding q_def [symmetric] by (simp add: algebra_simps)
qed

definition check_failure :: "candidate_pair \<Rightarrow> connect_failure" where
  "check_failure p = CheckFailed (cd_id (cp_local p)) (cd_id (cp_remote p))"

text \<open>
  One nanosecond per remaining pair is enough budget for the fair shares to leave as much
  to the pairs after it, so the loop reaches every pair.
\<close>

lemma check_loop_fair:
  assumes "honours_deadline check" "cx_deadline dctx = Some d" "cx_cancel dctx = None"
    and "int (length pairs) \<le> d - now"
  shows "\<exists>t. check_loop check cfg dctx now pairs fs = (t, fs @ map check_failure pairs, None) \<or>
    (\<exists>before p after c. pairs = before @ p # after \<and>
       check_loop check cfg dctx now pairs fs =
         (t, fs @ map check_failure before, Some (p\<lparr>cp_state := PairNominated\<rparr>, c)))"
  using assms(4)
proof (induction pairs arbitrary: now fs)
  case (Cons pair rest)
  let ?k = "int (length (pair # rest))"
  let ?timeout = "check_timeout cfg dctx now (length (pair # rest))"
  let ?cx = "WithTimeout dctx now ?timeout"
  obtain t err conn where r: "check now ?cx (cp_local pair) (cp_remote pair) = (t, err, conn)"
    using prod_cases3 by blast
  note share = fair_share_left [of ?k "d - now", OF _ Cons.prems]
  have timeout: "?timeout \<le> (d - now) div ?k"
    using share(1) by (simp add: check_timeout_def assms(2) Let_def)
  have "cx_deadline ?cx = Some (min d (now + ?timeout))" by (simp add: with_timeout_deadline assms(2))
  then have "t \<le> max now (min d (now + ?timeout))"
    using assms(1) r unfolding honours_deadline_def by (metis fst_conv)
  then have "t \<le> now + (d - now) div ?k" using timeout share(1) by simp
  then have left: "int (length rest) \<le> d - t" using share(2) by simp
  have live: "\<not> ctx_err dctx now" using Cons.prems by (simp add: ctx_err_def assms(2,3))
  show ?case
  proof (cases "\<exists>c. (err, conn) = (False, Some c)")
    case True
    with r live have "check_loop check cfg dctx now (pair # rest) fs =
        (t, fs @ map check_failure [], Some (pair\<lparr>cp_state := PairNominated\<rparr>, the conn))"
      by (auto simp: Let_def)
    then show ?thesis by (metis append_Nil)
  next
    case False
    with r live have step: "check_loop check cfg dctx now (pair # rest) fs =
        check_loop check cfg dctx t rest (fs @ [check_failure pair])"
      by (auto simp: Let_def check_failure_def split: bool.splits option.splits)
    from Cons.IH [OF left, of "fs @ [check_failure pair]"] show ?thesis
    proof (elim exE disjE conjE)
      fix t'
      assume "check_loop check cfg dctx t rest (fs @ [check_failure pair]) =
        (t', (fs @ [check_failure pair]) @ map check_failure rest, None)"
      with step show ?thesis by auto
    next
      fix t' before p after c
      assume "rest = before @ p # after" "check_loop check cfg dctx t rest (fs @ [check_failure pair]) =
        (t', (fs @ [check_failure pair]) @ map check_failure before, Some (p\<lparr>cp_state := PairNominated\<rparr>, c))"
      with step have "pair # rest = (pair # before) @ p # after \<and> check_loop check cfg dctx now (pair # rest) fs =
        (t', fs @ map check_failure (pair # before), Some (p\<lparr>cp_state := PairNominated\<rparr>, c))"
        by simp
      then show ?thesis by blast
    qed
  qed
qed simp

lemma check_loop_nominates:
  "check_loop check cfg dctx now pairs fs = (t, fs', Some (p, c)) \<Longrightarrow>
     \<exists>p0 t0 cx. p0 \<in> set pairs \<and> p = p0\<lparr>cp_state := PairNominated\<rparr> \<and>
       check t0 cx (cp_local p0) (cp_remote p0) = (t, False, Some c)"
proof (induction pairs arbitrary: now fs)
  case (Cons pair rest)
  let ?cx = "WithTimeout dctx now (check_timeout cfg dctx now (length (pair # rest)))"
  obtain t' err conn where r: "check now ?cx (cp_local pair) (cp_remote pair) = (t', err, conn)"
    using prod_cases3 by blast
  show ?case
  proof (cases "\<exists>c. (err, conn) = (False, Some c)")
    case True
    with Cons.prems r show ?thesis by (auto simp: Let_def split: if_splits)
  next
    case False
    with Cons.prems r have "check_loop check cfg dctx t' rest (fs @ [check_failure pair]) = (t, fs', Some (p, c))"
      by (auto simp: Let_def check_failure_def split: if_splits bool.splits option.splits)
    from Cons.IH [OF this] show ?thesis by auto
  qed
qed simp

section \<open>Facts on consent\<close>

lemma prefix_replicate_False:
  "f < n \<Longrightarrow> \<not> prefix (replicate n False) (replicate f False @ True # oks)"
proof
  assume "f < n" "prefix (replicate n False) (replicate f False @ True # oks)"
  then obtain zs where "replicate f False @ True # oks = replicate n False @ zs" by (auto elim: prefixE)
  then have "(replicate f False @ True # oks) ! f = (replicate n False @ zs) ! f" by simp
  with \<open>f < n\<close> show False by (simp add: nth_append)
qed

lemma sublist_after_success:
  "f < n \<Longrightarrow> sublist (replicate n False) (replicate f False @ True # oks) = sublist (replicate n False) oks"
proof (induction f)
  case 0
  then show ?case using prefix_replicate_False [of 0 n oks] by (simp add: sublist_Cons_right)
next
  case (Suc f)
  then show ?case using prefix_replicate_False [of "Suc f" n oks] by (simp add: sublist_Cons_right)
qed

lemma terminate_done [simp]: "ss_done (terminate e s)"
  by (simp add: terminate_def)

lemma monitor_loop_done:
  "\<not> ss_done s \<Longrightarrow> f < n \<Longrightarrow>
   ss_done (monitor_loop (int n) f s (map MonitorTick oks)) \<longleftrightarrow> sublist (replicate n False) (replicate f False @ oks)"
proof (induction oks arbitrary: f)
  case Nil
  then have "\<not> sublist (replicate n False) (replicate f False)" by (auto dest: sublist_length_le)
  with Nil show ?case by simp
next
  case (Cons ok oks)
  show ?case
  proof (cases ok)
    case True
    with Cons.IH [of 0] Cons.prems sublist_after_success [OF Cons.prems(2)] show ?thesis by simp
  next
    case False
    show ?thesis
    proof (cases "Suc f < n")
      case True
      with Cons.IH [of "Suc f"] Cons.prems False show ?thesis by (simp add: replicate_app_Cons_same)
    next
      case full: False
      with Cons.prems have "Suc f = n" by simp
      then have "sublist (replicate n False) (replicate f False @ False # oks)"
        by (auto simp: replicate_app_Cons_same sublist_Cons_right)
      with full False show ?thesis by simp
    qed
  qed
qed


section \<open>Properties\<close>

text \<open>
  C34. The checklist holds exactly the direct pairs (each usable local with each usable
  remote candidate, no relay and no empty address), highest pair priority first, ties by
  local and then remote candidate ID, and pairs equal in all three keep the order in
  which they were formed.
\<close>

theorem checklist_correct:
  "mset (Checklist ls rs) = mset (direct_pairs ls rs) \<and> sorted (map pair_key (Checklist ls rs)) \<and>
   filter (\<lambda>p. pair_key p = k) (Checklist ls rs) = filter (\<lambda>p. pair_key p = k) (direct_pairs ls rs)"
  by (simp add: checklist_sort sort_key_stable)

lemma unat_ucast_64: "unat (ucast (x :: u32) :: u64) = unat x"
proof -
  have "unat x < 2 ^ 64" using unat_less_u32 [of x] by (simp del: unat_less_u32)
  then show ?thesis by (simp add: unsigned_ucast_eq take_bit_nat_eq_self)
qed

text \<open>
  Pair priorities follow RFC 8445: as a number, the priority is
  2^32 times the smaller plus twice the larger candidate priority plus the tie bit, with
  one exception: when both priorities have the largest 32-bit value the 64-bit sum wraps
  around to 2^32 - 2.
\<close>

theorem pair_priority_exact:
  "let g = unat (candidatePriority l); d = unat (candidatePriority r) in
   unat (pairPriority l r) =
     (if g = 2 ^ 32 - 1 \<and> d = 2 ^ 32 - 1 then 2 ^ 32 - 2
      else 2 ^ 32 * min g d + 2 * max g d + (if g > d then 1 else 0))"
proof -
  define g d where gd: "g = candidatePriority l" "d = candidatePriority r"
  have less: "(ucast d :: u64) < ucast g \<longleftrightarrow> unat d < unat g"
    by (simp add: word_less_nat_alt unat_ucast_64)
  define mn mx where m: "mn = min (unat g) (unat d)" "mx = max (unat g) (unat d)"
  define tie :: nat where tie: "tie = (if unat g > unat d then 1 else 0)"
  have bounds: "mn < 2 ^ 32" "mx < 2 ^ 32" "mn \<le> mx" "tie \<le> 1" "mn = mx \<Longrightarrow> tie = 0"
    using unat_less_u32 [of g] unat_less_u32 [of d] by (auto simp: m tie simp del: unat_less_u32)
  have "pairPriority l r = push_bit 32 (word_of_nat mn) + push_bit 1 (word_of_nat mx) + word_of_nat tie"
  proof (cases "unat d < unat g")
    case True
    then have "mn = unat d" "mx = unat g" "tie = 1" by (simp_all add: m tie)
    with True show ?thesis by (simp add: pairPriority_def gd [symmetric] less Let_def)
  next
    case False
    then have "mn = unat g" "mx = unat d" "tie = 0" by (simp_all add: m tie)
    with False show ?thesis by (simp add: pairPriority_def gd [symmetric] less Let_def)
  qed
  then have "pairPriority l r = word_of_nat (2 ^ 32 * mn + 2 * mx + tie)"
    by (simp add: push_bit_eq_mult)
  then have "unat (pairPriority l r) = (2 ^ 32 * mn + 2 * mx + tie) mod 2 ^ 64"
    by (simp only: unat_of_nat) simp
  moreover have "2 ^ 32 * mn + 2 * mx + tie < 2 ^ 64" if "mn \<noteq> 2 ^ 32 - 1"
    using that bounds by simp
  moreover have top: "mn = 2 ^ 32 - 1 \<Longrightarrow> mx = 2 ^ 32 - 1 \<and> tie = 0" using bounds by auto
  moreover have "unat g = 2 ^ 32 - 1 \<and> unat d = 2 ^ 32 - 1 \<longleftrightarrow> mn = 2 ^ 32 - 1"
    using top by (auto simp: m)
  ultimately have "unat (pairPriority l r) =
      (if unat g = 2 ^ 32 - 1 \<and> unat d = 2 ^ 32 - 1 then 2 ^ 32 - 2 else 2 ^ 32 * mn + 2 * mx + tie)"
    by (cases "mn = 2 ^ 32 - 1") auto
  then show ?thesis unfolding gd m tie Let_def by simp
qed

text \<open>
  C35. The time budget of the direct phase is shared fairly: with at least one nanosecond
  of ChecklistTimeout per pair, no earlier end of the caller's context and a checker that
  returns by the deadline it is given, no pair is skipped. Either every pair of the
  checklist was checked and failed, in checklist order, or the phase nominated a pair
  after exactly the pairs before it failed.
\<close>

theorem checklist_every_pair_checked:
  assumes "honours_deadline check" "cx_cancel c = None" "cx_deadline c = None"
    and "int (length (Checklist ls rs)) \<le> ic_checklist_timeout cfg" "Checklist ls rs \<noteq> []"
  shows "case direct_phase (Some check) cfg c now ls rs of
      (_, failures, None) \<Rightarrow> failures = map check_failure (Checklist ls rs)
    | (_, failures, Some (p, conn)) \<Rightarrow> (\<exists>before p0 after. Checklist ls rs = before @ p0 # after \<and>
         p = p0\<lparr>cp_state := PairNominated\<rparr> \<and> failures = map check_failure before)"
proof -
  let ?dctx = "WithTimeout c now (ic_checklist_timeout cfg)"
  have "cx_deadline ?dctx = Some (now + ic_checklist_timeout cfg)" "cx_cancel ?dctx = None"
    by (simp_all add: WithTimeout_def assms(2,3))
  from check_loop_fair [OF assms(1) this, of "Checklist ls rs" now cfg "[]"] assms(4,5) show ?thesis
    by (auto simp: direct_phase_def Let_def) blast
qed

text \<open>A checker that answers immediately: pairs with the remote address 192.0.2.7:9 connect.\<close>

abbreviation demo_check :: "nat checker" where
  "demo_check \<equiv> \<lambda>now cx l r. (now, False, if cd_addr r = ''192.0.2.7:9'' then Some 5 else None)"

abbreviation demo_config :: ice_config where
  "demo_config \<equiv> \<lparr>ic_stun = [], ic_gather_timeout = 0, ic_check_timeout = 0, ic_checklist_timeout = 0,
     ic_probe = True, ic_consent_interval = 0, ic_consent_failures = 0, ic_consent_key = [],
     ic_consent_session = [], ic_send_label = [], ic_receive_label = []\<rparr>"

abbreviation demo_remote :: candidate where
  "demo_remote \<equiv> \<lparr>cd_id = ''r'', cd_type = CandidateHost, cd_addr = ''192.0.2.7:9'', cd_priority = 126\<rparr>"

lemma demo_checklist: "Checklist [demo_candidate] [demo_remote] = [waiting_pair demo_candidate demo_remote]"
  by (simp add: Checklist_def usable_def SliceStable_def)

theorem checklist_every_pair_checked_witness:
  "case direct_phase (Some demo_check) (NewICEAgent demo_config) \<lparr>cx_deadline = None, cx_cancel = None\<rparr> 0
       [demo_candidate] [demo_remote] of
      (_, failures, None) \<Rightarrow> failures = map check_failure (Checklist [demo_candidate] [demo_remote])
    | (_, failures, Some (p, conn)) \<Rightarrow> (\<exists>before p0 after. Checklist [demo_candidate] [demo_remote] = before @ p0 # after \<and>
         p = p0\<lparr>cp_state := PairNominated\<rparr> \<and> failures = map check_failure before)"
  by (rule checklist_every_pair_checked)
     (simp_all add: honours_deadline_def demo_checklist NewICEAgent_def)

text \<open>
  Connect uses the relay last and bounds the direct phase. If the session is not
  relayed, its pair comes from the checklist and its connection from a successful check of
  that pair; if it is relayed, the provider returned a connection with a relay candidate,
  was asked no later than the checklist timeout after the start (for a checker that
  honours deadlines), and no direct check had succeeded.
\<close>

theorem connect_relay_last:
  assumes "honours_deadline check" "ic_checklist_timeout cfg > 0"
    and "ice_Connect (Some check) relay cfg (Some c) now peer ls rs = Inr s"
  shows "(\<not> ss_via_relay s \<and> (\<exists>p0 t t0 cx. p0 \<in> set (Checklist ls rs) \<and>
            ss_pair s = p0\<lparr>cp_state := PairNominated\<rparr> \<and>
            check t0 cx (cp_local p0) (cp_remote p0) = (t, False, Some (ss_conn s)))) \<or>
         (ss_via_relay s \<and> (\<exists>allocate t failures t' rc. relay = Some allocate \<and>
            t \<le> now + ic_checklist_timeout cfg \<and> direct_phase (Some check) cfg c now ls rs = (t, failures, None) \<and>
            allocate t peer = (t', False, Some (ss_conn s), rc) \<and> cd_type rc = CandidateRelay \<and>
            cp_local (ss_pair s) = rc))"
proof -
  obtain t failures r where d: "direct_phase (Some check) cfg c now ls rs = (t, failures, r)"
    using prod_cases3 by blast
  let ?dctx = "WithTimeout c now (ic_checklist_timeout cfg)"
  obtain e where e: "cx_deadline ?dctx = Some e" "e \<le> now + ic_checklist_timeout cfg"
    using with_timeout_deadline by (auto split: option.splits)
  from d have loop: "\<exists>fs. check_loop check cfg ?dctx now (Checklist ls rs) fs = (t, failures, r)"
    by (auto simp: direct_phase_def Let_def)
  show ?thesis
  proof (cases r)
    case None
    have "t \<le> max now e" using loop check_loop_time [OF assms(1) e(1)] by (metis fst_conv)
    with e(2) assms(2) have "t \<le> now + ic_checklist_timeout cfg" by simp
    with None assms(3) d show ?thesis
      by (auto simp: ice_Connect_def relay_phase_def newSession_def Let_def
          split: if_splits option.splits prod.splits)
  next
    case (Some pc)
    obtain p conn where pc: "pc = (p, conn)" by fastforce
    from loop Some pc obtain fs where
      "check_loop check cfg ?dctx now (Checklist ls rs) fs = (t, failures, Some (p, conn))" by auto
    from check_loop_nominates [OF this] obtain p0 t0 cx where "p0 \<in> set (Checklist ls rs)" "p = p0\<lparr>cp_state := PairNominated\<rparr>"
      "check t0 cx (cp_local p0) (cp_remote p0) = (t, False, Some conn)"
      by blast
    with Some pc assms(3) d show ?thesis
      by (auto simp: ice_Connect_def newSession_def split: if_splits) blast
  qed
qed

theorem connect_relay_last_witness:
  "\<exists>s. ice_Connect (Some demo_check) None (NewICEAgent demo_config) (Some \<lparr>cx_deadline = None, cx_cancel = None\<rparr>) 0
         ''peer'' [demo_candidate] [demo_remote] = Inr s \<and> \<not> ss_via_relay s \<and> ss_conn s = 5"
proof -
  let ?s = "newSession ((waiting_pair demo_candidate demo_remote)\<lparr>cp_state := PairNominated\<rparr>) (5 :: nat) False"
  let ?connect = "ice_Connect (Some demo_check) None (NewICEAgent demo_config)
    (Some \<lparr>cx_deadline = None, cx_cancel = None\<rparr>) 0 ''peer'' [demo_candidate] [demo_remote]"
  have eq: "?connect = Inr ?s"
    by (simp add: ice_Connect_def direct_phase_def demo_checklist WithTimeout_def ctx_err_def
        NewICEAgent_def waiting_pair_def)
  have "honours_deadline demo_check" "ic_checklist_timeout (NewICEAgent demo_config) > 0"
    by (simp_all add: honours_deadline_def NewICEAgent_def)
  from connect_relay_last [OF this eq] eq show ?thesis by (auto simp: newSession_def)
qed

text \<open>
  Consent expires exactly after the configured number of consecutive failed probes:
  an open session with a probe is terminated by a sequence of ticks if and only if the
  probe outcomes contain that many failures in a row, for every configuration that
  NewICEAgent produces.
\<close>

theorem consent_expiry_exact:
  assumes "cfg = NewICEAgent cfg0" "ic_probe cfg" "\<not> ss_done s"
  shows "ss_done (monitorConsent cfg s (map MonitorTick oks)) \<longleftrightarrow>
    sublist (replicate (nat (ic_consent_failures cfg)) False) oks"
proof -
  have "ic_consent_failures cfg > 0" by (simp add: assms(1) NewICEAgent_def)
  then obtain n where "ic_consent_failures cfg = int n" "0 < n" by (metis zero_less_imp_eq_int)
  with monitor_loop_done [of s 0 n oks] assms(2,3) show ?thesis
    by (simp add: monitorConsent_def)
qed

theorem consent_expiry_exact_witness:
  "ss_done (monitorConsent (NewICEAgent demo_config)
      (newSession (waiting_pair demo_candidate demo_remote) (5 :: nat) False)
      (map MonitorTick [False, False, True, False, False, False, True])) \<longleftrightarrow>
   sublist (replicate (nat (ic_consent_failures (NewICEAgent demo_config))) False)
     [False, False, True, False, False, False, True]"
  by (rule consent_expiry_exact [OF refl]) (simp_all add: NewICEAgent_def newSession_def)

text \<open>
  Both ends of a negotiation derive the same consent key and session: each from its
  own identity, token and session and from the other's as signaled.
\<close>

theorem consent_material_symmetric:
  "consentMaterial sha256 a ta sa (Some \<lparr>pi_peer = b, pi_public = pb, pi_local = lb, pi_nat = nb, pi_token = tb, pi_session = sb\<rparr>) neg =
   consentMaterial sha256 b tb sb (Some \<lparr>pi_peer = a, pi_public = pa, pi_local = la, pi_nat = na, pi_token = ta, pi_session = sa\<rparr>) neg"
proof -
  have "sort [x, y] = sort [y, x :: string]" for x y using linear [of x y] by auto
  then show ?thesis by (auto simp: consentMaterial_def Let_def)
qed

end
