(* ===== verification/Punch_Auth.thy ===== *)
theory Punch_Auth
  imports Text
begin

text \<open>
  The authenticated hole-punching probes of \<^verbatim>\<open>cmd/p2p/punch_auth.go\<close>: the bounded
  replay cache, the probe message and its validation. HMAC-SHA256 is an argument
  \<open>hmac key msg\<close> of the definitions, so every theorem holds whatever it computes, and the
  bytes \<^verbatim>\<open>crypto/rand\<close> returns (or its failure) are an argument too.
\<close>

section \<open>The replay cache\<close>

record punch_cache =
  pc_seen :: "(string, time) gomap"
  pc_capacity :: nat

definition defaultReplayEntries :: nat where "defaultReplayEntries = 4096"

definition NewPunchReplayCache :: "int \<Rightarrow> punch_cache" where
  "NewPunchReplayCache capacity =
     \<lparr>pc_seen = [], pc_capacity = (if capacity \<le> 0 then defaultReplayEntries else nat capacity)\<rparr>"

text \<open>
  The search for the entry to evict, over the map in its iteration order; an empty
  \<open>oldestKey\<close> stands for "none yet", as in the code.
\<close>

definition oldest_entry :: "(string, time) gomap \<Rightarrow> string \<times> time" where
  "oldest_entry m = foldl (\<lambda>(oldestKey, oldest) (k, expires).
     if oldestKey = [] \<or> expires < oldest then (k, expires) else (oldestKey, oldest)) ([], 0) m"

definition consume :: "punch_cache \<Rightarrow> string \<Rightarrow> time \<Rightarrow> time \<Rightarrow> bool \<times> punch_cache" where
  "consume c key now ttl =
     (let live = gm_keep (\<lambda>k expires. now < expires) (pc_seen c) in
      if (case gm_get live key of Some expires \<Rightarrow> now < expires | None \<Rightarrow> False)
      then (False, c\<lparr>pc_seen := live\<rparr>)
      else let room = (if length live \<ge> pc_capacity c then gm_del (fst (oldest_entry live)) live else live)
           in (True, c\<lparr>pc_seen := gm_put key (now + ttl) room\<rparr>))"

section \<open>Messages\<close>

definition randomToken :: "bytes option \<Rightarrow> string" where
  "randomToken rand = (case rand of None \<Rightarrow> [] | Some b \<Rightarrow> base64url b)"

abbreviation punchProtocolVersion :: string where "punchProtocolVersion \<equiv> ''v2''"
abbreviation punchPrefix :: string where "punchPrefix \<equiv> ''XROK-P2P-PUNCH''"

definition punchMACInput :: "string \<Rightarrow> string \<Rightarrow> int \<Rightarrow> string \<Rightarrow> string" where
  "punchMACInput peerID sessionID timestamp nonce =
     join_with (CHR '':'') [punchProtocolVersion, peerID, sessionID, format_int timestamp, nonce]"

definition punch_mac :: "(bytes \<Rightarrow> bytes \<Rightarrow> bytes) \<Rightarrow> string \<Rightarrow> string \<Rightarrow> string" where
  "punch_mac hmac token input = base64url (hmac (bytes_of token) (bytes_of input))"

definition UnixMilli :: "time \<Rightarrow> int" where
  "UnixMilli t = t div millisecond"

datatype punch_error = PunchFieldsRequired | PunchNonceFailed

definition authenticatedPunchMessage ::
  "(bytes \<Rightarrow> bytes \<Rightarrow> bytes) \<Rightarrow> bytes option \<Rightarrow> string \<Rightarrow> string \<Rightarrow> string \<Rightarrow> time \<Rightarrow> punch_error + string" where
  "authenticatedPunchMessage hmac rand token peerID sessionID now =
     (if token = [] \<or> peerID = [] \<or> sessionID = [] then Inl PunchFieldsRequired
      else let nonce = randomToken rand in
        if nonce = [] then Inl PunchNonceFailed
        else let input = punchMACInput peerID sessionID (UnixMilli now) nonce
             in Inr (punchPrefix @ '':'' @ input @ '':'' @ punch_mac hmac token input))"

definition replay_key :: "string \<Rightarrow> string \<Rightarrow> string \<Rightarrow> string \<Rightarrow> string" where
  "replay_key peer session nonce mac =
     peer @ [CHR 0x00] @ session @ [CHR 0x00] @ nonce @ [CHR 0x00] @ mac"

definition validateAuthenticatedPunch ::
  "(bytes \<Rightarrow> bytes \<Rightarrow> bytes) \<Rightarrow> string \<Rightarrow> string \<Rightarrow> string \<Rightarrow> string \<Rightarrow> time \<Rightarrow> time \<Rightarrow> punch_cache
     \<Rightarrow> bool \<times> punch_cache" where
  "validateAuthenticatedPunch hmac msg token expectedPeer expectedSession now maxSkew replay =
     (if token = [] \<or> expectedPeer = [] \<or> expectedSession = [] \<or> maxSkew \<le> 0 then (False, replay)
      else let parts = split_on (CHR '':'') msg in
        if length parts \<noteq> 7 \<or> parts ! 0 \<noteq> punchPrefix \<or> parts ! 1 \<noteq> punchProtocolVersion \<or>
           parts ! 2 \<noteq> expectedPeer \<or> parts ! 3 \<noteq> expectedSession \<or> parts ! 5 = []
        then (False, replay)
        else (case parse_int64 (parts ! 4) of
                None \<Rightarrow> (False, replay)
              | Some ts \<Rightarrow>
                  let issued = ts * millisecond in
                  if issued < now - maxSkew \<or> issued > now + maxSkew then (False, replay)
                  else let input = punchMACInput (parts ! 2) (parts ! 3) ts (parts ! 5) in
                    if parts ! 6 \<noteq> punch_mac hmac token input then (False, replay)
                    else consume replay (replay_key expectedPeer expectedSession (parts ! 5) (parts ! 6))
                           now maxSkew))"

section \<open>The cache's invariant\<close>

definition cache_inv :: "punch_cache \<Rightarrow> bool" where
  "cache_inv c \<longleftrightarrow> gm_ok (pc_seen c) \<and> length (pc_seen c) \<le> pc_capacity c \<and> 0 < pc_capacity c \<and>
     gm_get (pc_seen c) [] = None"

lemma cache_inv_new: "cache_inv (NewPunchReplayCache n)"
  by (simp add: cache_inv_def NewPunchReplayCache_def defaultReplayEntries_def)

lemma fst_oldest_fold:
  "k \<noteq> [] \<Longrightarrow> gm_get m [] = None \<Longrightarrow>
   fst (foldl (\<lambda>(ok, o') (k, e). if ok = [] \<or> e < o' then (k, e) else (ok, o')) (k, e) m)
     \<in> insert k (fst ` set m)"
proof (induction m arbitrary: k e)
  case Nil
  then show ?case by simp
next
  case (Cons kv m)
  obtain k' e' where kv: "kv = (k', e')" by fastforce
  with Cons.prems have "k' \<noteq> []" and m: "gm_get m [] = None" by (auto split: if_splits)
  then show ?case
    using Cons.IH [OF Cons.prems(1) m, of e] Cons.IH [OF \<open>k' \<noteq> []\<close> m, of e'] Cons.prems(1) by (auto simp: kv)
qed

text \<open>Eviction frees a slot: the key it picks is a key of the map.\<close>

lemma oldest_entry_mem:
  assumes "m \<noteq> []" and "gm_get m [] = None"
  shows "fst (oldest_entry m) \<in> fst ` set m"
proof -
  obtain k e m' where m: "m = (k, e) # m'" using assms(1) by (cases m) auto
  with assms(2) have "k \<noteq> []" "gm_get m' [] = None" by (auto split: if_splits)
  then show ?thesis using fst_oldest_fold [of k m' e] by (simp add: oldest_entry_def m)
qed

lemma consume_inv:
  assumes inv: "cache_inv c" and key: "key \<noteq> []"
  shows "cache_inv (snd (consume c key now ttl))"
proof -
  define live where "live = gm_keep (\<lambda>k expires. now < expires) (pc_seen c)"
  have ok: "gm_ok live" and len: "length live \<le> pc_capacity c" and nil: "gm_get live [] = None"
    using inv length_gm_keep [of _ "pc_seen c"]
    by (auto simp: live_def cache_inv_def gm_get_keep intro: order_trans)
  define room where "room = (if length live \<ge> pc_capacity c then gm_del (fst (oldest_entry live)) live else live)"
  have room: "gm_ok room" "gm_get room [] = None" using ok nil by (auto simp: room_def)
  have "length room < pc_capacity c"
  proof (cases "length live \<ge> pc_capacity c")
    case True
    with inv have "live \<noteq> []" by (auto simp: cache_inv_def)
    from oldest_entry_mem [OF this nil] obtain v where "gm_get live (fst (oldest_entry live)) = Some v"
      using ok by (auto simp: gm_ok_def)
    from length_gm_del [OF ok this] len True show ?thesis by (simp add: room_def)
  next
    case False
    then show ?thesis by (simp add: room_def)
  qed
  then have "length (gm_put key (now + ttl) room) \<le> pc_capacity c" by (simp add: length_gm_put)
  with inv ok len nil room key show ?thesis
    unfolding consume_def Let_def live_def [symmetric] room_def [symmetric]
    by (simp add: cache_inv_def)
qed

lemma replay_key_nonempty [simp]: "replay_key peer session nonce mac \<noteq> []"
  by (simp add: replay_key_def)

text \<open>One probe that reaches the cache, with the clock and the lifetime it is consumed at.\<close>

definition cache_step :: "punch_cache \<Rightarrow> (string \<times> string \<times> string \<times> string) \<times> time \<times> time \<Rightarrow> punch_cache" where
  "cache_step c p = (case p of ((peer, session, nonce, mac), now, ttl) \<Rightarrow>
     snd (consume c (replay_key peer session nonce mac) now ttl))"

interpretation punch_cache: invariant_steps cache_step cache_inv
  by unfold_locales (auto simp: cache_step_def consume_inv)

text \<open>An entry that is alive makes \<^verbatim>\<open>consume\<close> refuse its key.\<close>

lemma consume_live:
  "gm_ok (pc_seen c) \<Longrightarrow> gm_get (pc_seen c) key = Some e \<Longrightarrow> now < e \<Longrightarrow> \<not> fst (consume c key now ttl)"
  by (simp add: consume_def Let_def gm_get_keep)

lemma consume_fresh:
  "gm_ok (pc_seen c) \<Longrightarrow> (case gm_get (pc_seen c) key of Some e \<Rightarrow> e \<le> now | None \<Rightarrow> True) \<Longrightarrow>
     fst (consume c key now ttl)"
  by (auto simp: consume_def Let_def gm_get_keep split: option.splits)

lemma consume_stores:
  "fst (consume c key now ttl) \<Longrightarrow> gm_get (pc_seen (snd (consume c key now ttl))) key = Some (now + ttl)"
  by (auto simp: consume_def Let_def split: option.splits if_splits)

text \<open>While the cache has room, \<^verbatim>\<open>consume\<close> of other keys keeps a live entry.\<close>

lemma consume_keeps:
  assumes "gm_ok (pc_seen c)" and "gm_get (pc_seen c) k = Some e" and "now < e"
    and "length (pc_seen c) < pc_capacity c"
  shows "gm_get (pc_seen (snd (consume c key now ttl))) k = Some e \<or>
    k = key \<and> fst (consume c key now ttl)"
proof -
  define live where "live = gm_keep (\<lambda>k expires. now < expires) (pc_seen c)"
  have k: "gm_get live k = Some e" using assms by (simp add: live_def gm_get_keep)
  have "length live < pc_capacity c"
    unfolding live_def by (rule order_le_less_trans [OF length_gm_keep assms(4)])
  with k show ?thesis by (auto simp: consume_def Let_def live_def [symmetric] split: option.splits)
qed

lemma consume_length: "length (pc_seen (snd (consume c key now ttl))) \<le> Suc (length (pc_seen c))"
proof -
  define live where "live = gm_keep (\<lambda>k expires. now < expires) (pc_seen c)"
  have l: "length live \<le> length (pc_seen c)" by (simp add: live_def length_gm_keep)
  have "length (gm_put key (now + ttl) (gm_del k live)) \<le> Suc (length live)" for k
    using length_gm_del_le [of k live] by (simp add: length_gm_put)
  moreover have "length (gm_put key (now + ttl) live) \<le> Suc (length live)" by (simp add: length_gm_put)
  ultimately show ?thesis using l
    by (auto simp: consume_def Let_def live_def [symmetric] intro: order_trans)
qed

lemma consume_capacity [simp]: "pc_capacity (snd (consume c key now ttl)) = pc_capacity c"
  by (simp add: consume_def Let_def split: option.splits)

lemma consume_ok [simp]: "gm_ok (pc_seen c) \<Longrightarrow> gm_ok (pc_seen (snd (consume c key now ttl)))"
  by (simp add: consume_def Let_def split: option.splits)

section \<open>Runs of the cache\<close>

text \<open>
  A sequence of probes, each a key and the time it is consumed at, with the outcomes: the
  life of a manager's replay cache.
\<close>

fun consume_run :: "punch_cache \<Rightarrow> (string \<times> time) list \<Rightarrow> time \<Rightarrow> bool list \<times> punch_cache" where
  "consume_run c [] ttl = ([], c)"
| "consume_run c ((key, now) # ps) ttl =
     (case consume c key now ttl of (b, c') \<Rightarrow>
       (case consume_run c' ps ttl of (bs, c'') \<Rightarrow> (b # bs, c'')))"

lemma consume_run_keeps:
  assumes "gm_ok (pc_seen c)" and "gm_get (pc_seen c) k = Some e"
    and "\<forall>(k', now) \<in> set ps. now < e" and "length (pc_seen c) + length ps \<le> pc_capacity c"
  shows "gm_get (pc_seen (snd (consume_run c ps ttl))) k = Some e \<and>
    gm_ok (pc_seen (snd (consume_run c ps ttl))) \<and>
    (\<forall>i < length ps. fst (ps ! i) = k \<longrightarrow> \<not> fst (consume_run c ps ttl) ! i)"
  using assms
proof (induction ps arbitrary: c)
  case Nil
  then show ?case by simp
next
  case (Cons p ps)
  obtain key now where p: "p = (key, now)" by fastforce
  obtain b c' where cons: "consume c key now ttl = (b, c')" by fastforce
  have now: "now < e" using Cons.prems(3) by (auto simp: p)
  have len: "length (pc_seen c) < pc_capacity c" using Cons.prems(4) by simp
  have b: "key = k \<Longrightarrow> \<not> b" using consume_live [OF Cons.prems(1,2) now, of ttl] cons by auto
  then have get: "gm_get (pc_seen c') k = Some e"
    using consume_keeps [OF Cons.prems(1,2) now len, of key ttl] cons by auto
  have ok: "gm_ok (pc_seen c')" using consume_ok [OF Cons.prems(1), of key now ttl] cons by simp
  have "length (pc_seen c') + length ps \<le> pc_capacity c'"
    using consume_length [of c key now ttl] consume_capacity [of c key now ttl] Cons.prems(4) cons by simp
  with Cons.IH [OF ok get] Cons.prems(3)
  have "gm_get (pc_seen (snd (consume_run c' ps ttl))) k = Some e \<and>
    gm_ok (pc_seen (snd (consume_run c' ps ttl))) \<and>
    (\<forall>i < length ps. fst (ps ! i) = k \<longrightarrow> \<not> fst (consume_run c' ps ttl) ! i)" by simp
  with b show ?case by (auto simp: p cons nth_Cons split: prod.splits nat.splits)
qed

section \<open>Messages round trip\<close>

lemma punch_message_parts:
  assumes "CHR '':'' \<notin> set peer" and "CHR '':'' \<notin> set session" and "CHR '':'' \<notin> set nonce"
  shows "split_on (CHR '':'') (punchPrefix @ '':'' @ punchMACInput peer session ts nonce @ '':'' @ punch_mac hmac token input) =
    [punchPrefix, punchProtocolVersion, peer, session, format_int ts, nonce, punch_mac hmac token input]"
proof -
  have "punchPrefix @ '':'' @ punchMACInput peer session ts nonce @ '':'' @ punch_mac hmac token input =
    join_with (CHR '':'') [punchPrefix, punchProtocolVersion, peer, session, format_int ts, nonce, punch_mac hmac token input]"
    by (simp add: punchMACInput_def)
  then show ?thesis
    using assms by (simp only:, intro split_on_join) (auto simp: punch_mac_def text_simps)
qed

lemma UnixMilli_bounds: "UnixMilli t * millisecond \<le> t" "t < UnixMilli t * millisecond + millisecond"
  unfolding UnixMilli_def by presburger+

lemma authenticatedPunchMessage_shape:
  assumes "authenticatedPunchMessage hmac rand token peer session now = Inr msg"
  shows "\<exists>b. rand = Some b \<and> b \<noteq> [] \<and> token \<noteq> [] \<and> peer \<noteq> [] \<and> session \<noteq> [] \<and>
    msg = punchPrefix @ '':'' @ punchMACInput peer session (UnixMilli now) (base64url b) @ '':'' @
      punch_mac hmac token (punchMACInput peer session (UnixMilli now) (base64url b))"
  using assms
  by (auto simp: authenticatedPunchMessage_def randomToken_def Let_def split: if_splits option.splits)

text \<open>Validation of a well-formed message comes down to the clock check and the cache.\<close>

lemma validate_message:
  assumes fields: "token \<noteq> []" "peer \<noteq> []" "session \<noteq> []" "nonce \<noteq> []" "0 < maxSkew"
    and free: "CHR '':'' \<notin> set peer" "CHR '':'' \<notin> set session" "CHR '':'' \<notin> set nonce"
    and range: "- (2 ^ 63) \<le> ts" "ts < 2 ^ 63"
    and msg: "msg = punchPrefix @ '':'' @ punchMACInput peer session ts nonce @ '':'' @
      punch_mac hmac token (punchMACInput peer session ts nonce)"
  shows "validateAuthenticatedPunch hmac msg token peer session now maxSkew replay =
    (if ts * millisecond < now - maxSkew \<or> ts * millisecond > now + maxSkew then (False, replay)
     else consume replay (replay_key peer session nonce
            (punch_mac hmac token (punchMACInput peer session ts nonce))) now maxSkew)"
  using fields parse_int64_format [OF range]
  by (simp add: validateAuthenticatedPunch_def msg punch_message_parts [OF free] Let_def
      del: append.simps)

section \<open>Properties\<close>

text \<open>
  A genuine probe is accepted: the message \<^verbatim>\<open>authenticatedPunchMessage\<close> builds for
  a receiver is validated by the receiver when its clock is within the skew of the
  sender's timestamp and the replay cache has not seen the probe's nonce, provided the
  peer and session IDs contain no colon (the message's separator).
\<close>

theorem punch_accepts_genuine:
  assumes "authenticatedPunchMessage hmac rand token peer session sent = Inr msg"
    and "CHR '':'' \<notin> set peer" and "CHR '':'' \<notin> set session"
    and "0 < maxSkew" and "- (2 ^ 63) \<le> UnixMilli sent" and "UnixMilli sent < 2 ^ 63"
    and "now - maxSkew \<le> UnixMilli sent * millisecond" and "UnixMilli sent * millisecond \<le> now + maxSkew"
    and "gm_ok (pc_seen c)"
    and "\<forall>mac. gm_get (pc_seen c) (replay_key peer session (randomToken rand) mac) = None"
  shows "fst (validateAuthenticatedPunch hmac msg token peer session now maxSkew c)"
proof -
  obtain b where b: "rand = Some b" "b \<noteq> []" "token \<noteq> []" "peer \<noteq> []" "session \<noteq> []"
    and msg: "msg = punchPrefix @ '':'' @ punchMACInput peer session (UnixMilli sent) (base64url b) @ '':'' @
      punch_mac hmac token (punchMACInput peer session (UnixMilli sent) (base64url b))"
    using authenticatedPunchMessage_shape [OF assms(1)] by blast
  have nonce: "randomToken rand = base64url b" by (simp add: randomToken_def b(1))
  show ?thesis
    using b assms(7-9) assms(10) [unfolded nonce]
    by (subst validate_message [OF b(3-5) _ assms(4,2,3) base64url_no_colon assms(5,6) msg])
       (auto intro!: consume_fresh)
qed

abbreviation demo_hmac :: "bytes \<Rightarrow> bytes \<Rightarrow> bytes" where
  "demo_hmac \<equiv> \<lambda>k m. take 4 (k @ m)"

theorem punch_accepts_genuine_witness:
  "\<exists>msg. authenticatedPunchMessage demo_hmac (Some [1, 2, 3]) ''tok'' ''alice'' ''s1'' (5 * second) = Inr msg \<and>
     fst (validateAuthenticatedPunch demo_hmac msg ''tok'' ''alice'' ''s1'' (6 * second) (30 * second)
       (NewPunchReplayCache 0))"
proof -
  obtain msg where msg: "authenticatedPunchMessage demo_hmac (Some [1, 2, 3]) ''tok'' ''alice'' ''s1'' (5 * second) = Inr msg"
    by (simp add: authenticatedPunchMessage_def randomToken_def Let_def)
  show ?thesis
    using punch_accepts_genuine [OF msg, of "30 * second" "6 * second" "NewPunchReplayCache 0"] msg
    by (auto simp: UnixMilli_def NewPunchReplayCache_def)
qed

text \<open>
  C12. Only authenticated probes are accepted: an accepted message names the expected peer
  and session, carries a non-empty nonce and a timestamp within the skew, and its last
  field is the MAC of exactly these fields under the receiver's token.
\<close>

theorem punch_accept_sound:
  assumes "fst (validateAuthenticatedPunch hmac msg token peer session now maxSkew c)"
  shows "\<exists>tsText ts nonce.
    msg = join_with (CHR '':'') [punchPrefix, punchProtocolVersion, peer, session, tsText, nonce,
      punch_mac hmac token (punchMACInput peer session ts nonce)] \<and>
    parse_int64 tsText = Some ts \<and> nonce \<noteq> [] \<and> token \<noteq> [] \<and>
    now - maxSkew \<le> ts * millisecond \<and> ts * millisecond \<le> now + maxSkew"
proof -
  let ?ps = "split_on (CHR '':'') msg"
  obtain ts where len: "length ?ps = 7" and ps: "?ps ! 0 = punchPrefix" "?ps ! 1 = punchProtocolVersion"
      "?ps ! 2 = peer" "?ps ! 3 = session" "?ps ! 5 \<noteq> []" "token \<noteq> []"
    and ts: "parse_int64 (?ps ! 4) = Some ts"
      "now - maxSkew \<le> ts * millisecond" "ts * millisecond \<le> now + maxSkew"
    and mac: "?ps ! 6 = punch_mac hmac token (punchMACInput peer session ts (?ps ! 5))"
    using assms by (auto simp: validateAuthenticatedPunch_def Let_def split: if_splits option.splits)
  have "?ps = [?ps ! 0, ?ps ! 1, ?ps ! 2, ?ps ! 3, ?ps ! 4, ?ps ! 5, ?ps ! 6]"
    using len by (auto intro!: nth_equalityI simp: less_Suc_eq numeral_eq_Suc)
  then have "msg = join_with (CHR '':'') [punchPrefix, punchProtocolVersion, peer, session, ?ps ! 4, ?ps ! 5,
      punch_mac hmac token (punchMACInput peer session ts (?ps ! 5))]"
    using join_split [of "CHR '':''" msg] ps mac by metis
  with ps ts show ?thesis by blast
qed

theorem punch_accept_sound_witness:
  "\<exists>tsText ts nonce.
    ''XROK-P2P-PUNCH:v2:p:s:1:n:AA'' = join_with (CHR '':'') [punchPrefix, punchProtocolVersion, ''p'', ''s'', tsText, nonce,
      punch_mac (\<lambda>_ _. [0]) ''t'' (punchMACInput ''p'' ''s'' ts nonce)] \<and>
    parse_int64 tsText = Some ts \<and> nonce \<noteq> [] \<and> ''t'' \<noteq> [] \<and>
    0 - second \<le> ts * millisecond \<and> ts * millisecond \<le> 0 + second"
  by (rule punch_accept_sound [where c = "NewPunchReplayCache 1" and hmac = "\<lambda>_ _. [0]"])
     (simp add: validateAuthenticatedPunch_def Let_def parse_int64_def parse_uint_def digit_value_def
       punch_mac_def base64_char_def consume_def NewPunchReplayCache_def gm_keep_def)

text \<open>
  C13. A probe is good for one acceptance: once a probe whose timestamp lies before the
  receiver's clock has been accepted, it is rejected at every later time, whatever other
  probes were consumed in between, as long as their number does not overflow the cache's
  capacity.
\<close>

theorem punch_replay_rejected:
  assumes "validateAuthenticatedPunch hmac msg token peer session now maxSkew c = (True, c1)"
    and "parse_int64 (split_on (CHR '':'') msg ! 4) = Some ts" and "ts * millisecond < now"
    and "gm_ok (pc_seen c)" and "\<forall>(k, t) \<in> set ps. t \<le> now'"
    and "length (pc_seen c1) + length ps \<le> pc_capacity c1"
  shows "\<not> fst (validateAuthenticatedPunch hmac msg token peer session now' maxSkew
    (snd (consume_run c1 ps maxSkew)))"
proof -
  let ?key = "replay_key peer session (split_on (CHR '':'') msg ! 5) (split_on (CHR '':'') msg ! 6)"
  have cons: "consume c ?key now maxSkew = (True, c1)"
    using assms(1) by (auto simp: validateAuthenticatedPunch_def Let_def split: if_splits option.splits)
  then have get: "gm_get (pc_seen c1) ?key = Some (now + maxSkew)" and ok: "gm_ok (pc_seen c1)"
    using consume_stores [of c ?key now maxSkew] consume_ok [OF assms(4), of ?key now maxSkew] by simp_all
  show ?thesis
  proof (cases "now' < now + maxSkew")
    case True
    then have "\<forall>(k', t) \<in> set ps. t < now + maxSkew" using assms(5) by auto
    from consume_run_keeps [OF ok get this assms(6), of maxSkew]
    have "\<not> fst (consume (snd (consume_run c1 ps maxSkew)) ?key now' maxSkew)"
      using consume_live [OF _ _ True] by blast
    then show ?thesis
      by (auto simp: validateAuthenticatedPunch_def Let_def split: option.splits)
  next
    case False
    then show ?thesis using assms(2,3)
      by (auto simp: validateAuthenticatedPunch_def Let_def split: option.splits)
  qed
qed

lemma demo_probe_accepted:
  assumes "- 29999 \<le> now" and "now \<le> 30001"
  shows "validateAuthenticatedPunch (\<lambda>_ _. [0]) ''XROK-P2P-PUNCH:v2:p:s:1:n:AA'' ''t'' ''p'' ''s''
      (now * millisecond) (30 * second) (NewPunchReplayCache 2) =
    (True, \<lparr>pc_seen = [(replay_key ''p'' ''s'' ''n'' ''AA'', now * millisecond + 30 * second)], pc_capacity = 2\<rparr>)"
  using assms
  by (simp add: validateAuthenticatedPunch_def Let_def parse_int64_def parse_uint_def digit_value_def
       punch_mac_def base64_char_def consume_def NewPunchReplayCache_def gm_keep_def)

theorem punch_replay_rejected_witness:
  "\<not> fst (validateAuthenticatedPunch (\<lambda>_ _. [0]) ''XROK-P2P-PUNCH:v2:p:s:1:n:AA'' ''t'' ''p'' ''s''
     (9 * millisecond) (30 * second)
     (snd (consume_run \<lparr>pc_seen = [(replay_key ''p'' ''s'' ''n'' ''AA'', 2 * millisecond + 30 * second)], pc_capacity = 2\<rparr>
        [(''other'', 5 * millisecond)] (30 * second))))"
  by (rule punch_replay_rejected [where ts = 1, OF demo_probe_accepted [of 2]])
     (simp_all add: parse_int64_def parse_uint_def digit_value_def NewPunchReplayCache_def)

text \<open>
  C38. A probe dated ahead of the receiver's clock is accepted twice: its replay entry
  expires one skew after it was received, but the timestamp stays acceptable for one skew
  after the (later) time it names. Between these two times the same bytes pass again.
\<close>

theorem punch_future_probe_replayed:
  assumes "authenticatedPunchMessage hmac rand token peer session sent = Inr msg"
    and "CHR '':'' \<notin> set peer" and "CHR '':'' \<notin> set session"
    and "0 < maxSkew" and "- (2 ^ 63) \<le> UnixMilli sent" and "UnixMilli sent < 2 ^ 63"
    and "now < UnixMilli sent * millisecond" and "UnixMilli sent * millisecond \<le> now + maxSkew"
    and "now + maxSkew \<le> now'" and "now' \<le> UnixMilli sent * millisecond + maxSkew"
  shows "fst (validateAuthenticatedPunch hmac msg token peer session now maxSkew (NewPunchReplayCache n)) \<and>
    fst (validateAuthenticatedPunch hmac msg token peer session now' maxSkew
      (snd (validateAuthenticatedPunch hmac msg token peer session now maxSkew (NewPunchReplayCache n))))"
proof -
  obtain b where b: "rand = Some b" "b \<noteq> []" "token \<noteq> []" "peer \<noteq> []" "session \<noteq> []"
    and msg: "msg = punchPrefix @ '':'' @ punchMACInput peer session (UnixMilli sent) (base64url b) @ '':'' @
      punch_mac hmac token (punchMACInput peer session (UnixMilli sent) (base64url b))"
    using authenticatedPunchMessage_shape [OF assms(1)] by blast
  from b have ne: "base64url b \<noteq> []" by simp
  note v = validate_message [OF b(3-5) ne assms(4,2,3) base64url_no_colon assms(5,6) msg]
  let ?key = "replay_key peer session (base64url b)
    (punch_mac hmac token (punchMACInput peer session (UnixMilli sent) (base64url b)))"
  let ?c = "NewPunchReplayCache n"
  have ok: "gm_ok (pc_seen ?c)" and none: "gm_get (pc_seen ?c) ?key = None"
    by (simp_all add: NewPunchReplayCache_def)
  have first: "fst (consume ?c ?key now maxSkew)" using ok none by (intro consume_fresh) simp_all
  have "gm_get (pc_seen (snd (consume ?c ?key now maxSkew))) ?key = Some (now + maxSkew)"
    using first by (rule consume_stores)
  then have "fst (consume (snd (consume ?c ?key now maxSkew)) ?key now' maxSkew)"
    using ok assms(9) by (intro consume_fresh) simp_all
  with first show ?thesis using assms(4,7-10) by (simp add: v)
qed

theorem punch_future_probe_replayed_witness:
  "\<exists>msg. authenticatedPunchMessage demo_hmac (Some [1, 2, 3]) ''tok'' ''alice'' ''s1'' (10 * second) = Inr msg \<and>
     fst (validateAuthenticatedPunch demo_hmac msg ''tok'' ''alice'' ''s1'' 0 (30 * second) (NewPunchReplayCache 0)) \<and>
     fst (validateAuthenticatedPunch demo_hmac msg ''tok'' ''alice'' ''s1'' (35 * second) (30 * second)
       (snd (validateAuthenticatedPunch demo_hmac msg ''tok'' ''alice'' ''s1'' 0 (30 * second) (NewPunchReplayCache 0))))"
proof -
  obtain msg where msg: "authenticatedPunchMessage demo_hmac (Some [1, 2, 3]) ''tok'' ''alice'' ''s1'' (10 * second) = Inr msg"
    by (simp add: authenticatedPunchMessage_def randomToken_def Let_def)
  show ?thesis
    using punch_future_probe_replayed [OF msg, of "30 * second" 0 "35 * second" 0] msg
    by (auto simp: UnixMilli_def)
qed

text \<open>
  The replay cache is bounded: starting empty, after any sequence of probes it holds
  at most its capacity of entries (4096 by default), each key once.
\<close>

theorem punch_cache_bounded:
  "length (pc_seen (foldl cache_step (NewPunchReplayCache n) ps)) \<le>
     pc_capacity (foldl cache_step (NewPunchReplayCache n) ps) \<and>
   gm_ok (pc_seen (foldl cache_step (NewPunchReplayCache n) ps)) \<and>
   pc_capacity (foldl cache_step (NewPunchReplayCache n) ps) = (if n \<le> 0 then 4096 else nat n)"
proof -
  have "pc_capacity (foldl cache_step c ps) = pc_capacity c" for c
    by (induction ps arbitrary: c) (auto simp: cache_step_def split: prod.splits)
  then show ?thesis
    using punch_cache.run_inv [OF cache_inv_new [of n], of ps]
    by (simp add: cache_inv_def NewPunchReplayCache_def defaultReplayEntries_def)
qed

end
