(* ===== verification/Negotiation.thy ===== *)
theory Negotiation
  imports Signaling
begin

text \<open>
  The bounded store of ICE negotiations, \<^verbatim>\<open>cmd/p2p/negotiation.go\<close>. Every method
  runs under the store's mutex, so it is one function on the store; the clock it reads is
  an argument. \<^verbatim>\<open>cloneCandidates\<close> and \<^verbatim>\<open>cloneNegotiation\<close> copy, which for HOL's
  immutable values is the identity.
\<close>

section \<open>Data\<close>

abbreviation NegotiationControlling :: string where "NegotiationControlling \<equiv> ''controlling''"
abbreviation NegotiationControlled :: string where "NegotiationControlled \<equiv> ''controlled''"

datatype negotiation_state = NegotiationPending | NegotiationChecking | NegotiationCompleted

record negotiation =
  ng_peer :: string
  ng_session :: string
  ng_role :: string
  ng_state :: negotiation_state
  ng_local :: "candidate list"
  ng_remote :: "candidate list"
  ng_expires :: time

record negotiation_store =
  ns_entries :: "(string, negotiation) gomap"
  ns_capacity :: int
  ns_ttl :: time

datatype negotiation_error =
    PeerAndSessionRequired | InvalidRole | CandidateLimit | NegotiationCandidate candidate_error
  | AlreadyActive | CapacityReached | InvalidBatch | UnknownOrStale | NotAccepting

section \<open>Operations\<close>

definition NewNegotiationStore :: "int \<Rightarrow> time \<Rightarrow> negotiation_store" where
  "NewNegotiationStore capacity ttl =
     \<lparr>ns_entries = [], ns_capacity = (if capacity \<le> 0 then 128 else capacity),
      ns_ttl = (if ttl \<le> 0 then 30 * second else ttl)\<rparr>"

definition cloneCandidates :: "candidate list \<Rightarrow> candidate list" where
  "cloneCandidates cs = [] @ cs"

definition cloneNegotiation :: "negotiation \<Rightarrow> negotiation" where
  "cloneNegotiation n = n\<lparr>ng_local := cloneCandidates (ng_local n), ng_remote := cloneCandidates (ng_remote n)\<rparr>"

definition retained :: "time \<Rightarrow> negotiation \<Rightarrow> bool" where
  "retained now n \<longleftrightarrow> ng_state n = NegotiationChecking \<or> ng_expires n > now"

definition expireLocked :: "time \<Rightarrow> negotiation_store \<Rightarrow> negotiation_store" where
  "expireLocked now st = st\<lparr>ns_entries := gm_keep (\<lambda>_ n. retained now n) (ns_entries st)\<rparr>"

definition Start ::
  "(string \<Rightarrow> bool) \<Rightarrow> time \<Rightarrow> string \<Rightarrow> string \<Rightarrow> string \<Rightarrow> candidate list \<Rightarrow> candidate list \<Rightarrow>
   negotiation_store \<Rightarrow> (negotiation_error + negotiation) \<times> negotiation_store" where
  "Start addr_ok now peer role session locals remotes st =
     (if peer = [] \<or> session = [] then (Inl PeerAndSessionRequired, st)
      else if role \<noteq> NegotiationControlling \<and> role \<noteq> NegotiationControlled then (Inl InvalidRole, st)
      else if length locals > MaxICECandidates \<or> length remotes > MaxICECandidates then (Inl CandidateLimit, st)
      else case first_invalid addr_ok (cloneCandidates locals @ remotes) of
        Some e \<Rightarrow> (Inl (NegotiationCandidate e), st)
      | None \<Rightarrow>
          let st = expireLocked now st in
          case gm_get (ns_entries st) peer of
            Some existing \<Rightarrow>
              if ng_session existing \<noteq> session then (Inl AlreadyActive, st)
              else (Inr (cloneNegotiation existing), st)
          | None \<Rightarrow>
              if int (length (ns_entries st)) \<ge> ns_capacity st then (Inl CapacityReached, st)
              else let n = \<lparr>ng_peer = peer, ng_session = session, ng_role = role,
                            ng_state = NegotiationPending, ng_local = cloneCandidates locals,
                            ng_remote = cloneCandidates remotes, ng_expires = now + ns_ttl st\<rparr>
                   in (Inr (cloneNegotiation n), st\<lparr>ns_entries := gm_put peer n (ns_entries st)\<rparr>))"

text \<open>
  The loop of \<^verbatim>\<open>AddRemote\<close> appends to the stored negotiation as it goes, so the
  candidates before the one that exceeds the limit stay there when it reports the error.
\<close>

definition known_candidate :: "candidate list \<Rightarrow> candidate \<Rightarrow> bool" where
  "known_candidate cs c \<longleftrightarrow> (\<exists>e \<in> set cs. cd_id e = cd_id c \<and> cd_addr e = cd_addr c)"

fun add_candidates :: "candidate list \<Rightarrow> candidate list \<Rightarrow> bool \<times> candidate list" where
  "add_candidates remotes [] = (True, remotes)"
| "add_candidates remotes (c # cs) =
     (if known_candidate remotes c then add_candidates remotes cs
      else if length remotes \<ge> MaxICECandidates then (False, remotes)
      else add_candidates (remotes @ [c]) cs)"

definition AddRemote ::
  "(string \<Rightarrow> bool) \<Rightarrow> time \<Rightarrow> string \<Rightarrow> string \<Rightarrow> candidate list \<Rightarrow>
   negotiation_store \<Rightarrow> (negotiation_error + negotiation) \<times> negotiation_store" where
  "AddRemote addr_ok now peer session cs st =
     (if cs = [] \<or> length cs > MaxICECandidates then (Inl InvalidBatch, st)
      else case first_invalid addr_ok cs of
        Some e \<Rightarrow> (Inl (NegotiationCandidate e), st)
      | None \<Rightarrow>
          let st = expireLocked now st in
          case gm_get (ns_entries st) peer of
            None \<Rightarrow> (Inl UnknownOrStale, st)
          | Some n \<Rightarrow>
              if ng_session n \<noteq> session then (Inl UnknownOrStale, st)
              else if ng_state n \<noteq> NegotiationPending then (Inl NotAccepting, st)
              else case add_candidates (ng_remote n) cs of
                (False, remotes) \<Rightarrow>
                  (Inl CandidateLimit, st\<lparr>ns_entries := gm_put peer (n\<lparr>ng_remote := remotes\<rparr>) (ns_entries st)\<rparr>)
              | (True, remotes) \<Rightarrow>
                  let n' = n\<lparr>ng_remote := remotes, ng_expires := now + ns_ttl st\<rparr>
                  in (Inr (cloneNegotiation n'), st\<lparr>ns_entries := gm_put peer n' (ns_entries st)\<rparr>))"

definition BeginCheck ::
  "time \<Rightarrow> string \<Rightarrow> string \<Rightarrow> negotiation_store \<Rightarrow> negotiation option \<times> negotiation_store" where
  "BeginCheck now peer session st =
     (let st = expireLocked now st in
      case gm_get (ns_entries st) peer of
        None \<Rightarrow> (None, st)
      | Some n \<Rightarrow>
          if ng_session n \<noteq> session \<or> ng_state n \<noteq> NegotiationPending then (None, st)
          else let n' = n\<lparr>ng_state := NegotiationChecking, ng_expires := now + ns_ttl st\<rparr>
               in (Some (cloneNegotiation n'), st\<lparr>ns_entries := gm_put peer n' (ns_entries st)\<rparr>))"

definition Complete :: "time \<Rightarrow> string \<Rightarrow> string \<Rightarrow> negotiation_store \<Rightarrow> bool \<times> negotiation_store" where
  "Complete now peer session st =
     (case gm_get (ns_entries st) peer of
        None \<Rightarrow> (False, st)
      | Some n \<Rightarrow>
          if ng_session n \<noteq> session \<or> ng_state n \<noteq> NegotiationChecking then (False, st)
          else (True, st\<lparr>ns_entries := gm_put peer
                  (n\<lparr>ng_state := NegotiationCompleted, ng_expires := now + ns_ttl st\<rparr>) (ns_entries st)\<rparr>))"

definition store_Delete :: "string \<Rightarrow> string \<Rightarrow> negotiation_store \<Rightarrow> negotiation_store" where
  "store_Delete peer session st =
     (case gm_get (ns_entries st) peer of
        Some n \<Rightarrow> if ng_session n = session then st\<lparr>ns_entries := gm_del peer (ns_entries st)\<rparr> else st
      | None \<Rightarrow> st)"

definition store_Fail :: "string \<Rightarrow> string \<Rightarrow> negotiation_store \<Rightarrow> negotiation_store" where
  "store_Fail peer session st = store_Delete peer session st"

definition store_Get :: "time \<Rightarrow> string \<Rightarrow> string \<Rightarrow> negotiation_store \<Rightarrow> negotiation option \<times> negotiation_store" where
  "store_Get now peer session st =
     (let st = expireLocked now st in
      case gm_get (ns_entries st) peer of
        None \<Rightarrow> (None, st)
      | Some n \<Rightarrow> if ng_session n \<noteq> session then (None, st) else (Some (cloneNegotiation n), st))"

definition store_Len :: "time \<Rightarrow> negotiation_store \<Rightarrow> nat \<times> negotiation_store" where
  "store_Len now st = (let st = expireLocked now st in (length (ns_entries st), st))"

text \<open>The store as a state machine over the calls its clients make.\<close>

datatype negotiation_op =
    OpStart time string string string "candidate list" "candidate list"
  | OpAddRemote time string string "candidate list"
  | OpBeginCheck time string string
  | OpComplete time string string
  | OpFail string string
  | OpGet time string string
  | OpDelete string string
  | OpLen time

fun negotiation_step :: "(string \<Rightarrow> bool) \<Rightarrow> negotiation_store \<Rightarrow> negotiation_op \<Rightarrow> negotiation_store" where
  "negotiation_step ok st (OpStart now p r s ls rs) = snd (Start ok now p r s ls rs st)"
| "negotiation_step ok st (OpAddRemote now p s cs) = snd (AddRemote ok now p s cs st)"
| "negotiation_step ok st (OpBeginCheck now p s) = snd (BeginCheck now p s st)"
| "negotiation_step ok st (OpComplete now p s) = snd (Complete now p s st)"
| "negotiation_step ok st (OpFail p s) = store_Fail p s st"
| "negotiation_step ok st (OpGet now p s) = snd (store_Get now p s st)"
| "negotiation_step ok st (OpDelete p s) = store_Delete p s st"
| "negotiation_step ok st (OpLen now) = snd (store_Len now st)"

section \<open>Invariant\<close>

definition negotiation_ok :: "(string \<Rightarrow> bool) \<Rightarrow> string \<Rightarrow> negotiation \<Rightarrow> bool" where
  "negotiation_ok ok p n \<longleftrightarrow> ng_peer n = p \<and> p \<noteq> [] \<and> ng_session n \<noteq> [] \<and>
     (ng_role n = NegotiationControlling \<or> ng_role n = NegotiationControlled) \<and>
     length (ng_local n) \<le> 32 \<and> length (ng_remote n) \<le> 32 \<and>
     (\<forall>c \<in> set (ng_local n) \<union> set (ng_remote n). candidate_ok ok c)"

definition store_inv :: "(string \<Rightarrow> bool) \<Rightarrow> negotiation_store \<Rightarrow> bool" where
  "store_inv ok st \<longleftrightarrow> gm_ok (ns_entries st) \<and> int (length (ns_entries st)) \<le> ns_capacity st \<and>
     ns_ttl st > 0 \<and> (\<forall>(p, n) \<in> set (ns_entries st). negotiation_ok ok p n)"

lemma clone_id [simp]: "cloneCandidates cs = cs" "cloneNegotiation n = n"
  by (simp_all add: cloneCandidates_def cloneNegotiation_def)

lemma store_inv_get:
  "store_inv ok st \<Longrightarrow> gm_get (ns_entries st) p = Some n \<Longrightarrow> negotiation_ok ok p n"
  by (auto simp: store_inv_def dest: map_of_SomeD)

lemma store_inv_put:
  assumes "store_inv ok st" "negotiation_ok ok p n"
    and "gm_get (ns_entries st) p = None \<longrightarrow> int (length (ns_entries st)) < ns_capacity st"
  shows "store_inv ok (st\<lparr>ns_entries := gm_put p n (ns_entries st)\<rparr>)"
  using assms by (auto simp: store_inv_def length_gm_put set_gm_put)

lemma store_inv_expire [simp]: "store_inv ok st \<Longrightarrow> store_inv ok (expireLocked now st)"
  using length_gm_keep [of "\<lambda>_. retained now" "ns_entries st"]
  by (auto simp: store_inv_def expireLocked_def)

lemma store_inv_delete [simp]: "store_inv ok st \<Longrightarrow> store_inv ok (store_Delete p s st)"
  using length_gm_del_le [of p "ns_entries st"]
  by (auto simp: store_inv_def store_Delete_def set_gm_del split: option.splits)

lemma add_candidates_ok:
  assumes "add_candidates rs cs = (b, rs')" "length rs \<le> 32"
    "\<forall>c \<in> set rs. candidate_ok ok c" "\<forall>c \<in> set cs. candidate_ok ok c"
  shows "length rs' \<le> 32 \<and> (\<forall>c \<in> set rs'. candidate_ok ok c)"
  using assms
  by (induction rs cs rule: add_candidates.induct) (auto simp: MaxICECandidates_def split: if_splits)

lemma store_inv_Start [simp]: "store_inv ok st \<Longrightarrow> store_inv ok (snd (Start ok now p r s ls rs st))"
  by (auto simp: Start_def Let_def negotiation_ok_def first_invalid_iff MaxICECandidates_def
      intro!: store_inv_put split: option.splits)

lemma store_inv_AddRemote [simp]:
  assumes "store_inv ok st"
  shows "store_inv ok (snd (AddRemote ok now p s cs st))"
proof -
  let ?st = "expireLocked now st"
  have inv: "store_inv ok ?st" using assms by simp
  {
    fix n b rs
    assume n: "gm_get (ns_entries ?st) p = Some n" and rs: "add_candidates (ng_remote n) cs = (b, rs)"
      and cs: "first_invalid ok cs = None"
    have "negotiation_ok ok p n" using store_inv_get [OF inv n] .
    with rs cs have "negotiation_ok ok p (n\<lparr>ng_remote := rs\<rparr>)"
      using add_candidates_ok [OF rs, of ok] by (auto simp: negotiation_ok_def first_invalid_iff)
  }
  note ok = this
  have expires: "negotiation_ok ok p (n\<lparr>ng_expires := t\<rparr>) = negotiation_ok ok p n" for n t
    by (simp add: negotiation_ok_def)
  show ?thesis
    using assms inv
    by (auto simp: AddRemote_def Let_def expires intro!: store_inv_put ok split: option.splits prod.splits bool.splits)
qed

lemma store_inv_set_state:
  assumes "store_inv ok st" "gm_get (ns_entries st) p = Some n"
  shows "store_inv ok (st\<lparr>ns_entries := gm_put p (n\<lparr>ng_state := x, ng_expires := t\<rparr>) (ns_entries st)\<rparr>)"
  using store_inv_get [OF assms] assms by (auto simp: negotiation_ok_def intro!: store_inv_put)

interpretation negotiations: invariant_steps "negotiation_step ok" "store_inv ok"
  for ok :: "string \<Rightarrow> bool"
proof
  fix st e
  assume inv: "store_inv ok st"
  then show "store_inv ok (negotiation_step ok st e)"
  proof (cases e)
    case (OpBeginCheck now p s)
    with inv show ?thesis
      by (auto simp: BeginCheck_def Let_def intro!: store_inv_set_state split: option.splits)
  next
    case (OpComplete now p s)
    with inv show ?thesis
      by (auto simp: Complete_def intro!: store_inv_set_state split: option.splits)
  qed (auto simp: store_Fail_def store_Get_def store_Len_def Let_def split: option.splits)
qed


section \<open>Facts\<close>

lemma gm_get_expire:
  "gm_ok (ns_entries st) \<Longrightarrow> gm_get (ns_entries (expireLocked now st)) p =
     (case gm_get (ns_entries st) p of Some n \<Rightarrow> if retained now n then Some n else None | None \<Rightarrow> None)"
  by (simp add: expireLocked_def gm_get_keep)

lemma expire_fields [simp]:
  "ns_ttl (expireLocked now st) = ns_ttl st" "ns_capacity (expireLocked now st) = ns_capacity st"
  by (simp_all add: expireLocked_def)

lemma store_inv_gm_ok [simp, dest]: "store_inv ok st \<Longrightarrow> gm_ok (ns_entries st)"
  by (simp add: store_inv_def)

text \<open>Which negotiation a call names, when it reads the clock, and which calls end the checks.\<close>

fun op_names :: "negotiation_op \<Rightarrow> (string \<times> string) option" where
  "op_names (OpStart now p r s ls rs) = Some (p, s)"
| "op_names (OpAddRemote now p s cs) = Some (p, s)"
| "op_names (OpBeginCheck now p s) = Some (p, s)"
| "op_names (OpComplete now p s) = Some (p, s)"
| "op_names (OpFail p s) = Some (p, s)"
| "op_names (OpGet now p s) = Some (p, s)"
| "op_names (OpDelete p s) = Some (p, s)"
| "op_names (OpLen now) = None"

fun op_time :: "negotiation_op \<Rightarrow> time option" where
  "op_time (OpStart now p r s ls rs) = Some now"
| "op_time (OpAddRemote now p s cs) = Some now"
| "op_time (OpBeginCheck now p s) = Some now"
| "op_time (OpComplete now p s) = None"
| "op_time (OpFail p s) = None"
| "op_time (OpGet now p s) = Some now"
| "op_time (OpDelete p s) = None"
| "op_time (OpLen now) = Some now"

fun releases :: "string \<Rightarrow> string \<Rightarrow> negotiation_op \<Rightarrow> bool" where
  "releases p s (OpComplete now p' s') = (p' = p \<and> s' = s)"
| "releases p s (OpFail p' s') = (p' = p \<and> s' = s)"
| "releases p s (OpDelete p' s') = (p' = p \<and> s' = s)"
| "releases p s _ = False"

lemma entry_kept:
  assumes ok: "gm_ok (ns_entries st)" and n: "gm_get (ns_entries st) p = Some n"
    and time: "\<forall>t. op_time e = Some t \<longrightarrow> retained t n"
    and other: "op_names e \<noteq> Some (p, ng_session n) \<or>
      ng_state n = NegotiationChecking \<and> \<not> releases p (ng_session n) e"
  shows "gm_get (ns_entries (negotiation_step aok st e)) p = Some n"
  using assms
  by (cases e)
     (auto simp: Start_def AddRemote_def BeginCheck_def Complete_def store_Delete_def store_Fail_def
       store_Get_def store_Len_def gm_get_expire Let_def
       split: option.splits prod.splits bool.splits)

lemma entry_kept_run:
  assumes "store_inv aok st" "gm_get (ns_entries st) p = Some n"
    and "\<forall>e \<in> set es. (\<forall>t. op_time e = Some t \<longrightarrow> retained t n) \<and>
      (op_names e \<noteq> Some (p, ng_session n) \<or> ng_state n = NegotiationChecking \<and> \<not> releases p (ng_session n) e)"
  shows "gm_get (ns_entries (foldl (negotiation_step aok) st es)) p = Some n"
  using assms
proof (induction es arbitrary: st)
  case Nil
  then show ?case by simp
next
  case (Cons e es)
  have "gm_get (ns_entries (negotiation_step aok st e)) p = Some n"
    using Cons.prems by (intro entry_kept) auto
  with Cons show ?case by (simp add: negotiations.step_inv)
qed

lemma begin_check_granted:
  assumes "store_inv aok st" "BeginCheck now p s st = (Some n, st')"
  shows "gm_get (ns_entries st') p = Some n" "ng_session n = s" "ng_state n = NegotiationChecking"
    "store_inv aok st'"
proof -
  show "store_inv aok st'"
    using negotiations.step_inv [OF assms(1), of "OpBeginCheck now p s"] assms(2) by simp
qed (use assms in \<open>auto simp: BeginCheck_def Let_def split: option.splits if_splits\<close>)

lemma add_candidates_extends:
  "add_candidates rs cs = (b, rs') \<Longrightarrow> \<exists>extra. rs' = rs @ extra \<and> set extra \<subseteq> set cs"
proof (induction rs cs rule: add_candidates.induct)
  case (2 rs c cs)
  show ?case
  proof (cases "known_candidate rs c \<or> length rs \<ge> MaxICECandidates")
    case True
    with 2 show ?thesis by (fastforce split: if_splits)
  next
    case False
    with 2 obtain extra where "rs' = (rs @ [c]) @ extra \<and> set extra \<subseteq> set cs" by fastforce
    then show ?thesis by (intro exI [of _ "c # extra"]) auto
  qed
qed simp

lemma known_candidate_append [simp]:
  "known_candidate (rs @ extra) c \<longleftrightarrow> known_candidate rs c \<or> known_candidate extra c"
  by (auto simp: known_candidate_def)

lemma add_candidates_known:
  "add_candidates rs cs = (True, rs') \<Longrightarrow> c \<in> set rs \<union> set cs \<Longrightarrow> known_candidate rs' c"
proof (induction rs cs rule: add_candidates.induct)
  case (1 rs)
  then show ?case by (auto simp: known_candidate_def)
next
  case (2 rs d cs)
  show ?case
  proof (cases "known_candidate rs d")
    case True
    then have step: "add_candidates rs cs = (True, rs')" using "2.prems" by simp
    show ?thesis
    proof (cases "c = d")
      case True
      with add_candidates_extends [OF step] \<open>known_candidate rs d\<close> show ?thesis by auto
    next
      case False
      with "2.prems" have "c \<in> set rs \<union> set cs" by auto
      with "2.IH"(1) \<open>known_candidate rs d\<close> step show ?thesis by blast
    qed
  next
    case False
    with 2 show ?thesis by (auto split: if_splits)
  qed
qed

definition candidate_key :: "candidate \<Rightarrow> string \<times> string" where
  "candidate_key c = (cd_id c, cd_addr c)"

lemma known_candidate_key: "known_candidate cs c \<longleftrightarrow> candidate_key c \<in> candidate_key ` set cs"
  unfolding known_candidate_def candidate_key_def image_iff prod.inject by metis

lemma add_candidates_distinct:
  "add_candidates rs cs = (b, rs') \<Longrightarrow> distinct (map candidate_key rs) \<Longrightarrow> distinct (map candidate_key rs')"
  by (induction rs cs rule: add_candidates.induct) (auto simp: known_candidate_key split: if_splits)

section \<open>Properties\<close>

text \<open>
  C14. After any sequence of calls with any clock readings, the store holds at most its
  capacity of negotiations, each filed under its own peer, with a session, one of the two
  roles, and at most 32 local and 32 remote candidates, all of them valid.
\<close>

theorem negotiation_store_invariant:
  "let st = foldl (negotiation_step ok) (NewNegotiationStore capacity ttl) ops in
     int (length (ns_entries st)) \<le> ns_capacity st \<and> gm_ok (ns_entries st) \<and>
     list_all (\<lambda>(p, n). negotiation_ok ok p n) (ns_entries st)"
proof -
  have "store_inv ok (NewNegotiationStore capacity ttl)"
    by (simp add: store_inv_def NewNegotiationStore_def)
  then have "store_inv ok (foldl (negotiation_step ok) (NewNegotiationStore capacity ttl) ops)"
    by (rule negotiations.run_inv)
  then show ?thesis by (simp add: store_inv_def list_all_iff Let_def)
qed

text \<open>
  C15. BeginCheck grants exclusive ownership of the connectivity checks: once it has
  granted a peer's session, then as long as the owner has not completed, failed or deleted
  that session, no other call in any order and at any time (expiry included) makes a
  second BeginCheck for the peer succeed, under that or another session, and the
  negotiation the owner got stays in the store unchanged.
\<close>

theorem begin_check_exclusive:
  assumes "store_inv ok st" "BeginCheck now p s st = (Some n, st')"
    and "\<forall>e \<in> set ops. \<not> releases p s e"
  shows "fst (BeginCheck later p s' (foldl (negotiation_step ok) st' ops)) = None \<and>
    gm_get (ns_entries (foldl (negotiation_step ok) st' ops)) p = Some n"
proof -
  note granted = begin_check_granted [OF assms(1,2)]
  have kept: "gm_get (ns_entries (foldl (negotiation_step ok) st' ops)) p = Some n"
    using granted assms(3) by (intro entry_kept_run) (auto simp: retained_def)
  have "store_inv ok (foldl (negotiation_step ok) st' ops)"
    using granted(4) by (rule negotiations.run_inv)
  then have "gm_ok (ns_entries (foldl (negotiation_step ok) st' ops))" by simp
  with kept granted(3) show ?thesis
    by (simp add: BeginCheck_def Let_def gm_get_expire retained_def)
qed

abbreviation demo_store :: negotiation_store where
  "demo_store \<equiv> \<lparr>ns_entries = [(''b'', \<lparr>ng_peer = ''b'', ng_session = ''s'', ng_role = NegotiationControlling,
     ng_state = NegotiationPending, ng_local = [], ng_remote = [], ng_expires = 10\<rparr>)], ns_capacity = 2, ns_ttl = 10\<rparr>"

lemma demo_store_inv: "store_inv ok demo_store"
  by (simp add: store_inv_def negotiation_ok_def gm_ok_def)

theorem begin_check_exclusive_witness:
  "fst (BeginCheck 99 ''b'' ''s'' (foldl (negotiation_step (\<lambda>_. True)) (snd (BeginCheck 1 ''b'' ''s'' demo_store))
     [OpLen 50, OpDelete ''b'' ''old'', OpBeginCheck 60 ''b'' ''s''])) = None"
  by (rule begin_check_exclusive [where now = 1 and p = "''b''" and s = "''s''", THEN conjunct1, OF demo_store_inv])
     (auto simp: BeginCheck_def expireLocked_def gm_keep_def retained_def Let_def)

text \<open>
  Messages are bound to the session that created the exchange: calls that name another
  peer, or the same peer under a stale or forged session, in any number and order, leave a
  live negotiation exactly as it was, unless the clock runs past its expiry.
\<close>

theorem negotiation_session_bound:
  assumes "store_inv ok st" "gm_get (ns_entries st) p = Some n"
    and "\<forall>e \<in> set ops. op_names e \<noteq> Some (p, ng_session n)"
    and "\<forall>e \<in> set ops. \<forall>t. op_time e = Some t \<longrightarrow> t < ng_expires n"
  shows "gm_get (ns_entries (foldl (negotiation_step ok) st ops)) p = Some n"
  using assms by (intro entry_kept_run) (auto simp: retained_def)

theorem negotiation_session_bound_witness:
  "gm_get (ns_entries (foldl (negotiation_step (\<lambda>_. True)) demo_store
     [OpBeginCheck 3 ''b'' ''old'', OpDelete ''b'' ''old'', OpStart 4 ''c'' NegotiationControlled ''t'' [] []])) ''b'' =
   Some (snd (hd (ns_entries demo_store)))"
  using negotiation_session_bound [OF demo_store_inv, of "''b''" "snd (hd (ns_entries demo_store))"
      "[OpBeginCheck 3 ''b'' ''old'', OpDelete ''b'' ''old'', OpStart 4 ''c'' NegotiationControlled ''t'' [] []]" "\<lambda>_. True"]
  by simp

text \<open>
  A replayed Start never rolls a session back: for a live negotiation it returns the
  stored one, whatever its state, and changes no live entry; under another session it is
  refused, also without a change.
\<close>

theorem start_idempotent:
  assumes "store_inv ok st" "gm_get (ns_entries st) p = Some n" "retained now n"
    and "p \<noteq> []" "session \<noteq> []" "role = NegotiationControlling \<or> role = NegotiationControlled"
    and "length locals \<le> 32" "length remotes \<le> 32" "\<forall>c \<in> set (locals @ remotes). candidate_ok ok c"
  shows "Start ok now p role session locals remotes st =
    (if session = ng_session n then Inr n else Inl AlreadyActive, expireLocked now st)"
proof -
  have "first_invalid ok (locals @ remotes) = None" using assms(9) by (simp add: first_invalid_iff)
  moreover have "gm_get (ns_entries (expireLocked now st)) p = Some n"
    using assms(1-3) by (simp add: gm_get_expire)
  ultimately show ?thesis
    using assms(4-8) by (auto simp: Start_def MaxICECandidates_def)
qed

theorem start_idempotent_witness:
  "Start (\<lambda>_. True) 5 ''b'' NegotiationControlled ''s'' [] [] demo_store =
   (Inr (snd (hd (ns_entries demo_store))), expireLocked 5 demo_store)"
  using start_idempotent [OF demo_store_inv, of "''b''" "snd (hd (ns_entries demo_store))" 5 "''s''"
      NegotiationControlled "[]" "[]" "\<lambda>_. True"]
  by (simp add: retained_def)

text \<open>
  AddRemote merges a batch: on success the new list extends the old one with batch
  members only, represents every candidate of the batch by ID and address, introduces no
  duplicate and stays within 32, and the expiry is pushed to the time to live from now.
\<close>

theorem add_remote_merges:
  assumes "store_inv ok st" "AddRemote ok now p s cs st = (Inr n', st')"
  shows "\<exists>n extra. gm_get (ns_entries st) p = Some n \<and> gm_get (ns_entries st') p = Some n' \<and>
    n' = n\<lparr>ng_remote := ng_remote n @ extra, ng_expires := now + ns_ttl st\<rparr> \<and> set extra \<subseteq> set cs \<and>
    (\<forall>c \<in> set cs. candidate_key c \<in> candidate_key ` set (ng_remote n')) \<and>
    (distinct (map candidate_key (ng_remote n)) \<longrightarrow> distinct (map candidate_key (ng_remote n'))) \<and>
    length (ng_remote n') \<le> 32"
proof -
  obtain n rs where n: "gm_get (ns_entries st) p = Some n" and rs: "add_candidates (ng_remote n) cs = (True, rs)"
    and n': "n' = n\<lparr>ng_remote := rs, ng_expires := now + ns_ttl st\<rparr>" "gm_get (ns_entries st') p = Some n'"
    using assms
    by (auto simp: AddRemote_def Let_def gm_get_expire split: option.splits if_splits prod.splits bool.splits)
  have "store_inv ok st'" using store_inv_AddRemote [OF assms(1), of now p s cs] assms(2) by simp
  then have "length rs \<le> 32" using store_inv_get [OF _ n'(2)] n'(1) by (simp add: negotiation_ok_def)
  with n n' add_candidates_extends [OF rs] add_candidates_known [OF rs] add_candidates_distinct [OF rs]
  show ?thesis by (fastforce simp: known_candidate_key)
qed

theorem add_remote_merges_witness:
  "\<exists>n extra. gm_get (ns_entries demo_store) ''b'' = Some n \<and>
    ng_remote (snd (hd (ns_entries (snd (AddRemote (\<lambda>_. True) 2 ''b'' ''s'' [demo_candidate, demo_candidate] demo_store))))) =
      ng_remote n @ extra \<and> length (ng_remote n @ extra) = 1"
proof -
  let ?n = "(snd (hd (ns_entries demo_store)))\<lparr>ng_remote := [demo_candidate], ng_expires := 12\<rparr>"
  let ?st = "demo_store\<lparr>ns_entries := [(''b'', ?n)]\<rparr>"
  have "AddRemote (\<lambda>_. True) 2 ''b'' ''s'' [demo_candidate, demo_candidate] demo_store = (Inr ?n, ?st)"
    by (simp add: AddRemote_def ValidateCandidate_def validCandidateType_def MaxICECandidates_def
        expireLocked_def gm_keep_def retained_def known_candidate_def Let_def)
  from add_remote_merges [OF demo_store_inv this] this show ?thesis by auto
qed

end
