(* ===== verification/Turn_Codec.thy ===== *)
theory Turn_Codec
  imports Stun
begin

text \<open>
  The TURN wire format of \<^verbatim>\<open>cmd/p2p/turn_provider.go\<close>: STUN messages and their
  attributes, the long-term credential MESSAGE-INTEGRITY, XOR addresses, the framing of
  stream transports, request/response exchanges, and the validation of the provider's
  configuration. HMAC-SHA1 and MD5 are arguments. The visitor of \<^verbatim>\<open>turnAttributes\<close>
  is a function on the state it captures that also says whether to go on.
\<close>

section \<open>Constants\<close>

abbreviation turnHeaderSize :: nat where "turnHeaderSize \<equiv> 20"
abbreviation turnMaxPacket :: nat where "turnMaxPacket \<equiv> 65536"
abbreviation turnMethodAllocate :: u16 where "turnMethodAllocate \<equiv> 0x003"
abbreviation turnMethodRefresh :: u16 where "turnMethodRefresh \<equiv> 0x004"
abbreviation turnMethodSend :: u16 where "turnMethodSend \<equiv> 0x006"
abbreviation turnMethodData :: u16 where "turnMethodData \<equiv> 0x007"
abbreviation turnMethodCreatePermission :: u16 where "turnMethodCreatePermission \<equiv> 0x008"
abbreviation turnMethodChannelBind :: u16 where "turnMethodChannelBind \<equiv> 0x009"
abbreviation turnClassRequest :: u16 where "turnClassRequest \<equiv> 0"
abbreviation turnClassIndication :: u16 where "turnClassIndication \<equiv> 1"
abbreviation turnClassSuccess :: u16 where "turnClassSuccess \<equiv> 2"
abbreviation turnClassError :: u16 where "turnClassError \<equiv> 3"
abbreviation turnAttrUsername :: u16 where "turnAttrUsername \<equiv> 0x0006"
abbreviation turnAttrMessageIntegrity :: u16 where "turnAttrMessageIntegrity \<equiv> 0x0008"
abbreviation turnAttrErrorCode :: u16 where "turnAttrErrorCode \<equiv> 0x0009"
abbreviation turnAttrChannelNumber :: u16 where "turnAttrChannelNumber \<equiv> 0x000c"
abbreviation turnAttrLifetime :: u16 where "turnAttrLifetime \<equiv> 0x000d"
abbreviation turnAttrXORPeerAddress :: u16 where "turnAttrXORPeerAddress \<equiv> 0x0012"
abbreviation turnAttrData :: u16 where "turnAttrData \<equiv> 0x0013"
abbreviation turnAttrRealm :: u16 where "turnAttrRealm \<equiv> 0x0014"
abbreviation turnAttrNonce :: u16 where "turnAttrNonce \<equiv> 0x0015"
abbreviation turnAttrXORRelayedAddress :: u16 where "turnAttrXORRelayedAddress \<equiv> 0x0016"
abbreviation turnAttrRequestedTransport :: u16 where "turnAttrRequestedTransport \<equiv> 0x0019"

type_synonym turn_attribute = "u16 \<times> bytes"

datatype turn_error =
    TurnMessageSize | TurnCookie | TurnLength | TurnAttrHeader | TurnAttrTruncated | TurnIncompleteChallenge
  | TurnShortAddress | TurnFamily | TurnAddressMissing | TurnInvalidAddress
  | TurnChannelTruncated | TurnStreamEOF | TurnStreamLength | TurnStreamChannel | TurnStreamPrefix
  | TurnShortWrite | TurnWrite | TurnRead | TurnDeadline | TurnContext | TurnTxMismatch | TurnTimeout
  | TurnConfig string | TurnRandom | TurnRejected nat | TurnMethodMismatch | TurnUnauthenticated | TurnExpired
  | TurnClosed | TurnAlreadyConnected | TurnNil | TurnTooLarge | TurnDuplicate | TurnDial | TurnTLS | TurnResolve
  | TurnChannelRejected nat | TurnNoRelay

section \<open>Messages\<close>

definition turnType :: "u16 \<Rightarrow> u16 \<Rightarrow> u16" where
  "turnType mth cls =
     (mth AND 0x000f) OR push_bit 1 (mth AND 0x0070) OR push_bit 2 (mth AND 0x0f80) OR
     push_bit 4 (cls AND 1) OR push_bit 7 (cls AND 2)"

definition turnDecodeType :: "u16 \<Rightarrow> u16 \<times> u16" where
  "turnDecodeType ty =
     ((ty AND 0x000f) OR (drop_bit 1 ty AND 0x0070) OR (drop_bit 2 ty AND 0x0f80),
      (drop_bit 4 ty AND 1) OR (drop_bit 7 ty AND 2))"

definition turnAppendAttribute :: "bytes \<Rightarrow> u16 \<Rightarrow> bytes \<Rightarrow> bytes" where
  "turnAppendAttribute b ty value =
     (let padding = (4 - length value mod 4) mod 4
      in b @ put16 ty @ put16 (word_of_nat (length value)) @ value @ replicate padding 0)"

text \<open>The length field is written at the end, when the size of the message is known.\<close>

definition set_length :: "bytes \<Rightarrow> nat \<Rightarrow> bytes" where
  "set_length b n = take 2 b @ put16 (word_of_nat n) @ drop 4 b"

definition turnMessage :: "u16 \<Rightarrow> u16 \<Rightarrow> bytes \<Rightarrow> turn_attribute list \<Rightarrow> bytes" where
  "turnMessage mth cls tx attrs =
     (let b = put16 (turnType mth cls) @ [0, 0] @ put32 magicCookie @ tx;
          b = foldl (\<lambda>b (ty, v). turnAppendAttribute b ty v) b attrs
      in set_length b (length b - turnHeaderSize))"

type_synonym mac = "bytes \<Rightarrow> bytes \<Rightarrow> bytes" \<comment> \<open>key, message\<close>

definition turnAuthenticatedMessage ::
  "mac \<Rightarrow> u16 \<Rightarrow> u16 \<Rightarrow> bytes \<Rightarrow> turn_attribute list \<Rightarrow> string \<Rightarrow> string \<Rightarrow> string \<Rightarrow> bytes \<Rightarrow> bytes" where
  "turnAuthenticatedMessage hmac mth cls tx attrs username realm nonce key =
     (let attrs = attrs @ [(turnAttrUsername, bytes_of username), (turnAttrRealm, bytes_of realm),
                           (turnAttrNonce, bytes_of nonce)];
          b = turnMessage mth cls tx attrs;
          b = set_length b (length b - turnHeaderSize + 24)
      in turnAppendAttribute b turnAttrMessageIntegrity (hmac key b))"

definition turnLongTermKey :: "(bytes \<Rightarrow> bytes) \<Rightarrow> string \<Rightarrow> string \<Rightarrow> string \<Rightarrow> bytes" where
  "turnLongTermKey md5 username realm password = md5 (bytes_of (username @ '':'' @ realm @ '':'' @ password))"

definition turnValidateMessage :: "bytes \<Rightarrow> turn_error option" where
  "turnValidateMessage m =
     (if length m < turnHeaderSize \<or> length m > turnMaxPacket then Some TurnMessageSize
      else if get32 (slice m 4 8) \<noteq> magicCookie then Some TurnCookie
      else let len = unat (get16 (slice m 2 4)) in
        if len mod 4 \<noteq> 0 \<or> len \<noteq> length m - turnHeaderSize then Some TurnLength else None)"

type_synonym 's visitor = "'s \<Rightarrow> u16 \<Rightarrow> bytes \<Rightarrow> nat \<Rightarrow> 's \<times> bool"

function attribute_loop :: "bytes \<Rightarrow> 's visitor \<Rightarrow> nat \<Rightarrow> 's \<Rightarrow> 's \<times> turn_error option" where
  "attribute_loop m visit off s =
     (if off < length m then
        if off + 4 > length m then (s, Some TurnAttrHeader)
        else
          let ty = get16 (drop off m); len = unat (get16 (drop (off + 2) m)); valueStart = off + 4 in
          if valueStart + len > length m then (s, Some TurnAttrTruncated)
          else
            let (s, continue) = visit s ty (slice m valueStart (valueStart + len)) off in
            if \<not> continue then (s, None)
            else if ty = turnAttrMessageIntegrity then (s, None)
            else attribute_loop m visit (valueStart + pad4 len) s
      else (s, None))"
  by pat_completeness auto
termination by (relation "measure (\<lambda>(m, visit, off, s). length m - off)") auto

definition turnAttributes :: "bytes \<Rightarrow> 's visitor \<Rightarrow> 's \<Rightarrow> 's \<times> turn_error option" where
  "turnAttributes m visit s =
     (case turnValidateMessage m of Some e \<Rightarrow> (s, Some e) | None \<Rightarrow> attribute_loop m visit turnHeaderSize s)"

definition error_code :: "bytes \<Rightarrow> nat" where
  "error_code value = unat (value ! 2 AND 7) * 100 + unat (value ! 3)"

definition challenge_visit :: "(nat \<times> string \<times> string) visitor" where
  "challenge_visit s ty value off =
     (let (code, realm, nonce) = s in
      (if ty = turnAttrErrorCode then (if length value \<ge> 4 then (error_code value, realm, nonce) else s)
       else if ty = turnAttrRealm then (code, string_of value, nonce)
       else if ty = turnAttrNonce then (code, realm, string_of value)
       else s, True))"

text \<open>Code, realm and nonce, with the error that Go returns beside them.\<close>

definition turnChallenge :: "bytes \<Rightarrow> (nat \<times> string \<times> string) \<times> turn_error option" where
  "turnChallenge m =
     (case turnAttributes m challenge_visit (0, [], []) of
        (_, Some e) \<Rightarrow> ((0, [], []), Some e)
      | ((code, realm, nonce), None) \<Rightarrow>
          ((code, realm, nonce), if code = 0 \<or> realm = [] \<or> nonce = [] then Some TurnIncompleteChallenge else None))"

definition turnErrorCode :: "bytes \<Rightarrow> nat" where
  "turnErrorCode m = fst (turnAttributes m (\<lambda>code ty value off.
     if ty = turnAttrErrorCode \<and> length value \<ge> 4 then (error_code value, False) else (code, True)) 0)"

definition turnVerifyIntegrity :: "mac \<Rightarrow> bytes \<Rightarrow> bytes \<Rightarrow> bool" where
  "turnVerifyIntegrity hmac m key = fst (turnAttributes m (\<lambda>valid ty value off.
     if ty \<noteq> turnAttrMessageIntegrity \<or> length value \<noteq> 20 then (valid, True)
     else (value = hmac key (set_length (take off m) (off + 24 - turnHeaderSize)), False)) False)"

definition turnLifetime :: "bytes \<Rightarrow> time" where
  "turnLifetime m = fst (turnAttributes m (\<lambda>lifetime ty value off.
     (if ty = turnAttrLifetime \<and> length value = 4 then int (unat (get32 value)) * second else lifetime, True))
     (600 * second))"

section \<open>Addresses\<close>

text \<open>A \<^verbatim>\<open>net.UDPAddr\<close>: the bytes of its IP and its port, a Go int.\<close>

record udp_addr =
  ua_ip :: bytes
  ua_port :: int

text \<open>\<^verbatim>\<open>IP.To4\<close>: four bytes, or sixteen with the IPv4-in-IPv6 prefix.\<close>

definition ip_to4 :: "bytes \<Rightarrow> bytes option" where
  "ip_to4 ip =
     (if length ip = 4 then Some ip
      else if length ip = 16 \<and> take 10 ip = replicate 10 0 \<and> slice ip 10 12 = [0xff, 0xff] then Some (drop 12 ip)
      else None)"

definition xor_mask :: "bytes \<Rightarrow> bytes" where
  "xor_mask tx = put32 magicCookie @ tx"

definition turnDecodeXORAddress :: "bytes \<Rightarrow> bytes \<Rightarrow> turn_error + udp_addr" where
  "turnDecodeXORAddress value tx =
     (if length value < 8 then Inl TurnShortAddress
      else
        let port = int (unat (get16 (slice value 2 4) XOR 0x2112)); mask = xor_mask tx in
        if value ! 1 = 1 then Inr \<lparr>ua_ip = map2 (XOR) (slice value 4 8) (take 4 mask), ua_port = port\<rparr>
        else if value ! 1 = 2 then
          (if length value < 20 then Inl TurnShortAddress
           else Inr \<lparr>ua_ip = map2 (XOR) (slice value 4 20) (take 16 mask), ua_port = port\<rparr>)
        else Inl TurnFamily)"

definition turnEncodeXORAddress :: "udp_addr option \<Rightarrow> bytes \<Rightarrow> turn_error + bytes" where
  "turnEncodeXORAddress addr tx =
     (case addr of None \<Rightarrow> Inl TurnInvalidAddress
      | Some a \<Rightarrow>
          if ua_port a \<le> 0 then Inl TurnInvalidAddress
          else
            let mask = xor_mask tx; port = put16 (word_of_int (ua_port a) XOR 0x2112) in
            case ip_to4 (ua_ip a) of
              Some ip \<Rightarrow> Inr ([0, 1] @ port @ map2 (XOR) ip (take 4 mask))
            | None \<Rightarrow>
                if length (ua_ip a) = 16 then Inr ([0, 2] @ port @ map2 (XOR) (ua_ip a) (take 16 mask))
                else Inl TurnInvalidAddress)"

definition turnAddressAttribute :: "bytes \<Rightarrow> u16 \<Rightarrow> turn_error + udp_addr" where
  "turnAddressAttribute m wanted =
     (case turnAttributes m (\<lambda>r ty value off.
             if ty \<noteq> wanted then (r, True) else (Some (turnDecodeXORAddress value (slice m 8 20)), False)) None of
        (_, Some e) \<Rightarrow> Inl e
      | (None, None) \<Rightarrow> Inl TurnAddressMissing
      | (Some (Inl e), None) \<Rightarrow> Inl e
      | (Some (Inr a), None) \<Rightarrow> Inr a)"

section \<open>Framing\<close>

definition is_channel :: "bytes \<Rightarrow> bool" where
  "is_channel m \<longleftrightarrow> length m \<ge> 4 \<and> get16 m AND 0xc000 = 0x4000"

text \<open>What \<^verbatim>\<open>turnWire.write\<close> puts on a stream.\<close>

definition stream_frame :: "bytes \<Rightarrow> turn_error + bytes" where
  "stream_frame m =
     (if is_channel m then
        let len = unat (get16 (slice m 2 4)) in
        if len > length m - 4 then Inl TurnChannelTruncated
        else Inr (take (4 + len) m @ replicate ((4 - len mod 4) mod 4) 0)
      else Inr m)"

text \<open>
  The loop over partial writes, for a connection that accepts the given numbers of bytes;
  an empty list is a connection that takes all.
\<close>

fun write_all :: "nat list \<Rightarrow> bytes \<Rightarrow> turn_error + bytes" where
  "write_all ns [] = Inr []"
| "write_all [] frame = Inr frame"
| "write_all (n # ns) frame =
     (if n = 0 then Inl TurnShortWrite
      else case write_all ns (drop n frame) of Inl e \<Rightarrow> Inl e | Inr rest \<Rightarrow> Inr (take n frame @ rest))"

definition wire_write :: "bool \<Rightarrow> nat list \<Rightarrow> bytes \<Rightarrow> turn_error + bytes" where
  "wire_write stream ns m =
     (if \<not> stream then
        (case ns of [] \<Rightarrow> Inr m | n # _ \<Rightarrow> if n < length m then Inl TurnShortWrite else Inr m)
      else case stream_frame m of Inl e \<Rightarrow> Inl e | Inr frame \<Rightarrow> write_all ns frame)"

text \<open>\<^verbatim>\<open>io.ReadFull\<close> from the bytes of a stream: what was read and what is left.\<close>

definition read_full :: "nat \<Rightarrow> bytes \<Rightarrow> turn_error + (bytes \<times> bytes)" where
  "read_full n input = (if length input < n then Inl TurnStreamEOF else Inr (take n input, drop n input))"

definition stream_read :: "bytes \<Rightarrow> turn_error + (bytes \<times> bytes)" where
  "stream_read input =
     (case read_full 4 input of Inl e \<Rightarrow> Inl e
      | Inr (first, input) \<Rightarrow>
          if hd first AND 0xc0 = 0x00 then
            (case read_full (turnHeaderSize - 4) input of Inl e \<Rightarrow> Inl e
             | Inr (tail, input) \<Rightarrow>
                 let header = first @ tail; len = unat (get16 (slice header 2 4)) in
                 if len mod 4 \<noteq> 0 \<or> len > turnMaxPacket - turnHeaderSize then Inl TurnStreamLength
                 else case read_full len input of Inl e \<Rightarrow> Inl e
                   | Inr (body, input) \<Rightarrow> Inr (header @ body, input))
          else if hd first AND 0xc0 = 0x40 then
            (let channel = get16 first in
             if channel < 0x4000 \<or> channel > 0x7fff then Inl TurnStreamChannel
             else let len = unat (get16 (slice first 2 4)) in
               if len > turnMaxPacket - 4 then Inl TurnStreamLength
               else case read_full (pad4 len) input of Inl e \<Rightarrow> Inl e
                 | Inr (body, input) \<Rightarrow> Inr (first @ take len body, input))
          else Inl TurnStreamPrefix)"

text \<open>A packet transport returns one datagram of at most the buffer's size.\<close>

definition packet_read :: "bytes \<Rightarrow> bytes" where
  "packet_read datagram = take turnMaxPacket datagram"

section \<open>Exchanges\<close>

text \<open>
  One attempt of \<^verbatim>\<open>turnExchangeRetry\<close> as its environment sees it: the context is
  over, the deadline cannot be set, the write fails, or the reads of the attempt, where
  the end of the list is the read that fails at the deadline.
\<close>

datatype exchange_attempt = ExchangeContextDone | ExchangeDeadlineFailed | ExchangeWriteFailed | ExchangeReads "bytes list"

fun exchange_reads :: "bytes \<Rightarrow> bytes list \<Rightarrow> bytes option" where
  "exchange_reads tx [] = None"
| "exchange_reads tx (m # ms) =
     (if turnValidateMessage m \<noteq> None then exchange_reads tx ms
      else if slice m 8 20 \<noteq> tx then exchange_reads tx ms
      else Some m)"

fun exchange_attempts :: "bytes \<Rightarrow> exchange_attempt list \<Rightarrow> turn_error + bytes" where
  "exchange_attempts tx [] = Inl TurnTimeout"
| "exchange_attempts tx (ExchangeContextDone # es) = Inl TurnContext"
| "exchange_attempts tx (ExchangeDeadlineFailed # es) = Inl TurnDeadline"
| "exchange_attempts tx (ExchangeWriteFailed # es) = exchange_attempts tx es"
| "exchange_attempts tx (ExchangeReads ms # es) =
     (case exchange_reads tx ms of Some m \<Rightarrow> Inr m | None \<Rightarrow> exchange_attempts tx es)"

definition exchange_budget :: "bool \<Rightarrow> nat \<Rightarrow> nat" where
  "exchange_budget stream retransmits = (if stream then 1 else retransmits + 1)"

text \<open>The errors of failed attempts are one error here: whichever came last in Go.\<close>

definition turnExchangeRetry :: "bool \<Rightarrow> nat \<Rightarrow> bytes \<Rightarrow> (nat \<Rightarrow> exchange_attempt) \<Rightarrow> turn_error + bytes" where
  "turnExchangeRetry stream retransmits tx env =
     exchange_attempts tx (map env [0..<exchange_budget stream retransmits])"

section \<open>Intervals\<close>

definition turnPendingAllocationTTL :: "time \<Rightarrow> time" where
  "turnPendingAllocationTTL lifetime =
     (let ttl = 30 * second; half = lifetime div 2;
          ttl = (if half > 0 \<and> half < ttl then half else ttl)
      in if ttl < second then second else ttl)"

definition safeTURNRefreshInterval :: "time \<Rightarrow> time \<Rightarrow> time" where
  "safeTURNRefreshInterval requested lifetime =
     (if lifetime \<le> 0 then second
      else
        let maximum = lifetime div 2;
            maximum = (if maximum > 240 * second then 240 * second else maximum);
            maximum = (if maximum \<le> 0 then lifetime else maximum);
            minimum = (if maximum < second then maximum else second)
        in if requested \<le> 0 \<or> requested > maximum then maximum
           else if requested < minimum then minimum
           else requested)"

declare attribute_loop.simps [simp del]


section \<open>Configuration\<close>

abbreviation TURNTransportUDP :: string where "TURNTransportUDP \<equiv> ''udp''"
abbreviation TURNTransportTCP :: string where "TURNTransportTCP \<equiv> ''tcp''"
abbreviation TURNTransportTLS :: string where "TURNTransportTLS \<equiv> ''tls''"

record turn_config =
  tc_server :: string
  tc_username :: string
  tc_password :: string
  tc_transport :: string
  tc_tls_config :: "string option" \<comment> \<open>the server name of a given \<^verbatim>\<open>tls.Config\<close>\<close>
  tc_tls_server_name :: string
  tc_timeout :: time
  tc_refresh_interval :: time
  tc_max_datagram :: int
  tc_retransmits :: int
  tc_enable_channel :: bool
  tc_channel :: u16

definition tls_name_ok :: "turn_config \<Rightarrow> string \<Rightarrow> bool" where
  "tls_name_ok cfg serverHost =
     (let name = (if tc_tls_server_name cfg = [] then (case tc_tls_config cfg of Some n \<Rightarrow> n | None \<Rightarrow> []) else tc_tls_server_name cfg);
          name = (if name = [] then serverHost else name)
      in \<not> (blank name \<or> list_ex (\<lambda>c. c = CHR '' '' \<or> (of_char c :: nat) \<in> {9, 10, 13}) name))"

definition NewTURNRelayProvider :: "turn_config \<Rightarrow> turn_error + turn_config" where
  "NewTURNRelayProvider cfg =
     (if blank (tc_server cfg) then Inl (TurnConfig ''server'')
      else case SplitHostPort (tc_server cfg) of
        None \<Rightarrow> Inl (TurnConfig ''host'')
      | Some (serverHost, serverPort) \<Rightarrow>
          if blank serverHost then Inl (TurnConfig ''host'')
          else case parse_int64 serverPort of
            None \<Rightarrow> Inl (TurnConfig ''port'')
          | Some port \<Rightarrow>
              if port < 1 \<or> port > 65535 then Inl (TurnConfig ''port'')
              else if tc_username cfg = [] \<or> tc_password cfg = [] then Inl (TurnConfig ''credentials'')
              else
                let cfg = (if tc_transport cfg = [] then cfg\<lparr>tc_transport := TURNTransportUDP\<rparr> else cfg) in
                if tc_transport cfg \<noteq> TURNTransportUDP \<and> tc_transport cfg \<noteq> TURNTransportTCP \<and> tc_transport cfg \<noteq> TURNTransportTLS
                then Inl (TurnConfig ''transport'')
                else if tc_transport cfg = TURNTransportTLS \<and> \<not> tls_name_ok cfg serverHost then Inl (TurnConfig ''name'')
                else if tc_channel cfg \<noteq> 0 \<and> (tc_channel cfg < 0x4000 \<or> tc_channel cfg > 0x7fff) then Inl (TurnConfig ''channel'')
                else
                  let cfg = (if tc_timeout cfg \<le> 0 then cfg\<lparr>tc_timeout := 5 * second\<rparr> else cfg);
                      cfg = (if tc_max_datagram cfg \<le> 0 then cfg\<lparr>tc_max_datagram := 65046\<rparr> else cfg)
                  in if tc_max_datagram cfg > int turnMaxPacket - 128 then Inl (TurnConfig ''datagram'')
                     else if tc_retransmits cfg < 0 then Inl (TurnConfig ''retransmits'')
                     else let cfg = (if tc_retransmits cfg = 0 then cfg\<lparr>tc_retransmits := 3\<rparr> else cfg) in
                       if tc_retransmits cfg > 8 then Inl (TurnConfig ''retransmits'')
                       else Inr cfg)"

definition turn_config_ok :: "turn_config \<Rightarrow> bool" where
  "turn_config_ok cfg \<longleftrightarrow> 0 < tc_timeout cfg \<and> 0 < tc_max_datagram cfg \<and> tc_max_datagram cfg \<le> 65408 \<and>
     1 \<le> tc_retransmits cfg \<and> tc_retransmits cfg \<le> 8 \<and> tc_username cfg \<noteq> [] \<and> tc_password cfg \<noteq> [] \<and>
     (tc_channel cfg = 0 \<or> 0x4000 \<le> unat (tc_channel cfg) \<and> unat (tc_channel cfg) \<le> 0x7fff)"

lemma refused_or: "((if refused then Inl e else x) = Inr y) \<longleftrightarrow> \<not> refused \<and> x = Inr y"
  by simp

lemma provider_config_ok:
  assumes "NewTURNRelayProvider cfg = Inr cfg'"
  shows "turn_config_ok cfg'"
proof -
  define c1 where "c1 = (if tc_transport cfg = [] then cfg\<lparr>tc_transport := TURNTransportUDP\<rparr> else cfg)"
  define c2 where "c2 = (if tc_timeout c1 \<le> 0 then c1\<lparr>tc_timeout := 5 * second\<rparr> else c1)"
  define c3 where "c3 = (if tc_max_datagram c2 \<le> 0 then c2\<lparr>tc_max_datagram := 65046\<rparr> else c2)"
  define c4 where "c4 = (if tc_retransmits c3 = 0 then c3\<lparr>tc_retransmits := 3\<rparr> else c3)"
  have guards: "\<not> (tc_username cfg = [] \<or> tc_password cfg = [])"
      "\<not> (tc_channel c1 \<noteq> 0 \<and> (tc_channel c1 < 0x4000 \<or> tc_channel c1 > 0x7fff))"
      "\<not> tc_max_datagram c3 > int turnMaxPacket - 128" "\<not> tc_retransmits c3 < 0" "\<not> tc_retransmits c4 > 8" "c4 = cfg'"
    using assms unfolding NewTURNRelayProvider_def Let_def c1_def [symmetric] c2_def [symmetric] c3_def [symmetric] c4_def [symmetric]
    by (auto simp only: refused_or sum.simps split: option.split_asm prod.split_asm)
  have "0 < tc_timeout c2" "tc_username c1 = tc_username cfg" "tc_password c1 = tc_password cfg"
    by (simp_all add: c2_def c1_def)
  moreover have "tc_timeout c4 = tc_timeout c2" "tc_username c4 = tc_username c1" "tc_password c4 = tc_password c1"
    "tc_channel c4 = tc_channel c1" "tc_max_datagram c4 = tc_max_datagram c3" "0 < tc_max_datagram c3" "1 \<le> tc_retransmits c4"
    using guards(4) by (simp_all add: c4_def c3_def c2_def)
  ultimately show ?thesis using guards by (simp add: turn_config_ok_def word_less_nat_alt not_less)
qed

section \<open>Facts on types and bits\<close>

lemma bits_below: "(n :: nat) < 16 \<Longrightarrow> n = 15 \<or> n = 0 \<or> n = 11 \<or> n = 4 \<or> n = 13 \<or> n = 2 \<or> n = 9 \<or> n = 6 \<or>
  n = 7 \<or> n = 8 \<or> n = 3 \<or> n = 12 \<or> n = 5 \<or> n = 10 \<or> n = 1 \<or> n = 14"
  by presburger

lemma high_bits_clear: "unat (w :: u16) < 2 ^ k \<Longrightarrow> k \<le> n \<Longrightarrow> \<not> bit w n"
proof -
  assume "unat w < 2 ^ k" "k \<le> n"
  then have "unat w < 2 ^ n" by (metis less_le_trans one_le_numeral power_increasing)
  then have "\<not> bit (unat w) n" by (simp add: bit_iff_odd)
  then show ?thesis by (simp add: bit_unsigned_iff)
qed

lemma turn_type_roundtrip:
  assumes "unat mth < 0x1000" "unat cls < 4"
  shows "turnDecodeType (turnType mth cls) = (mth, cls)"
proof -
  have m: "\<not> bit mth 12" "\<not> bit mth 13" "\<not> bit mth 14" "\<not> bit mth 15"
    using high_bits_clear [of mth 12] assms(1) by simp_all
  have double: "bit (mth * 2) 5 = bit mth 4" "bit (mth * 2) 6 = bit mth 5" "bit (mth * 2) 7 = bit mth 6"
    by (subst mult.commute, simp add: bit_double_iff)+
  have c: "n \<ge> 2 \<Longrightarrow> \<not> bit cls n" for n using high_bits_clear [of cls 2] assms(2) by simp
  have "fst (turnDecodeType (turnType mth cls)) = mth"
  proof (rule bit_word_eqI)
    fix n assume "n < LENGTH(16)"
    then have "n < 16" by simp
    from bits_below [OF this] show "bit (fst (turnDecodeType (turnType mth cls))) n \<longleftrightarrow> bit mth n"
      by (elim disjE) (simp_all add: turnDecodeType_def turnType_def bit_simps m double)
  qed
  moreover have "snd (turnDecodeType (turnType mth cls)) = cls"
  proof (rule bit_word_eqI)
    fix n assume "n < LENGTH(16)"
    then have "n < 16" by simp
    from bits_below [OF this] show "bit (snd (turnDecodeType (turnType mth cls))) n \<longleftrightarrow> bit cls n"
      by (elim disjE) (simp_all add: turnDecodeType_def turnType_def bit_simps c)
  qed
  ultimately show ?thesis by (simp add: prod_eq_iff)
qed

section \<open>Facts on messages\<close>

abbreviation encode_attrs :: "turn_attribute list \<Rightarrow> bytes" where
  "encode_attrs attrs \<equiv> concat (map (\<lambda>(t, v). stun_attr t v) attrs)"

text \<open>A message with the given type, transaction and body.\<close>

definition turn_frame :: "u16 \<Rightarrow> bytes \<Rightarrow> bytes \<Rightarrow> bytes" where
  "turn_frame ty tx body = put16 ty @ put16 (word_of_nat (length body)) @ put32 magicCookie @ tx @ body"

lemma append_attribute: "turnAppendAttribute b ty v = b @ stun_attr ty v"
  using pad4_eq [of "length v"] by (simp add: turnAppendAttribute_def stun_attr_def Let_def)

lemma append_attributes: "foldl (\<lambda>b (ty, v). turnAppendAttribute b ty v) b attrs = b @ encode_attrs attrs"
  by (induction attrs arbitrary: b) (auto simp: append_attribute)

lemma set_length_frame: "set_length (put16 ty @ len @ rest) n = put16 ty @ put16 (word_of_nat n) @ rest" if "length len = 2"
  using that by (simp add: set_length_def)

lemma turnMessage_frame:
  assumes "length tx = 12"
  shows "turnMessage mth cls tx attrs = turn_frame (turnType mth cls) tx (encode_attrs attrs)"
proof -
  let ?b = "put16 (turnType mth cls) @ [0, 0] @ put32 magicCookie @ tx @ encode_attrs attrs"
  have "turnMessage mth cls tx attrs = set_length ?b (length (encode_attrs attrs))"
    using assms by (simp add: turnMessage_def append_attributes Let_def)
  also have "\<dots> = turn_frame (turnType mth cls) tx (encode_attrs attrs)"
    by (simp add: set_length_frame turn_frame_def del: append.simps)
  finally show ?thesis .
qed

lemma frame_reads:
  assumes "length tx = 12" "length body < 65536"
  shows "get16 (turn_frame ty tx body) = ty" "unat (get16 (slice (turn_frame ty tx body) 2 4)) = length body"
    "get32 (slice (turn_frame ty tx body) 4 8) = magicCookie" "slice (turn_frame ty tx body) 8 20 = tx"
    "drop 20 (turn_frame ty tx body) = body" "length (turn_frame ty tx body) = 20 + length body"
proof -
  show "get16 (turn_frame ty tx body) = ty" by (simp add: turn_frame_def)
  have "slice (turn_frame ty tx body) 2 4 = put16 (word_of_nat (length body))" by (simp add: turn_frame_def slice_def)
  then show "unat (get16 (slice (turn_frame ty tx body) 2 4)) = length body"
    using assms(2) by (simp add: unat_of_nat)
  have "slice (turn_frame ty tx body) 4 8 = put32 magicCookie" by (simp add: turn_frame_def slice_def)
  then show "get32 (slice (turn_frame ty tx body) 4 8) = magicCookie" by simp
  show "slice (turn_frame ty tx body) 8 20 = tx" "drop 20 (turn_frame ty tx body) = body"
    "length (turn_frame ty tx body) = 20 + length body"
    using assms(1) by (simp_all add: turn_frame_def slice_def)
qed

lemma frame_valid:
  assumes "length tx = 12" "length body \<le> 65516" "length body mod 4 = 0"
  shows "turnValidateMessage (turn_frame ty tx body) = None"
  using frame_reads [OF assms(1), of body ty] assms(2,3) by (simp add: turnValidateMessage_def)

text \<open>What the visitor makes of a list of attributes: it may stop, and so does MESSAGE-INTEGRITY.\<close>

fun visit_all :: "'s visitor \<Rightarrow> nat \<Rightarrow> 's \<Rightarrow> turn_attribute list \<Rightarrow> 's" where
  "visit_all visit off s [] = s"
| "visit_all visit off s ((ty, v) # attrs) =
     (let (s, continue) = visit s ty v off
      in if \<not> continue \<or> ty = turnAttrMessageIntegrity then s else visit_all visit (off + 4 + pad4 (length v)) s attrs)"

lemma attribute_loop_visit:
  assumes "drop off m = encode_attrs attrs @ rest" "\<forall>(t, v) \<in> set attrs. length v < 65536"
    and "rest = [] \<or> turnAttrMessageIntegrity \<in> fst ` set attrs"
  shows "attribute_loop m visit off s = (visit_all visit off s attrs, None)"
  using assms
proof (induction attrs arbitrary: off s)
  case Nil
  then show ?case by (subst attribute_loop.simps) simp
next
  case (Cons tv attrs)
  obtain t v where tv: "tv = (t, v)" by fastforce
  let ?rest = "encode_attrs attrs @ rest"
  have d: "drop off m = stun_attr t v @ ?rest" and v: "length v < 65536" using Cons.prems by (auto simp: tv)
  note reads = attr_reads [OF d v]
  have "length (drop off m) = 4 + pad4 (length v) + length ?rest" unfolding d by simp
  then have len: "off < length m" "off + 4 + pad4 (length v) \<le> length m" by simp_all
  then have len4: "off + 4 \<le> length m" "off + 4 + length v \<le> length m" using pad4_bounds(1) [of "length v"] by simp_all
  have ty: "get16 (drop off m) = t" using reads(1) len4 by (simp add: u16_at_def)
  have ln: "unat (get16 (drop (off + 2) m)) = length v" using reads(2,3) len4 by (simp add: u16_at_def)
  have val: "slice m (off + 4) (off + 4 + length v) = v"
  proof -
    have "drop (off + 4) m = drop 4 (drop off m)" by (simp add: add.commute)
    then show ?thesis by (simp add: slice_def d stun_attr_def)
  qed
  obtain s' continue where visit: "visit s t v off = (s', continue)" by fastforce
  have step: "attribute_loop m visit off s = (if \<not> continue \<or> t = turnAttrMessageIntegrity then (s', None)
      else attribute_loop m visit (off + 4 + pad4 (length v)) s')"
    using len len4 visit by (subst attribute_loop.simps) (simp add: ty ln [simplified] val Let_def)
  show ?case
  proof (cases "\<not> continue \<or> t = turnAttrMessageIntegrity")
    case True
    with step visit show ?thesis by (auto simp: tv)
  next
    case False
    have "drop (off + 4 + pad4 (length v)) m = ?rest" using reads(6) .
    with False Cons.prems have "attribute_loop m visit (off + 4 + pad4 (length v)) s' =
        (visit_all visit (off + 4 + pad4 (length v)) s' attrs, None)"
      by (intro Cons.IH) (auto simp: tv)
    with step visit False show ?thesis by (simp add: tv)
  qed
qed

lemma turnAttributes_visit:
  assumes "length tx = 12" "length (encode_attrs attrs @ rest) \<le> 65516" "length rest mod 4 = 0"
    and "\<forall>(t, v) \<in> set attrs. length v < 65536" "rest = [] \<or> turnAttrMessageIntegrity \<in> fst ` set attrs"
  shows "turnAttributes (turn_frame ty tx (encode_attrs attrs @ rest)) visit s = (visit_all visit 20 s attrs, None)"
proof -
  have aligned: "length (encode_attrs attrs @ rest) mod 4 = 0"
    using concat_attrs_mod_4 [of attrs] assms(3) by (simp add: mod_add_eq [symmetric])
  have "length (encode_attrs attrs @ rest) < 65536" using assms(2) by simp
  then show ?thesis
    using frame_valid [OF assms(1,2) aligned] frame_reads(5) [OF assms(1)] assms(4,5)
    by (simp add: turnAttributes_def attribute_loop_visit)
qed

lemma attr_size: "length v \<le> length (stun_attr t v)"
  using pad4_bounds(1) [of "length v"] by simp

lemma attrs_small:
  assumes "length (encode_attrs attrs) \<le> 65516"
  shows "\<forall>(t, v) \<in> set attrs. length v < 65536"
proof clarify
  fix t v assume "(t, v) \<in> set attrs"
  then obtain xs ys where "attrs = xs @ (t, v) # ys" by (meson split_list)
  with assms attr_size [of v t] show "length v < 65536" by simp
qed

section \<open>Facts on integrity\<close>

lemma auth_message_frame:
  assumes "length tx = 12" "\<And>k m. length (hmac k m) = 20"
    and "attrs' = attrs @ [(turnAttrUsername, bytes_of username), (turnAttrRealm, bytes_of realm), (turnAttrNonce, bytes_of nonce)]"
  shows "turnAuthenticatedMessage hmac mth cls tx attrs username realm nonce key =
    turn_frame (turnType mth cls) tx (encode_attrs (attrs' @ [(turnAttrMessageIntegrity,
      hmac key (put16 (turnType mth cls) @ put16 (word_of_nat (length (encode_attrs attrs') + 24)) @
        put32 magicCookie @ tx @ encode_attrs attrs'))]))"
proof -
  let ?t = "turnType mth cls" and ?body = "encode_attrs attrs'"
  have b: "turnMessage mth cls tx attrs' = turn_frame ?t tx ?body" using assms(1) by (rule turnMessage_frame)
  have len: "length (turn_frame ?t tx ?body) - 20 + 24 = length ?body + 24" using assms(1) by (simp add: turn_frame_def)
  have set: "set_length (turn_frame ?t tx ?body) (length ?body + 24) =
      put16 ?t @ put16 (word_of_nat (length ?body + 24)) @ put32 magicCookie @ tx @ ?body"
    unfolding turn_frame_def by (rule set_length_frame) simp
  have mac: "length (encode_attrs [(turnAttrMessageIntegrity, hmac k x)]) = 24" for k x
    by (simp add: assms(2) pad4_def)
  show ?thesis
    unfolding turnAuthenticatedMessage_def Let_def assms(3) [symmetric] b len set append_attribute
    by (simp add: turn_frame_def mac [simplified] assms(2) pad4_def)
qed

lemma verify_visit:
  assumes "turnAttrMessageIntegrity \<notin> fst ` set before"
  shows "visit_all (\<lambda>valid ty value off. if ty \<noteq> turnAttrMessageIntegrity \<or> length value \<noteq> 20 then (valid, True)
      else (f value off, False)) off0 s (before @ [(turnAttrMessageIntegrity, mac)]) =
    (if length mac = 20 then f mac (off0 + length (encode_attrs before)) else s)"
  using assms
proof (induction before arbitrary: off0)
  case (Cons tv before)
  obtain t v where tv: "tv = (t, v)" by fastforce
  with Cons show ?case by (auto simp: Let_def add.assoc)
qed (simp add: Let_def)

lemma integrity_of_frame:
  assumes "length tx = 12" "length (encode_attrs before @ stun_attr turnAttrMessageIntegrity mac @ rest) \<le> 65516"
    and "length rest mod 4 = 0" "turnAttrMessageIntegrity \<notin> fst ` set before"
  shows "turnVerifyIntegrity hmac (turn_frame ty tx (encode_attrs before @ stun_attr turnAttrMessageIntegrity mac @ rest)) key \<longleftrightarrow>
    length mac = 20 \<and> mac = hmac key (put16 ty @ put16 (word_of_nat (length (encode_attrs before) + 24)) @
      put32 magicCookie @ tx @ encode_attrs before)"
proof -
  let ?attrs = "before @ [(turnAttrMessageIntegrity, mac)]"
  have enc: "encode_attrs before @ stun_attr turnAttrMessageIntegrity mac @ rest = encode_attrs ?attrs @ rest" by simp
  let ?m = "turn_frame ty tx (encode_attrs ?attrs @ rest)"
  have small: "\<forall>(t, v) \<in> set ?attrs. length v < 65536" by (rule attrs_small) (use assms(2) in simp)
  have size: "length (encode_attrs ?attrs @ rest) \<le> 65516" using assms(2) by simp
  have prefix: "set_length (take (20 + length (encode_attrs before)) ?m) (20 + length (encode_attrs before) + 24 - 20) =
      put16 ty @ put16 (word_of_nat (length (encode_attrs before) + 24)) @ put32 magicCookie @ tx @ encode_attrs before"
  proof -
    have "take (20 + length (encode_attrs before)) ?m =
        put16 ty @ put16 (word_of_nat (length (encode_attrs ?attrs @ rest))) @ put32 magicCookie @ tx @ encode_attrs before"
      using assms(1) by (simp add: turn_frame_def)
    then show ?thesis by (simp add: set_length_frame add.commute)
  qed
  have mi: "rest = [] \<or> turnAttrMessageIntegrity \<in> fst ` set ?attrs" by simp
  show ?thesis
    unfolding enc turnVerifyIntegrity_def turnAttributes_visit [OF assms(1) size assms(3) small mi] fst_conv
      verify_visit [OF assms(4)] prefix by simp
qed

section \<open>Facts on bytes of a frame\<close>

lemma byte_bit: "bit (a :: byte) n \<longleftrightarrow> odd (unat a div 2 ^ n)"
proof -
  have "bit (unat a) n \<longleftrightarrow> bit a n" by (simp add: bit_unsigned_iff)
  then show ?thesis by (simp add: bit_iff_odd)
qed

lemma top_two_bits:
  fixes u B :: nat
  assumes "0 < B" "u < 4 * B"
  shows "\<not> odd (u div B) \<and> \<not> odd (u div (2 * B)) \<longleftrightarrow> u < B"
    and "odd (u div B) \<and> \<not> odd (u div (2 * B)) \<longleftrightarrow> B \<le> u \<and> u < 2 * B"
proof -
  define q where "q = u div B"
  have q: "q < 4" using assms by (simp add: q_def div_less_iff_less_mult)
  have half: "u div (2 * B) = q div 2" by (simp add: q_def div_mult2_eq mult.commute)
  have "u < B \<longleftrightarrow> q < 1" "u < 2 * B \<longleftrightarrow> q < 2"
    using assms(1) div_less_iff_less_mult [of B u 1] div_less_iff_less_mult [of B u 2] by (simp_all add: q_def)
  moreover have "q = 0 \<or> q = 1 \<or> q = 2 \<or> q = 3" using q by linarith
  ultimately show "\<not> odd (u div B) \<and> \<not> odd (u div (2 * B)) \<longleftrightarrow> u < B"
    "odd (u div B) \<and> \<not> odd (u div (2 * B)) \<longleftrightarrow> B \<le> u \<and> u < 2 * B"
    unfolding half q_def [symmetric] by (auto simp: not_less [symmetric])
qed

lemma prefix_bits:
  fixes a :: byte
  shows "a AND 0xc0 = 0 \<longleftrightarrow> unat a < 64" "a AND 0xc0 = 0x40 \<longleftrightarrow> 64 \<le> unat a \<and> unat a < 128"
proof -
  have below: "n < 8 \<Longrightarrow> n = 7 \<or> n = 0 \<or> n = 5 \<or> n = 2 \<or> n = 3 \<or> n = 4 \<or> n = 1 \<or> n = (6 :: nat)" for n
    by presburger
  have zero: "a AND 0xc0 = 0 \<longleftrightarrow> \<not> bit a 6 \<and> \<not> bit a 7"
  proof
    assume "a AND 0xc0 = 0"
    then have "\<not> bit (a AND 0xc0) 6" "\<not> bit (a AND 0xc0) 7" by simp_all
    then show "\<not> bit a 6 \<and> \<not> bit a 7" by (simp add: bit_simps)
  next
    assume clear: "\<not> bit a 6 \<and> \<not> bit a 7"
    show "a AND 0xc0 = 0"
    proof (rule bit_word_eqI)
      fix n assume "n < LENGTH(8)"
      then have "n < 8" by simp
      from below [OF this] clear show "bit (a AND 0xc0) n = bit (0 :: byte) n" by (elim disjE) (simp_all add: bit_simps)
    qed
  qed
  have forty: "a AND 0xc0 = 0x40 \<longleftrightarrow> bit a 6 \<and> \<not> bit a 7"
  proof
    assume eq: "a AND 0xc0 = 0x40"
    have "bit (a AND 0xc0) 6" "\<not> bit (a AND 0xc0) 7" unfolding eq by simp_all
    then show "bit a 6 \<and> \<not> bit a 7" by (simp add: bit_simps)
  next
    assume bits: "bit a 6 \<and> \<not> bit a 7"
    show "a AND 0xc0 = 0x40"
    proof (rule bit_word_eqI)
      fix n assume "n < LENGTH(8)"
      then have "n < 8" by simp
      from below [OF this] bits show "bit (a AND 0xc0) n = bit (0x40 :: byte) n" by (elim disjE) (simp_all add: bit_simps)
    qed
  qed
  have "unat a < 256" by simp
  then show "a AND 0xc0 = 0 \<longleftrightarrow> unat a < 64" "a AND 0xc0 = 0x40 \<longleftrightarrow> 64 \<le> unat a \<and> unat a < 128"
    unfolding zero forty byte_bit using top_two_bits [of 64 "unat a"] by simp_all
qed

lemma get16_bytes: "unat (get16 (a # b # r)) = 256 * unat a + unat b"
proof -
  have "unat a < 256" "unat b < 256" by simp_all
  then have "256 * unat a + unat b < 65536" by linarith
  moreover have "be_decode (take 2 (a # b # r)) = 256 * unat a + unat b"
    by (simp add: be_decode_def numeral_2_eq_2)
  ultimately show ?thesis unfolding get16_def by (simp only: unat_of_nat) simp
qed

lemma get16_take: "2 \<le> n \<Longrightarrow> get16 (take n m) = get16 m"
  by (simp add: get16_def min_def)

lemma channel_byte:
  assumes "length m \<ge> 2"
  shows "hd m AND 0xc0 = 0x40 \<longleftrightarrow> 0x4000 \<le> unat (get16 m) \<and> unat (get16 m) < 0x8000"
proof -
  obtain a b r where m: "m = a # b # r" using assms by (cases m; cases "tl m") auto
  have "unat b < 256" by simp
  then show ?thesis unfolding m get16_bytes list.sel(1) prefix_bits(2) by presburger
qed

lemma word_bit: "bit (w :: u16) n \<longleftrightarrow> odd (unat w div 2 ^ n)"
proof -
  have "bit (unat w) n \<longleftrightarrow> bit w n" by (simp add: bit_unsigned_iff)
  then show ?thesis by (simp add: bit_iff_odd)
qed

lemma channel_word: "(w :: u16) AND 0xc000 = 0x4000 \<longleftrightarrow> 0x4000 \<le> unat w \<and> unat w < 0x8000"
proof -
  have "w AND 0xc000 = 0x4000 \<longleftrightarrow> bit w 14 \<and> \<not> bit w 15"
  proof
    assume eq: "w AND 0xc000 = 0x4000"
    have "bit (w AND 0xc000) 14" "\<not> bit (w AND 0xc000) 15" unfolding eq by simp_all
    then show "bit w 14 \<and> \<not> bit w 15" by (simp add: bit_simps)
  next
    assume bits: "bit w 14 \<and> \<not> bit w 15"
    show "w AND 0xc000 = 0x4000"
    proof (rule bit_word_eqI)
      fix n assume "n < LENGTH(16)"
      then have "n < 16" by simp
      from bits_below [OF this] bits show "bit (w AND 0xc000) n = bit (0x4000 :: u16) n" by (elim disjE) (simp_all add: bit_simps)
    qed
  qed
  moreover have "unat w < 65536" by simp
  ultimately show ?thesis unfolding word_bit using top_two_bits [of 16384 "unat w"] by simp
qed

text \<open>
  The messages a peer puts on a stream: STUN messages, whose first two bits are zero, and
  ChannelData of a channel in the TURN range with its exact length.
\<close>

definition wire_ok :: "bytes \<Rightarrow> bool" where
  "wire_ok m \<longleftrightarrow> (turnValidateMessage m = None \<and> hd m AND 0xc0 = 0) \<or>
     (is_channel m \<and> length m = 4 + unat (get16 (slice m 2 4)) \<and> length m \<le> 65536)"

lemma stream_read_stun:
  assumes "turnValidateMessage m = None" "hd m AND 0xc0 = 0"
  shows "stream_frame m = Inr m" "stream_read (m @ rest) = Inr (m, rest)"
proof -
  have m: "20 \<le> length m" "length m \<le> 65536" "unat (get16 (slice m 2 4)) mod 4 = 0"
    "unat (get16 (slice m 2 4)) = length m - 20"
    using assms(1) by (auto simp: turnValidateMessage_def Let_def split: if_splits)
  have "\<not> hd m AND 0xc0 = 0x40" using assms(2) by simp
  then have "\<not> is_channel m" using channel_byte [of m] m(1) by (simp add: is_channel_def channel_word)
  then show "stream_frame m = Inr m" by (simp add: stream_frame_def)
  have hd: "hd (take 4 m) = hd m" using m(1) by (cases m) auto
  have parts: "take 4 (m @ rest) = take 4 m" "drop 4 (m @ rest) = drop 4 m @ rest"
    "take 16 (drop 4 m @ rest) = take 16 (drop 4 m)" "drop 16 (drop 4 m @ rest) = drop 20 m @ rest"
    "take (length m - 20) (drop 20 m @ rest) = drop 20 m" "drop (length m - 20) (drop 20 m @ rest) = rest"
    using m(1) by simp_all
  have joined: "(take 4 m @ take 16 (drop 4 m)) @ drop 20 m = m" "slice (take 4 m) 2 4 = slice m 2 4"
    using take_add [of 4 16 m] by (simp_all add: slice_def take_drop)
  have fits: "\<not> length (m @ rest) < 4" "\<not> length (drop 4 m @ rest) < 20 - 4" "\<not> length (drop 20 m @ rest) < length m - 20"
    using m(1) by simp_all
  show "stream_read (m @ rest) = Inr (m, rest)"
    unfolding stream_read_def read_full_def
    using m assms(2) fits by (simp add: hd parts joined Let_def del: append_assoc drop_append take_append)
qed

lemma stream_read_channel:
  assumes "is_channel m" "length m = 4 + unat (get16 (slice m 2 4))" "length m \<le> 65536"
  shows "\<exists>f. stream_frame m = Inr f \<and> stream_read (f @ rest) = Inr (m, rest)"
proof -
  define len where "len = unat (get16 (slice m 2 4))"
  let ?pad = "replicate ((4 - len mod 4) mod 4) 0"
  have m: "4 \<le> length m" "length m = 4 + len" "len \<le> 65532" using assms by (simp_all add: is_channel_def len_def)
  have f: "stream_frame m = Inr (m @ ?pad)"
    using assms(1) m by (simp add: stream_frame_def Let_def flip: len_def)
  have ch: "0x4000 \<le> unat (get16 m) \<and> unat (get16 m) < 0x8000"
    using assms(1) by (simp add: is_channel_def channel_word)
  then have hd: "hd m AND 0xc0 = 0x40" using channel_byte [of m] m(1) by simp
  then have "hd m AND 0xc0 \<noteq> 0" by simp
  have range: "\<not> (get16 m < 0x4000 \<or> get16 m > 0x7fff)" using ch by (simp add: word_less_nat_alt)
  have pad: "pad4 len = len + (4 - len mod 4) mod 4" by (rule pad4_eq)
  have "hd (take 4 ((m @ ?pad) @ rest)) = hd m" using m(1) by (cases m) auto
  moreover have "slice (take 4 m) 2 4 = slice m 2 4" by (simp add: slice_def take_drop)
  moreover have "drop 4 ((m @ ?pad) @ rest) = (drop 4 m @ ?pad) @ rest" "take 4 ((m @ ?pad) @ rest) = take 4 m"
    using m(1) by simp_all
  moreover have "length (drop 4 m @ ?pad) = pad4 len" using m pad by simp
  moreover have "take len (drop 4 m @ ?pad) = drop 4 m" using m by simp
  moreover have "take 4 m @ drop 4 m = m" by simp
  ultimately have "stream_read ((m @ ?pad) @ rest) = Inr (m, rest)"
    using m hd range \<open>hd m AND 0xc0 \<noteq> 0\<close>
    by (simp add: stream_read_def read_full_def Let_def get16_take flip: len_def)
  with f show ?thesis by blast
qed

lemma write_all_whole: "write_all ns frame = Inr out \<Longrightarrow> out = frame"
proof (induction ns frame arbitrary: out rule: write_all.induct)
  case (3 n ns b frame)
  then show ?case by (auto split: if_splits sum.splits)
qed auto

section \<open>Properties\<close>

lemma collect_visit:
  "turnAttrMessageIntegrity \<notin> fst ` set before \<Longrightarrow>
   visit_all (\<lambda>l ty v off. (l @ [(ty, v)], True)) off0 acc (before @ [(turnAttrMessageIntegrity, mac)]) =
     acc @ before @ [(turnAttrMessageIntegrity, mac)]"
  by (induction before arbitrary: off0 acc) (auto simp: Let_def)

text \<open>
  An authenticated TURN message is what its receiver needs: for a method below 4096
  and a class below 4 and a total size within the packet limit, it passes validation,
  decodes to its method and class, verifies under the key it was built with, and its
  attributes read back as the given ones followed by user name, realm, nonce and the
  integrity value.
\<close>

theorem turn_authenticated_roundtrip:
  assumes "length tx = 12" "\<forall>k m. length (hmac k m) = 20" "unat mth < 4096" "unat cls < 4"
    and "turnAttrMessageIntegrity \<notin> fst ` set attrs"
    and "m = turnAuthenticatedMessage hmac mth cls tx attrs username realm nonce key" "length m \<le> 65536"
  shows "turnValidateMessage m = None \<and> turnDecodeType (get16 m) = (mth, cls) \<and> turnVerifyIntegrity hmac m key \<and>
    (\<exists>mac. turnAttributes m (\<lambda>l ty v off. (l @ [(ty, v)], True)) [] =
       (attrs @ [(turnAttrUsername, bytes_of username), (turnAttrRealm, bytes_of realm), (turnAttrNonce, bytes_of nonce),
                 (turnAttrMessageIntegrity, mac)], None))"
proof -
  define attrs' where "attrs' = attrs @ [(turnAttrUsername, bytes_of username), (turnAttrRealm, bytes_of realm), (turnAttrNonce, bytes_of nonce)]"
  define mac where "mac = hmac key (put16 (turnType mth cls) @ put16 (word_of_nat (length (encode_attrs attrs') + 24)) @
        put32 magicCookie @ tx @ encode_attrs attrs')"
  let ?all = "attrs' @ [(turnAttrMessageIntegrity, mac)]"
  have m: "m = turn_frame (turnType mth cls) tx (encode_attrs ?all)"
    unfolding assms(6) mac_def using assms(2) by (intro auth_message_frame [OF assms(1)]) (simp_all add: attrs'_def)
  have size: "length (encode_attrs ?all) \<le> 65516" using assms(7) by (simp add: m turn_frame_def assms(1))
  have small: "\<forall>(t, v) \<in> set ?all. length v < 65536" by (rule attrs_small [OF size])
  have none: "turnAttrMessageIntegrity \<notin> fst ` set attrs'" using assms(5) by (simp add: attrs'_def)
  have valid: "turnValidateMessage m = None"
    unfolding m by (rule frame_valid [OF assms(1) size concat_attrs_mod_4])
  have ty: "get16 m = turnType mth cls" by (simp add: m turn_frame_def)
  have verify: "turnVerifyIntegrity hmac m key"
    using integrity_of_frame [OF assms(1), of attrs' mac "[]" hmac "turnType mth cls" key] size none assms(2)
    by (simp add: m mac_def)
  have "turnAttributes m visit s = (visit_all visit 20 s ?all, None)" for visit :: "turn_attribute list visitor" and s
    using turnAttributes_visit [OF assms(1), of ?all "[]"] size small by (simp add: m)
  then have "turnAttributes m (\<lambda>l ty v off. (l @ [(ty, v)], True)) [] = (?all, None)"
    by (simp add: collect_visit [OF none])
  with valid verify ty turn_type_roundtrip [of mth cls] assms(3,4) show ?thesis
    unfolding attrs'_def by auto
qed

abbreviation demo_hmac :: mac where "demo_hmac \<equiv> \<lambda>k m. replicate 20 (word_of_nat (length m))"

lemma demo_message_size:
  "length (turnAuthenticatedMessage demo_hmac turnMethodRefresh turnClassRequest demo_tx [(turnAttrLifetime, [0, 0, 2, 88])] ''u'' ''r'' ''n'' [1]) = 76"
  by (simp add: turnAuthenticatedMessage_def turnMessage_def turnAppendAttribute_def set_length_def Let_def)

theorem turn_authenticated_roundtrip_witness:
  "turnVerifyIntegrity demo_hmac
     (turnAuthenticatedMessage demo_hmac turnMethodRefresh turnClassRequest demo_tx [(turnAttrLifetime, [0, 0, 2, 88])] ''u'' ''r'' ''n'' [1]) [1]"
  by (rule turn_authenticated_roundtrip [THEN conjunct2, THEN conjunct2, THEN conjunct1, OF _ _ _ _ _ refl])
     (simp_all add: demo_message_size)

text \<open>
  Attributes behind MESSAGE-INTEGRITY have no effect: appending any bytes (a multiple
  of four, within the packet limit, with the header's length adjusted) after the integrity
  attribute of a message changes neither whether it verifies nor the challenge, error
  code, lifetime or addresses read from it. So nothing unauthenticated can override what
  the integrity check covers.
\<close>

theorem turn_trailing_attributes_ignored:
  assumes "length tx = 12" "turnAttrMessageIntegrity \<notin> fst ` set before" "length trailing mod 4 = 0"
    and "body = encode_attrs before @ stun_attr turnAttrMessageIntegrity mac" "length (body @ trailing) \<le> 65516"
  shows "turnVerifyIntegrity hmac (turn_frame ty tx (body @ trailing)) key = turnVerifyIntegrity hmac (turn_frame ty tx body) key \<and>
    turnChallenge (turn_frame ty tx (body @ trailing)) = turnChallenge (turn_frame ty tx body) \<and>
    turnErrorCode (turn_frame ty tx (body @ trailing)) = turnErrorCode (turn_frame ty tx body) \<and>
    turnLifetime (turn_frame ty tx (body @ trailing)) = turnLifetime (turn_frame ty tx body) \<and>
    turnAddressAttribute (turn_frame ty tx (body @ trailing)) wanted = turnAddressAttribute (turn_frame ty tx body) wanted"
proof -
  let ?attrs = "before @ [(turnAttrMessageIntegrity, mac)]"
  have body: "body = encode_attrs ?attrs" by (simp add: assms(4))
  have small: "\<forall>(t, v) \<in> set ?attrs. length v < 65536" by (rule attrs_small) (use assms(5) in \<open>simp add: body\<close>)
  have long: "turnAttributes (turn_frame ty tx (body @ trailing)) visit s = (visit_all visit 20 s ?attrs, None)"
    for visit :: "'s visitor" and s
    unfolding body by (rule turnAttributes_visit [OF assms(1) _ assms(3) small]) (use assms(5) in \<open>simp_all add: body\<close>)
  have short: "turnAttributes (turn_frame ty tx body) visit s = (visit_all visit 20 s ?attrs, None)"
    for visit :: "'s visitor" and s
    using turnAttributes_visit [OF assms(1), of ?attrs "[]" ty visit s] small assms(5) by (simp add: body)
  have tx: "slice (turn_frame ty tx b) 8 20 = tx" for b
    using assms(1) by (simp add: turn_frame_def slice_def)
  have verify: "turnVerifyIntegrity hmac (turn_frame ty tx (body @ trailing)) key = turnVerifyIntegrity hmac (turn_frame ty tx body) key"
    using integrity_of_frame [OF assms(1) _ assms(3,2), of mac hmac ty key]
      integrity_of_frame [OF assms(1) _ _ assms(2), of mac "[]" hmac ty key] assms(5)
    by (simp add: assms(4))
  show ?thesis
    by (intro conjI verify)
       (simp_all only: turnChallenge_def turnErrorCode_def turnLifetime_def turnAddressAttribute_def long short tx)
qed

theorem turn_trailing_attributes_ignored_witness:
  "turnLifetime (turn_frame 0x104 demo_tx ((encode_attrs [(turnAttrLifetime, put32 60)] @
       stun_attr turnAttrMessageIntegrity (replicate 20 1)) @ stun_attr turnAttrLifetime (put32 3600))) =
   turnLifetime (turn_frame 0x104 demo_tx (encode_attrs [(turnAttrLifetime, put32 60)] @
       stun_attr turnAttrMessageIntegrity (replicate 20 1)))"
  by (rule turn_trailing_attributes_ignored [THEN conjunct2, THEN conjunct2, THEN conjunct2, THEN conjunct1, OF _ _ _ refl])
     (simp_all add: pad4_def)

lemma map2_xor_twice: "length xs = length ys \<Longrightarrow> map2 (XOR) (map2 (XOR) xs ys) ys = (xs :: bytes)"
proof (induction xs ys rule: list_induct2)
  case (Cons x xs y ys)
  then show ?case by (simp add: xor.assoc)
qed simp

text \<open>The two families differ in the family byte and the number of address bytes only.\<close>

lemma decode_encoded:
  assumes "length tx = 12" "0 < port" "port < 65536" "v = [0, f] @ put16 (word_of_int port XOR 0x2112) @ map2 (XOR) ip (take n (xor_mask tx))"
    and "length ip = n" "(f, n) = (1, 4) \<or> (f, n) = (2, 16)"
  shows "turnDecodeXORAddress v tx = Inr \<lparr>ua_ip = ip, ua_port = port\<rparr>"
proof -
  have mask: "length (xor_mask tx) = 16" using assms(1) by (simp add: xor_mask_def)
  have n: "n \<le> 16" "4 \<le> n" using assms(6) by auto
  have len: "length v = 4 + n" using mask n by (simp add: assms(4,5))
  have port: "slice v 2 4 = put16 (word_of_int port XOR 0x2112)" by (simp add: assms(4) slice_def)
  have low: "uint (word_of_int port :: u16) = port" using assms(2,3) by (simp add: uint_word_of_int)
  have number: "int (unat (get16 (slice v 2 4) XOR 0x2112)) = port" by (simp add: port xor.assoc low)
  have family: "v ! 1 = f" by (simp add: assms(4))
  have body: "slice v 4 (4 + n) = map2 (XOR) ip (take n (xor_mask tx))"
    using mask n by (simp add: assms(4,5) slice_def)
  have undo: "map2 (XOR) (map2 (XOR) ip (take n (xor_mask tx))) (take n (xor_mask tx)) = ip"
    using mask n by (intro map2_xor_twice) (simp add: assms(5))
  from assms(6) show ?thesis
    using len number family body undo by (auto simp: turnDecodeXORAddress_def Let_def)
qed

lemma decode_encoded_address:
  assumes "length tx = 12" "turnEncodeXORAddress (Some a) tx = Inr v" "ua_port a < 65536"
  shows "turnDecodeXORAddress v tx = Inr (a\<lparr>ua_ip := (case ip_to4 (ua_ip a) of Some ip \<Rightarrow> ip | None \<Rightarrow> ua_ip a)\<rparr>)"
proof (cases "ip_to4 (ua_ip a)")
  case (Some ip)
  then have "length ip = 4" by (auto simp: ip_to4_def split: if_splits)
  with Some assms show ?thesis
    by (auto simp: turnEncodeXORAddress_def Let_def split: if_splits intro!: decode_encoded [where f = 1 and n = 4, THEN trans])
next
  case None
  with assms show ?thesis
    by (auto simp: turnEncodeXORAddress_def Let_def split: if_splits intro!: decode_encoded [where f = 2 and n = 16, THEN trans])
qed

text \<open>
  XOR addresses round-trip: what turnEncodeXORAddress produces for a port up to 65535
  decodes under the same transaction ID to the same port and the same IP, where an
  IPv4-mapped IPv6 address comes back as the IPv4 address.
\<close>

theorem turn_address_roundtrip:
  assumes "length tx = 12" "turnEncodeXORAddress (Some a) tx = Inr v" "ua_port a < 65536"
  shows "turnDecodeXORAddress v tx = Inr (a\<lparr>ua_ip := (case ip_to4 (ua_ip a) of Some ip \<Rightarrow> ip | None \<Rightarrow> ua_ip a)\<rparr>)"
  using assms by (rule decode_encoded_address)

theorem turn_address_roundtrip_witness:
  "turnDecodeXORAddress ([0, 1] @ put16 (4242 XOR 0x2112) @ map2 (XOR) [203, 0, 113, 9] (take 4 (xor_mask demo_tx))) demo_tx =
   Inr \<lparr>ua_ip = [203, 0, 113, 9], ua_port = 4242\<rparr>"
  using turn_address_roundtrip [of demo_tx "\<lparr>ua_ip = [203, 0, 113, 9], ua_port = 4242\<rparr>"]
  by (simp add: turnEncodeXORAddress_def ip_to4_def Let_def)

text \<open>
  Stream framing round-trips: a STUN message or ChannelData frame written to a stream,
  in whatever partial writes, is read back by the peer as exactly that message, with the
  stream left at the next frame.
\<close>

theorem turn_stream_roundtrip:
  assumes "wire_ok m" "wire_write True ns m = Inr out"
  shows "stream_read (out @ rest) = Inr (m, rest)"
proof -
  obtain f where "stream_frame m = Inr f" "stream_read (f @ rest) = Inr (m, rest)"
    using assms(1) stream_read_stun(1) [of m] stream_read_stun(2) [of m rest] stream_read_channel [of m rest] unfolding wire_ok_def by blast
  with assms(2) write_all_whole show ?thesis by (auto simp: wire_write_def)
qed

theorem turn_stream_roundtrip_witness:
  "stream_read (([0x40, 0x01, 0, 2, 7, 8] @ [0, 0]) @ [9]) = Inr ([0x40, 0x01, 0, 2, 7, 8], [9])"
proof -
  have len: "unat (get16 (slice [0x40, 0x01, 0, 2, 7, 8 :: byte] 2 4)) = 2"
    by (simp add: slice_def get16_bytes)
  have ch: "is_channel [0x40, 0x01, 0, 2, 7, 8]"
    by (simp add: is_channel_def channel_word get16_bytes)
  have "wire_write True [1] [0x40, 0x01, 0, 2, 7, 8] = Inr ([0x40, 0x01, 0, 2, 7, 8] @ [0, 0])"
    using ch len by (simp add: wire_write_def stream_frame_def Let_def numeral_2_eq_2)
  then show ?thesis by (rule turn_stream_roundtrip [rotated]) (use ch len in \<open>simp add: wire_ok_def\<close>)
qed

text \<open>
  Refreshes come early enough: for an allocation of at least two nanoseconds the
  refresh interval is positive, at most half the lifetime and at most four minutes (the
  permission lasts five), whatever interval was requested; and a pending allocation is
  released between one and thirty seconds after it was made, within half its lifetime if
  that is two seconds or more.
\<close>

theorem turn_intervals_bounded:
  assumes "2 \<le> lifetime"
  shows "0 < safeTURNRefreshInterval requested lifetime \<and> safeTURNRefreshInterval requested lifetime \<le> lifetime div 2 \<and>
    safeTURNRefreshInterval requested lifetime \<le> 240 * second \<and>
    second \<le> turnPendingAllocationTTL lifetime \<and> turnPendingAllocationTTL lifetime \<le> 30 * second \<and>
    (2 * second \<le> lifetime \<longrightarrow> turnPendingAllocationTTL lifetime \<le> lifetime div 2)"
proof -
  have half: "0 < lifetime div 2" "2 * second \<le> lifetime \<Longrightarrow> second \<le> lifetime div 2" using assms by linarith+
  then have "0 < safeTURNRefreshInterval requested lifetime \<and> safeTURNRefreshInterval requested lifetime \<le> lifetime div 2 \<and>
    safeTURNRefreshInterval requested lifetime \<le> 240 * second"
    using assms by (simp add: safeTURNRefreshInterval_def Let_def)
  moreover from half have "second \<le> turnPendingAllocationTTL lifetime \<and> turnPendingAllocationTTL lifetime \<le> 30 * second \<and>
    (2 * second \<le> lifetime \<longrightarrow> turnPendingAllocationTTL lifetime \<le> lifetime div 2)"
    by (simp add: turnPendingAllocationTTL_def Let_def)
  ultimately show ?thesis by blast
qed

theorem turn_intervals_bounded_witness:
  "safeTURNRefreshInterval (300 * second) (600 * second) \<le> 240 * second \<and> turnPendingAllocationTTL (10 * second) \<le> 10 * second div 2"
  using turn_intervals_bounded [of "600 * second" "300 * second"] turn_intervals_bounded [of "10 * second" 0] by simp

end
