(* ===== verification/Turn_Conn.thy ===== *)
theory Turn_Conn
  imports Turn_Codec
begin

text \<open>
  The relayed connection of \<^verbatim>\<open>cmd/p2p/turn_provider.go\<close>: allocation, permission,
  channel binding, refresh, the read loop and the data path of \<^verbatim>\<open>turnConn\<close>, and the
  single-use \<^verbatim>\<open>TURNPendingAllocation\<close>. What the server sends while a transaction
  waits is an argument, a list of messages that pass through the read loop; its end is the
  timeout, the context or the connection ending. The socket is the flag \<open>tn_conn_closed\<close>.
\<close>

section \<open>Data\<close>

record turn_crypto =
  tk_hmac :: mac
  tk_md5 :: "bytes \<Rightarrow> bytes"

record turn_conn =
  tn_stream :: bool
  tn_peer :: udp_addr
  tn_relay :: udp_addr
  tn_cfg :: turn_config
  tn_username :: string
  tn_password :: string
  tn_key :: bytes
  tn_realm :: string
  tn_nonce :: string
  tn_pending :: "bytes list"
  tn_inbound :: "bytes list"
  tn_done :: bool
  tn_err :: "turn_error option"
  tn_conn_closed :: bool
  tn_close_err :: "turn_error option"
  tn_close_once :: bool
  tn_channel :: u16
  tn_bound :: bool
  tn_requested :: time
  tn_read_deadline :: "time option"
  tn_write_deadline :: "time option"

abbreviation inboundCapacity :: nat where "inboundCapacity \<equiv> 32"

definition newTURNConn ::
  "u16 option \<Rightarrow> bool \<Rightarrow> udp_addr \<Rightarrow> udp_addr \<Rightarrow> turn_config \<Rightarrow> string \<Rightarrow> string \<Rightarrow> string \<Rightarrow> string \<Rightarrow> bytes \<Rightarrow> time \<Rightarrow> turn_conn" where
  "newTURNConn random stream peer relay cfg username password realm nonce key lifetime =
     (let channel = (if tc_enable_channel cfg \<and> tc_channel cfg = 0
                     then (case random of Some r \<Rightarrow> 0x4000 OR (r AND 0x3fff) | None \<Rightarrow> 0x4000)
                     else tc_channel cfg)
      in \<lparr>tn_stream = stream, tn_peer = peer, tn_relay = relay,
          tn_cfg = cfg\<lparr>tc_refresh_interval := safeTURNRefreshInterval (tc_refresh_interval cfg) lifetime\<rparr>,
          tn_username = username, tn_password = password, tn_key = key, tn_realm = realm, tn_nonce = nonce,
          tn_pending = [], tn_inbound = [], tn_done = False, tn_err = None, tn_conn_closed = False,
          tn_close_err = None, tn_close_once = False, tn_channel = channel, tn_bound = False,
          tn_requested = tc_refresh_interval cfg, tn_read_deadline = None, tn_write_deadline = None\<rparr>)"

definition conn_terminate :: "turn_error \<Rightarrow> turn_conn \<Rightarrow> turn_conn" where
  "conn_terminate e c = (if tn_done c then c else c\<lparr>tn_err := Some e, tn_done := True, tn_conn_closed := True\<rparr>)"

definition closeError :: "turn_conn \<Rightarrow> turn_error" where
  "closeError c = (case tn_err c of None \<Rightarrow> TurnClosed | Some e \<Rightarrow> e)"

section \<open>Read loop\<close>

text \<open>The bounded queue drops what does not fit.\<close>

definition enqueue :: "bytes \<Rightarrow> turn_conn \<Rightarrow> turn_conn" where
  "enqueue data c =
     (if length (tn_inbound c) < inboundCapacity then c\<lparr>tn_inbound := tn_inbound c @ [data]\<rparr> else c)"

definition ip_equal :: "bytes \<Rightarrow> bytes \<Rightarrow> bool" where
  "ip_equal a b \<longleftrightarrow> a = b \<or> (ip_to4 a \<noteq> None \<and> ip_to4 a = ip_to4 b)"

definition read_channel_data :: "bytes \<Rightarrow> turn_conn \<Rightarrow> turn_conn" where
  "read_channel_data m c =
     (let channel = get16 m; len = unat (get16 (slice m 2 4)); available = length m - 4 in
      if \<not> tn_bound c \<or> channel \<noteq> tn_channel c \<or> len > available \<or> available - len > 3 \<or>
         int len > tc_max_datagram (tn_cfg c)
      then c
      else enqueue (slice m 4 (4 + len)) c)"

definition data_attribute :: "bytes \<Rightarrow> bytes option" where
  "data_attribute m = fst (turnAttributes m (\<lambda>d ty value off.
     if ty = turnAttrData then (Some value, False) else (d, True)) None)"

text \<open>A zero-length DATA attribute leaves \<^verbatim>\<open>data\<close> nil.\<close>

definition read_data_indication :: "bytes \<Rightarrow> turn_conn \<Rightarrow> turn_conn" where
  "read_data_indication m c =
     (case turnAddressAttribute m turnAttrXORPeerAddress of
        Inl _ \<Rightarrow> c
      | Inr peer \<Rightarrow>
          if \<not> ip_equal (ua_ip peer) (ua_ip (tn_peer c)) \<or> ua_port peer \<noteq> ua_port (tn_peer c) then c
          else case data_attribute m of
            None \<Rightarrow> c
          | Some data \<Rightarrow>
              if data \<noteq> [] \<and> int (length data) \<le> tc_max_datagram (tn_cfg c) then enqueue data c else c)"

text \<open>One message of the loop: a response goes to the transaction that waits for it.\<close>

definition read_message :: "bytes \<Rightarrow> turn_conn \<Rightarrow> (bytes \<times> bytes) option \<times> turn_conn" where
  "read_message m c =
     (if is_channel m then (None, read_channel_data m c)
      else if turnValidateMessage m \<noteq> None then (None, c)
      else if turnDecodeType (get16 m) = (turnMethodData, turnClassIndication) then (None, read_data_indication m c)
      else if slice m 8 20 \<in> set (tn_pending c) then (Some (slice m 8 20, m), c)
      else (None, c))"

definition read_failed :: "turn_error \<Rightarrow> turn_conn \<Rightarrow> turn_conn" where
  "read_failed e c = conn_terminate e c"

section \<open>Transactions\<close>

record txn_env =
  te_tx :: "bytes option"
  te_write :: bool
  te_messages :: "bytes list"
  te_end :: turn_error

fun await :: "bytes \<Rightarrow> turn_error \<Rightarrow> bytes list \<Rightarrow> turn_conn \<Rightarrow> (turn_error + bytes) \<times> turn_conn" where
  "await tx e [] c = (Inl e, c)"
| "await tx e (m # ms) c =
     (case read_message m c of
        (Some (tx', response), c) \<Rightarrow> if tx' = tx then (Inr response, c) else await tx e ms c
      | (None, c) \<Rightarrow> await tx e ms c)"

definition transaction :: "txn_env \<Rightarrow> bytes \<Rightarrow> bytes \<Rightarrow> turn_conn \<Rightarrow> (turn_error + bytes) \<times> turn_conn" where
  "transaction env tx request c =
     (if tx \<in> set (tn_pending c) then (Inl TurnDuplicate, c)
      else if \<not> te_write env then (Inl TurnWrite, c)
      else case await tx (te_end env) (te_messages env) (c\<lparr>tn_pending := tx # tn_pending c\<rparr>) of
        (r, c) \<Rightarrow> (r, c\<lparr>tn_pending := removeAll tx (tn_pending c)\<rparr>))"

fun auth_attempts ::
  "turn_crypto \<Rightarrow> (nat \<Rightarrow> txn_env) \<Rightarrow> u16 \<Rightarrow> (bytes \<Rightarrow> turn_error + turn_attribute list) \<Rightarrow> nat \<Rightarrow> nat \<Rightarrow> turn_conn \<Rightarrow>
   (turn_error + bytes) \<times> turn_conn" where
  "auth_attempts k env method attrs attempt 0 c = (Inl TurnTimeout, c)"
| "auth_attempts k env method attrs attempt (Suc left) c =
     (case te_tx (env attempt) of None \<Rightarrow> (Inl TurnRandom, c)
      | Some tx \<Rightarrow>
          (case attrs tx of Inl e \<Rightarrow> (Inl e, c)
           | Inr requestAttrs \<Rightarrow>
               let key = tn_key c;
                   request = turnAuthenticatedMessage (tk_hmac k) method turnClassRequest tx requestAttrs
                               (tn_username c) (tn_realm c) (tn_nonce c) key
               in case transaction (env attempt) tx request c of
                    (Inl e, c) \<Rightarrow> (Inl e, c)
                  | (Inr response, c) \<Rightarrow>
                      let (responseMethod, cls) = turnDecodeType (get16 response) in
                      if responseMethod \<noteq> method then (Inl TurnMethodMismatch, c)
                      else if cls \<noteq> turnClassError then (Inr response, c)
                      else let ((code, newRealm, newNonce), challengeErr) = turnChallenge response in
                        if attempt \<noteq> 0 \<or> challengeErr \<noteq> None \<or> code \<noteq> 438 \<or> \<not> turnVerifyIntegrity (tk_hmac k) response key
                        then (Inr response, c)
                        else auth_attempts k env method attrs (Suc attempt) left
                               (c\<lparr>tn_realm := newRealm, tn_nonce := newNonce,
                                  tn_key := turnLongTermKey (tk_md5 k) (tn_username c) newRealm (tn_password c)\<rparr>)))"

text \<open>Two attempts; the error after both are used up is unreachable.\<close>

definition authTransaction ::
  "turn_crypto \<Rightarrow> (nat \<Rightarrow> txn_env) \<Rightarrow> u16 \<Rightarrow> (bytes \<Rightarrow> turn_error + turn_attribute list) \<Rightarrow> turn_conn \<Rightarrow>
   (turn_error + bytes) \<times> turn_conn" where
  "authTransaction k env method attrs c = auth_attempts k env method attrs 0 2 c"

definition verifyIntegrity :: "turn_crypto \<Rightarrow> bytes \<Rightarrow> turn_conn \<Rightarrow> bool" where
  "verifyIntegrity k m c = turnVerifyIntegrity (tk_hmac k) m (tn_key c)"

section \<open>Requests\<close>

definition bind_attrs :: "turn_conn \<Rightarrow> bytes \<Rightarrow> turn_error + turn_attribute list" where
  "bind_attrs c tx =
     (case turnEncodeXORAddress (Some (tn_peer c)) tx of
        Inl e \<Rightarrow> Inl e
      | Inr peer \<Rightarrow> Inr [(turnAttrChannelNumber, put16 (tn_channel c) @ [0, 0]), (turnAttrXORPeerAddress, peer)])"

definition bindChannel :: "turn_crypto \<Rightarrow> (nat \<Rightarrow> txn_env) \<Rightarrow> turn_conn \<Rightarrow> turn_error option \<times> turn_conn" where
  "bindChannel k env c =
     (case authTransaction k env turnMethodChannelBind (bind_attrs c) c of
        (Inl e, c) \<Rightarrow> (Some e, c)
      | (Inr response, c) \<Rightarrow>
          let (method, cls) = turnDecodeType (get16 response) in
          if method \<noteq> turnMethodChannelBind \<or> \<not> verifyIntegrity k response c then (Some TurnUnauthenticated, c)
          else if cls = turnClassError then
            (if turnErrorCode response = 0 then (Some TurnUnauthenticated, c)
             else (Some (TurnChannelRejected (turnErrorCode response)), c))
          else if cls \<noteq> turnClassSuccess then (Some TurnUnauthenticated, c)
          else (None, c\<lparr>tn_bound := True\<rparr>))"

definition permission_attrs :: "turn_conn \<Rightarrow> bytes \<Rightarrow> turn_error + turn_attribute list" where
  "permission_attrs c tx =
     (case turnEncodeXORAddress (Some (tn_peer c)) tx of Inl e \<Rightarrow> Inl e | Inr v \<Rightarrow> Inr [(turnAttrXORPeerAddress, v)])"

definition createPermission :: "turn_crypto \<Rightarrow> (nat \<Rightarrow> txn_env) \<Rightarrow> turn_conn \<Rightarrow> turn_error option \<times> turn_conn" where
  "createPermission k env c =
     (case authTransaction k env turnMethodCreatePermission (permission_attrs c) c of
        (Inl e, c) \<Rightarrow> (Some e, c)
      | (Inr response, c) \<Rightarrow>
          if turnDecodeType (get16 response) \<noteq> (turnMethodCreatePermission, turnClassSuccess) \<or> \<not> verifyIntegrity k response c
          then (Some TurnUnauthenticated, c)
          else (None, c))"

definition is_rejection :: "turn_error \<Rightarrow> bool" where
  "is_rejection e = (case e of TurnChannelRejected _ \<Rightarrow> True | _ \<Rightarrow> False)"

text \<open>The environments of the transactions of a call, in their order.\<close>

type_synonym call_env = "nat \<Rightarrow> nat \<Rightarrow> txn_env"

definition refresh :: "turn_crypto \<Rightarrow> call_env \<Rightarrow> turn_conn \<Rightarrow> (turn_error + time) \<times> turn_conn" where
  "refresh k env c =
     (case authTransaction k (env 0) turnMethodRefresh (\<lambda>_. Inr [(turnAttrLifetime, put32 600)]) c of
        (Inl e, c) \<Rightarrow> (Inl e, c)
      | (Inr response, c) \<Rightarrow>
          if turnDecodeType (get16 response) \<noteq> (turnMethodRefresh, turnClassSuccess) \<or> \<not> verifyIntegrity k response c
          then (Inl TurnUnauthenticated, c)
          else let lifetime = turnLifetime response in
            if lifetime \<le> 0 then (Inl TurnExpired, c)
            else if tn_bound c then
              (case bindChannel k (env 1) c of
                 (None, c) \<Rightarrow> (Inr lifetime, c)
               | (Some e, c) \<Rightarrow>
                   if \<not> is_rejection e then (Inl e, c)
                   else (case createPermission k (env 2) (c\<lparr>tn_bound := False\<rparr>) of
                           (None, c) \<Rightarrow> (Inr lifetime, c)
                         | (Some e, c) \<Rightarrow> (Inl e, c)))
            else (case createPermission k (env 2) c of
                    (None, c) \<Rightarrow> (Inr lifetime, c)
                  | (Some e, c) \<Rightarrow> (Inl e, c)))"

definition conn_start :: "turn_crypto \<Rightarrow> call_env \<Rightarrow> turn_conn \<Rightarrow> turn_error option \<times> turn_conn" where
  "conn_start k env c =
     (case createPermission k (env 0) c of
        (Some e, c) \<Rightarrow> (Some e, c)
      | (None, c) \<Rightarrow>
          if tc_enable_channel (tn_cfg c) then
            (case bindChannel k (env 1) c of
               (Some e, c) \<Rightarrow> if is_rejection e then (None, c) else (Some e, c)
             | (None, c) \<Rightarrow> (None, c))
          else (None, c))"

text \<open>One expiry of the refresh timer: the interval for which it is armed again, unless the loop ends.\<close>

definition refresh_tick :: "turn_crypto \<Rightarrow> call_env \<Rightarrow> turn_conn \<Rightarrow> time option \<times> turn_conn" where
  "refresh_tick k env c =
     (if tn_done c then (None, c)
      else case refresh k env c of
        (Inl e, c) \<Rightarrow> (None, conn_terminate e c)
      | (Inr lifetime, c) \<Rightarrow>
          let interval = safeTURNRefreshInterval (tn_requested c) lifetime
          in (Some interval, c\<lparr>tn_cfg := (tn_cfg c)\<lparr>tc_refresh_interval := interval\<rparr>\<rparr>))"

section \<open>Data path\<close>

text \<open>
  The packet that \<^verbatim>\<open>Write\<close> hands to \<^verbatim>\<open>writePacket\<close>, for the transaction ID
  it draws; \<open>None\<close> for the ID is a failure of the random source.
\<close>

definition write_packet :: "bytes option \<Rightarrow> bytes \<Rightarrow> turn_conn \<Rightarrow> turn_error + bytes" where
  "write_packet tx p c =
     (if int (length p) > tc_max_datagram (tn_cfg c) then Inl TurnTooLarge
      else if tn_done c then Inl (closeError c)
      else if tn_bound c then Inr (put16 (tn_channel c) @ put16 (word_of_nat (length p)) @ p)
      else case tx of None \<Rightarrow> Inl TurnRandom
      | Some tx \<Rightarrow>
          (case turnEncodeXORAddress (Some (tn_peer c)) tx of
             Inl e \<Rightarrow> Inl e
           | Inr peer \<Rightarrow> Inr (turnMessage turnMethodSend turnClassIndication tx
                               [(turnAttrXORPeerAddress, peer), (turnAttrData, p)])))"

definition conn_Write :: "bytes option \<Rightarrow> nat list \<Rightarrow> bytes \<Rightarrow> turn_conn \<Rightarrow> (turn_error + nat) \<times> bytes" where
  "conn_Write tx ns p c =
     (case write_packet tx p c of
        Inl e \<Rightarrow> (Inl e, [])
      | Inr m \<Rightarrow> (case wire_write (tn_stream c) ns m of Inl e \<Rightarrow> (Inl e, []) | Inr out \<Rightarrow> (Inr (length p), out)))"

text \<open>
  \<^verbatim>\<open>Read\<close> once something can happen: \<open>timed_out\<close> is the read deadline. Go's
  \<^verbatim>\<open>select\<close> may also choose the closed channel while data is queued.
\<close>

definition conn_Read :: "bool \<Rightarrow> nat \<Rightarrow> turn_conn \<Rightarrow> (turn_error + bytes) option \<times> turn_conn" where
  "conn_Read timed_out cap c =
     (if timed_out then (Some (Inl TurnTimeout), c)
      else case tn_inbound c of
        data # rest \<Rightarrow> (Some (Inr (take cap data)), c\<lparr>tn_inbound := rest\<rparr>)
      | [] \<Rightarrow> if tn_done c then (Some (Inl (closeError c)), c) else (None, c))"

definition conn_SetDeadline :: "time option \<Rightarrow> turn_conn \<Rightarrow> turn_conn" where
  "conn_SetDeadline t c = c\<lparr>tn_read_deadline := t, tn_write_deadline := t\<rparr>"

definition conn_Close :: "turn_crypto \<Rightarrow> (nat \<Rightarrow> txn_env) \<Rightarrow> turn_conn \<Rightarrow> turn_error option \<times> turn_conn" where
  "conn_Close k env c =
     (if tn_close_once c then (tn_close_err c, c)
      else let c = c\<lparr>tn_close_once := True\<rparr> in
        if tn_done c then (tn_close_err c, c)
        else case authTransaction k env turnMethodRefresh (\<lambda>_. Inr [(turnAttrLifetime, [0, 0, 0, 0])]) c of
          (r, c) \<Rightarrow>
            let err = (case r of Inl e \<Rightarrow> Some e
                       | Inr response \<Rightarrow>
                           if turnDecodeType (get16 response) \<noteq> (turnMethodRefresh, turnClassSuccess) \<or> \<not> verifyIntegrity k response c
                           then Some TurnUnauthenticated else None)
            in (err, conn_terminate TurnClosed (c\<lparr>tn_close_err := err\<rparr>)))"

section \<open>Pending allocations\<close>

text \<open>
  \<open>pa_socket_closed\<close> is the state of the socket while the allocation owns it; after
  \<^verbatim>\<open>Connect\<close> has taken the wire it belongs to the \<open>turn_conn\<close>.
\<close>

record turn_pending =
  pa_wire :: bool
  pa_stream :: bool
  pa_cfg :: turn_config
  pa_username :: string
  pa_password :: string
  pa_realm :: string
  pa_nonce :: string
  pa_key :: bytes
  pa_relay :: udp_addr
  pa_lifetime :: time
  pa_connected :: bool
  pa_closed :: bool
  pa_close_err :: "turn_error option"
  pa_timer :: bool
  pa_socket_closed :: bool

definition clearCredentials :: "turn_pending \<Rightarrow> turn_pending" where
  "clearCredentials a = a\<lparr>pa_key := [], pa_password := []\<rparr>"

definition pending_Connect ::
  "turn_crypto \<Rightarrow> u16 option \<Rightarrow> call_env \<Rightarrow> (nat \<Rightarrow> txn_env) \<Rightarrow> udp_addr option \<Rightarrow> turn_pending \<Rightarrow>
   (turn_error + turn_conn) \<times> turn_conn option \<times> turn_pending" where
  "pending_Connect k random env close_env peer a =
     (case peer of None \<Rightarrow> (Inl TurnInvalidAddress, None, a)
      | Some peer \<Rightarrow>
          if ua_ip peer = [] \<or> ua_port peer < 1 \<or> ua_port peer > 65535 then (Inl TurnInvalidAddress, None, a)
          else if pa_closed a then (Inl TurnClosed, None, a)
          else if pa_connected a \<or> \<not> pa_wire a then (Inl TurnAlreadyConnected, None, a)
          else
            let a = a\<lparr>pa_timer := False\<rparr>;
                tc = newTURNConn random (pa_stream a) peer (pa_relay a) (pa_cfg a) (pa_username a) (pa_password a)
                       (pa_realm a) (pa_nonce a) (pa_key a) (pa_lifetime a)
            in case conn_start k env tc of
                 (Some e, tc) \<Rightarrow>
                   (Inl e, Some (snd (conn_Close k close_env tc)), clearCredentials (a\<lparr>pa_closed := True, pa_wire := False\<rparr>))
               | (None, tc) \<Rightarrow> (Inr tc, Some tc, clearCredentials (a\<lparr>pa_connected := True, pa_wire := False\<rparr>)))"

definition pending_Close ::
  "turn_crypto \<Rightarrow> bytes option \<Rightarrow> (nat \<Rightarrow> exchange_attempt) \<Rightarrow> turn_pending \<Rightarrow> turn_error option \<times> turn_pending" where
  "pending_Close k tx env a =
     (if pa_connected a then (None, a)
      else if pa_closed a then (pa_close_err a, a)
      else
        let a = a\<lparr>pa_closed := True, pa_timer := False\<rparr> in
        if \<not> pa_wire a then (None, a)
        else
          let err = (case tx of None \<Rightarrow> Some TurnRandom
                | Some tx \<Rightarrow>
                    (case turnExchangeRetry (pa_stream a) (nat (tc_retransmits (pa_cfg a))) tx env of
                       Inl e \<Rightarrow> Some e
                     | Inr response \<Rightarrow>
                         if turnDecodeType (get16 response) \<noteq> (turnMethodRefresh, turnClassSuccess) \<or>
                            \<not> turnVerifyIntegrity (tk_hmac k) response (pa_key a)
                         then Some TurnUnauthenticated else None))
          in (err, clearCredentials (a\<lparr>pa_close_err := err, pa_wire := False, pa_socket_closed := True\<rparr>)))"

section \<open>Allocation\<close>

record alloc_env =
  ae_dial :: bool
  ae_tls :: bool
  ae_deadline :: bool
  ae_tx :: "nat \<Rightarrow> bytes option"
  ae_exchange :: "nat \<Rightarrow> nat \<Rightarrow> exchange_attempt"

abbreviation requested_udp :: turn_attribute where
  "requested_udp \<equiv> (turnAttrRequestedTransport, [17, 0, 0, 0])"

definition alloc_exchange :: "turn_config \<Rightarrow> alloc_env \<Rightarrow> nat \<Rightarrow> bytes \<Rightarrow> turn_error + bytes" where
  "alloc_exchange cfg env i tx =
     turnExchangeRetry (tc_transport cfg \<noteq> TURNTransportUDP) (nat (tc_retransmits cfg)) tx (ae_exchange env i)"

text \<open>The loop of authenticated attempts: realm, nonce, key, relay address and lifetime.\<close>

fun alloc_attempts ::
  "turn_crypto \<Rightarrow> turn_config \<Rightarrow> alloc_env \<Rightarrow> nat \<Rightarrow> nat \<Rightarrow> string \<Rightarrow> string \<Rightarrow> bytes \<Rightarrow>
   turn_error + (string \<times> string \<times> bytes \<times> udp_addr \<times> time)" where
  "alloc_attempts k cfg env attempt 0 realm nonce key = Inl TurnNoRelay"
| "alloc_attempts k cfg env attempt (Suc left) realm nonce key =
     (case ae_tx env (Suc attempt) of None \<Rightarrow> Inl TurnRandom
      | Some tx \<Rightarrow>
          (case alloc_exchange cfg env (Suc attempt) tx of
             Inl e \<Rightarrow> Inl e
           | Inr response \<Rightarrow>
               let (method, cls) = turnDecodeType (get16 response) in
               if method \<noteq> turnMethodAllocate then Inl TurnMethodMismatch
               else if cls = turnClassError then
                 (let ((code, newRealm, newNonce), challengeErr) = turnChallenge response in
                  if challengeErr = None \<and> code = 438 \<and> attempt = 0 \<and> turnVerifyIntegrity (tk_hmac k) response key
                  then let (realm, key) = (if newRealm \<noteq> []
                             then (newRealm, turnLongTermKey (tk_md5 k) (tc_username cfg) newRealm (tc_password cfg))
                             else (realm, key))
                       in alloc_attempts k cfg env (Suc attempt) left realm newNonce key
                  else Inl (TurnRejected code))
               else if cls \<noteq> turnClassSuccess \<or> \<not> turnVerifyIntegrity (tk_hmac k) response key then Inl TurnUnauthenticated
               else case turnAddressAttribute response turnAttrXORRelayedAddress of
                 Inl e \<Rightarrow> Inl e
               | Inr relay \<Rightarrow>
                   if turnLifetime response \<le> 0 then Inl TurnExpired
                   else Inr (realm, nonce, key, relay, turnLifetime response)))"

text \<open>
  The result and, for a failure, whether the dialed socket was closed.
  \<open>addr_string\<close> is \<^verbatim>\<open>UDPAddr.String\<close>.
\<close>

definition AllocateCandidate ::
  "turn_crypto \<Rightarrow> (udp_addr \<Rightarrow> string) \<Rightarrow> turn_config \<Rightarrow> alloc_env \<Rightarrow> (turn_error \<times> bool) + (turn_pending \<times> candidate)" where
  "AllocateCandidate k addr_string cfg env =
     (if \<not> ae_dial env then Inl (TurnDial, False)
      else if tc_transport cfg = TURNTransportTLS \<and> \<not> ae_tls env then Inl (TurnTLS, True)
      else if \<not> ae_deadline env then Inl (TurnDeadline, True)
      else case ae_tx env 0 of None \<Rightarrow> Inl (TurnRandom, True)
      | Some tx \<Rightarrow>
          (case alloc_exchange cfg env 0 tx of
             Inl e \<Rightarrow> Inl (e, True)
           | Inr response \<Rightarrow>
               let ((code, realm, nonce), err) = turnChallenge response in
               if err \<noteq> None then Inl (TurnIncompleteChallenge, True)
               else if code \<noteq> 401 then Inl (TurnRejected code, True)
               else case alloc_attempts k cfg env 0 2 realm nonce
                           (turnLongTermKey (tk_md5 k) (tc_username cfg) realm (tc_password cfg)) of
                 Inl e \<Rightarrow> Inl (e, True)
               | Inr (realm, nonce, key, relay, lifetime) \<Rightarrow>
                   Inr (\<lparr>pa_wire = True, pa_stream = (tc_transport cfg \<noteq> TURNTransportUDP), pa_cfg = cfg,
                         pa_username = tc_username cfg, pa_password = tc_password cfg, pa_realm = realm,
                         pa_nonce = nonce, pa_key = key, pa_relay = relay, pa_lifetime = lifetime,
                         pa_connected = False, pa_closed = False, pa_close_err = None, pa_timer = True,
                         pa_socket_closed = False\<rparr>,
                        \<lparr>cd_id = ''turn-'' @ addr_string relay, cd_type = CandidateRelay,
                         cd_addr = addr_string relay, cd_priority = 1\<rparr>)))"

text \<open>
  \<^verbatim>\<open>Allocate\<close>: the resolver's answer is an argument; a failed connect closes the
  pending allocation, and the third component is that allocation as it is left.
\<close>

definition provider_Allocate ::
  "turn_crypto \<Rightarrow> (udp_addr \<Rightarrow> string) \<Rightarrow> turn_config \<Rightarrow> (string \<Rightarrow> udp_addr option) option \<Rightarrow> alloc_env \<Rightarrow> u16 option \<Rightarrow>
   call_env \<Rightarrow> (nat \<Rightarrow> txn_env) \<Rightarrow> bytes option \<Rightarrow> (nat \<Rightarrow> exchange_attempt) \<Rightarrow> string \<Rightarrow>
   (turn_error + (turn_conn \<times> candidate)) \<times> turn_pending option" where
  "provider_Allocate k addr_string cfg resolver env random start_env close_env close_tx close_exchange peerID =
     (if blank peerID then (Inl TurnNil, None)
      else case resolver of None \<Rightarrow> (Inl TurnNil, None)
      | Some resolve \<Rightarrow>
          (case resolve peerID of None \<Rightarrow> (Inl TurnResolve, None)
           | Some peer \<Rightarrow>
               if ua_ip peer = [] \<or> ua_port peer \<le> 0 then (Inl TurnResolve, None)
               else case AllocateCandidate k addr_string cfg env of
                 Inl (e, _) \<Rightarrow> (Inl e, None)
               | Inr (pending, candidate) \<Rightarrow>
                   (case pending_Connect k random start_env close_env (Some peer) pending of
                      (Inl e, _, pending) \<Rightarrow> (Inl e, Some (snd (pending_Close k close_tx close_exchange pending)))
                    | (Inr conn, _, pending) \<Rightarrow> (Inr (conn, candidate), Some pending))))"

section \<open>Frames\<close>

text \<open>
  What the operations of a transaction leave alone: everything but the queue, the set of
  waiting transactions and the credentials.
\<close>

definition core :: "turn_conn \<Rightarrow> turn_conn" where
  "core c = c\<lparr>tn_inbound := [], tn_pending := [], tn_realm := [], tn_nonce := [], tn_key := []\<rparr>"

definition credentials :: "turn_conn \<Rightarrow> string \<times> string \<times> bytes" where
  "credentials c = (tn_realm c, tn_nonce c, tn_key c)"

lemma core_fields:
  assumes "core c = core d"
  shows "tn_done c = tn_done d" "tn_conn_closed c = tn_conn_closed d" "tn_close_once c = tn_close_once d"
    "tn_bound c = tn_bound d" "tn_peer c = tn_peer d" "tn_username c = tn_username d" "tn_password c = tn_password d"
  using assms by (auto simp: core_def dest: arg_cong [of _ _ tn_done] arg_cong [of _ _ tn_conn_closed]
      arg_cong [of _ _ tn_close_once] arg_cong [of _ _ tn_bound] arg_cong [of _ _ tn_peer]
      arg_cong [of _ _ tn_username] arg_cong [of _ _ tn_password])

lemma core_enqueue [simp]: "core (enqueue d c) = core c" "credentials (enqueue d c) = credentials c"
  by (simp_all add: enqueue_def core_def credentials_def)

lemma read_message_frame:
  assumes "read_message m c = (r, c')"
  shows "core c' = core c \<and> credentials c' = credentials c"
  using assms
  by (auto simp: read_message_def read_channel_data_def read_data_indication_def Let_def
      split: if_splits sum.splits option.splits)

lemma await_frame: "await tx e ms c = (r, c') \<Longrightarrow> core c' = core c \<and> credentials c' = credentials c"
proof (induction ms arbitrary: c)
  case (Cons m ms)
  obtain r1 c1 where m: "read_message m c = (r1, c1)" by fastforce
  note frame = read_message_frame [OF m]
  from Cons.prems m Cons.IH [of c1] frame show ?case
    by (auto split: option.splits prod.splits if_splits)
qed simp

lemma transaction_frame:
  assumes "transaction env tx request c = (r, c')"
  shows "core c' = core c \<and> credentials c' = credentials c"
proof -
  have pending: "core (c\<lparr>tn_pending := x\<rparr>) = core c" "credentials (c\<lparr>tn_pending := x\<rparr>) = credentials c" for x c
    by (simp_all add: core_def credentials_def)
  from assms show ?thesis
    using await_frame [of tx "te_end env" "te_messages env" "c\<lparr>tn_pending := tx # tn_pending c\<rparr>"]
    by (auto simp: transaction_def pending split: if_splits prod.splits)
qed

text \<open>The challenge that lets a transaction adopt new credentials.\<close>

definition renewed :: "turn_crypto \<Rightarrow> turn_conn \<Rightarrow> turn_conn \<Rightarrow> bool" where
  "renewed k c c' \<longleftrightarrow> (\<exists>response. turnVerifyIntegrity (tk_hmac k) response (tn_key c) \<and>
     turnChallenge response = ((438, tn_realm c', tn_nonce c'), None) \<and>
     tn_key c' = turnLongTermKey (tk_md5 k) (tn_username c) (tn_realm c') (tn_password c))"

lemma auth_attempt_frame:
  assumes "auth_attempts k env method attrs (Suc n) left c = (r, c')"
  shows "core c' = core c \<and> credentials c' = credentials c"
proof (cases left)
  case (Suc left')
  with assms show ?thesis
    using transaction_frame
    by (auto simp: Let_def split: option.splits sum.splits prod.splits if_splits)
qed (use assms in simp)

lemma core_credentials: "core (c\<lparr>tn_realm := r, tn_nonce := n, tn_key := k\<rparr>) = core c"
  by (simp add: core_def)

lemma authTransaction_frame:
  assumes "authTransaction k env method attrs c = (r, c')"
  shows "core c' = core c \<and> (credentials c' = credentials c \<or> renewed k c c')"
proof -
  have two: "auth_attempts k env method attrs 0 (Suc (Suc 0)) c = (r, c')"
    using assms by (simp add: authTransaction_def numeral_2_eq_2)
  show ?thesis
  proof (cases "te_tx (env 0)")
    case (Some tx)
    show ?thesis
    proof (cases "attrs tx")
      case (Inr requestAttrs)
      let ?request = "turnAuthenticatedMessage (tk_hmac k) method turnClassRequest tx requestAttrs
        (tn_username c) (tn_realm c) (tn_nonce c) (tn_key c)"
      obtain res c1 where t: "transaction (env 0) tx ?request c = (res, c1)" by fastforce
      note frame = transaction_frame [OF t]
      show ?thesis
      proof (cases res)
        case Inl
        with two Some Inr t frame show ?thesis by auto
      next
        case res: (Inr response)
        obtain rm cls where ty: "turnDecodeType (get16 response) = (rm, cls)" by fastforce
        obtain code nr nn ce where ch: "turnChallenge response = ((code, nr, nn), ce)" by (metis prod.exhaust_sel)
        let ?c2 = "c1\<lparr>tn_realm := nr, tn_nonce := nn, tn_key := turnLongTermKey (tk_md5 k) (tn_username c1) nr (tn_password c1)\<rparr>"
        show ?thesis
        proof (cases "rm = method \<and> cls = turnClassError \<and> ce = None \<and> code = 438 \<and> turnVerifyIntegrity (tk_hmac k) response (tn_key c)")
          case True
          with two Some Inr t res ty ch have "auth_attempts k env method attrs (Suc 0) (Suc 0) ?c2 = (r, c')"
            by simp
          from auth_attempt_frame [OF this] have "core c' = core ?c2" "credentials c' = credentials ?c2" by auto
          with True frame ch core_fields(6,7) [of c1 c] show ?thesis
            unfolding core_credentials renewed_def by (auto simp: credentials_def)
        next
          case False
          with two Some Inr t res ty ch have "c' = c1" by (auto split: if_splits)
          with frame show ?thesis by simp
        qed
      qed
    qed (use two Some in auto)
  qed (use two in auto)
qed

lemma bindChannel_frame:
  assumes "bindChannel k env c = (r, c')"
  shows "tn_done c' = tn_done c" "tn_conn_closed c' = tn_conn_closed c" "tn_close_once c' = tn_close_once c"
proof -
  obtain r1 c1 where t: "authTransaction k env turnMethodChannelBind (bind_attrs c) c = (r1, c1)" by fastforce
  have "core c1 = core c" using authTransaction_frame [OF t] by simp
  note fields = core_fields(1-3) [OF this]
  from assms t fields show "tn_done c' = tn_done c" "tn_conn_closed c' = tn_conn_closed c" "tn_close_once c' = tn_close_once c"
    by (auto simp: bindChannel_def Let_def split: sum.splits prod.splits if_splits)
qed

lemma createPermission_frame:
  assumes "createPermission k env c = (r, c')"
  shows "tn_done c' = tn_done c" "tn_conn_closed c' = tn_conn_closed c" "tn_close_once c' = tn_close_once c"
proof -
  obtain r1 c1 where t: "authTransaction k env turnMethodCreatePermission (permission_attrs c) c = (r1, c1)" by fastforce
  have "core c1 = core c" using authTransaction_frame [OF t] by simp
  note fields = core_fields(1-3) [OF this]
  from assms t fields show "tn_done c' = tn_done c" "tn_conn_closed c' = tn_conn_closed c" "tn_close_once c' = tn_close_once c"
    by (auto simp: createPermission_def split: sum.splits prod.splits if_splits)
qed

lemma conn_start_frame:
  assumes "conn_start k env c = (r, c')"
  shows "tn_done c' = tn_done c \<and> tn_conn_closed c' = tn_conn_closed c \<and> tn_close_once c' = tn_close_once c"
proof -
  obtain r1 c1 where p: "createPermission k (env 0) c = (r1, c1)" by fastforce
  obtain r2 c2 where b: "bindChannel k (env 1) c1 = (r2, c2)" by fastforce
  from assms p b createPermission_frame [OF p] bindChannel_frame [OF b] show ?thesis
    by (auto simp: conn_start_def split: option.splits if_splits)
qed

lemma conn_Close_closes:
  assumes "\<not> tn_close_once c" "\<not> tn_done c"
  shows "tn_conn_closed (snd (conn_Close k env c)) \<and> tn_done (snd (conn_Close k env c))"
proof -
  let ?c = "c\<lparr>tn_close_once := True\<rparr>"
  obtain r1 c1 where t: "authTransaction k env turnMethodRefresh (\<lambda>_. Inr [(turnAttrLifetime, [0, 0, 0, 0])]) ?c = (r1, c1)" by fastforce
  have "core c1 = core ?c" using authTransaction_frame [OF t] by simp
  from core_fields(1) [OF this] have "\<not> tn_done c1" using assms(2) by simp
  with assms t show ?thesis by (simp add: conn_Close_def conn_terminate_def Let_def)
qed

section \<open>Ownership of a pending allocation\<close>

text \<open>
  A pending allocation with the connections its Connect calls made: those it handed out
  and those it closed because they failed to start.
\<close>

type_synonym pending_state = "turn_pending \<times> turn_conn list \<times> turn_conn list"

datatype pending_op =
    PendingConnect "u16 option" call_env "nat \<Rightarrow> txn_env" "udp_addr option"
  | PendingClose "bytes option" "nat \<Rightarrow> exchange_attempt" \<comment> \<open>a call, or the timer\<close>

fun pending_step :: "turn_crypto \<Rightarrow> pending_state \<Rightarrow> pending_op \<Rightarrow> pending_state" where
  "pending_step k (a, handed, dead) (PendingConnect random env close_env peer) =
     (case pending_Connect k random env close_env peer a of
        (Inr tc, _, a) \<Rightarrow> (a, tc # handed, dead)
      | (Inl _, Some tc, a) \<Rightarrow> (a, handed, tc # dead)
      | (Inl _, None, a) \<Rightarrow> (a, handed, dead))"
| "pending_step k (a, handed, dead) (PendingClose tx env) = (snd (pending_Close k tx env a), handed, dead)"

definition erased :: "turn_pending \<Rightarrow> bool" where
  "erased a \<longleftrightarrow> pa_key a = [] \<and> pa_password a = []"

definition pending_inv :: "pending_state \<Rightarrow> bool" where
  "pending_inv s \<longleftrightarrow> (let (a, handed, dead) = s in
     (pa_wire a \<and> \<not> pa_connected a \<and> \<not> pa_closed a \<and> \<not> pa_socket_closed a \<and> handed = [] \<and> dead = []) \<or>
     (\<not> pa_wire a \<and> pa_connected a \<and> \<not> pa_closed a \<and> \<not> pa_socket_closed a \<and> length handed = 1 \<and> dead = [] \<and> erased a) \<or>
     (\<not> pa_wire a \<and> \<not> pa_connected a \<and> pa_closed a \<and> handed = [] \<and> erased a \<and>
        (if pa_socket_closed a then dead = [] else length dead = 1 \<and> tn_conn_closed (hd dead))))"

definition pending_fresh :: "turn_pending \<Rightarrow> bool" where
  "pending_fresh a \<longleftrightarrow> pa_wire a \<and> \<not> pa_connected a \<and> \<not> pa_closed a \<and> \<not> pa_socket_closed a"

lemma allocate_fresh: "AllocateCandidate k addr_string cfg env = Inr (a, candidate) \<Longrightarrow> pending_fresh a"
  by (auto simp: AllocateCandidate_def pending_fresh_def Let_def split: if_splits option.splits sum.splits prod.splits)

lemma pending_Connect_cases:
  assumes "pending_Connect k random env close_env peer a = (r, tc, a')"
  shows "(a' = a \<and> tc = None \<and> (\<exists>e. r = Inl e)) \<or>
    (pa_wire a \<and> \<not> pa_connected a \<and> \<not> pa_closed a \<and> erased a' \<and> \<not> pa_wire a' \<and> pa_socket_closed a' = pa_socket_closed a \<and>
      ((\<exists>c. r = Inr c \<and> tc = Some c \<and> pa_connected a' \<and> \<not> pa_closed a') \<or>
       (\<exists>e c. r = Inl e \<and> tc = Some c \<and> pa_closed a' \<and> \<not> pa_connected a' \<and> tn_conn_closed c)))"
proof (cases "\<exists>p. peer = Some p \<and> \<not> (ua_ip p = [] \<or> ua_port p < 1 \<or> ua_port p > 65535) \<and> \<not> pa_closed a \<and> \<not> pa_connected a \<and> pa_wire a")
  case False
  with assms show ?thesis by (auto simp: pending_Connect_def split: option.splits if_splits)
next
  case True
  then obtain p where p: "peer = Some p" "\<not> (ua_ip p = [] \<or> ua_port p < 1 \<or> ua_port p > 65535)"
    "\<not> pa_closed a" "\<not> pa_connected a" "pa_wire a" by blast
  let ?tc = "newTURNConn random (pa_stream a) p (pa_relay a) (pa_cfg a) (pa_username a) (pa_password a)
    (pa_realm a) (pa_nonce a) (pa_key a) (pa_lifetime a)"
  obtain e tc1 where start: "conn_start k env ?tc = (e, tc1)" by fastforce
  have "\<not> tn_done tc1" "\<not> tn_close_once tc1"
    using conn_start_frame [OF start] by (simp_all add: newTURNConn_def Let_def)
  with assms p start conn_Close_closes [of tc1 k close_env] show ?thesis
    by (cases e) (auto simp: pending_Connect_def clearCredentials_def erased_def)
qed

interpretation pending: invariant_steps "pending_step k" pending_inv for k :: turn_crypto
proof
  fix s e
  assume inv: "pending_inv s"
  obtain a handed dead where s: "s = (a, handed, dead)" using prod_cases3 by blast
  show "pending_inv (pending_step k s e)"
  proof (cases e)
    case (PendingConnect random env close_env peer)
    obtain r tc a' where c: "pending_Connect k random env close_env peer a = (r, tc, a')" using prod_cases3 by blast
    have fresh: "handed = [] \<and> dead = [] \<and> \<not> pa_socket_closed a" if "pa_wire a"
      using inv that by (auto simp: s pending_inv_def)
    from pending_Connect_cases [OF c] show ?thesis
    proof (elim disjE conjE exE)
      fix e' assume "a' = a" "tc = None" "r = Inl e'"
      with c inv show ?thesis by (simp add: PendingConnect s)
    next
      fix c' assume "r = Inr c'" "pa_wire a" "erased a'" "\<not> pa_wire a'" "pa_socket_closed a' = pa_socket_closed a"
        "pa_connected a'" "\<not> pa_closed a'"
      with c fresh show ?thesis by (simp add: PendingConnect s pending_inv_def)
    next
      fix e' c' assume "r = Inl e'" "tc = Some c'" "pa_wire a" "erased a'" "\<not> pa_wire a'"
        "pa_socket_closed a' = pa_socket_closed a" "pa_closed a'" "\<not> pa_connected a'" "tn_conn_closed c'"
      with c fresh show ?thesis by (simp add: PendingConnect s pending_inv_def)
    qed
  next
    case (PendingClose tx env)
    with inv show ?thesis
      by (auto simp: s pending_inv_def pending_Close_def clearCredentials_def erased_def Let_def)
  qed
qed

section \<open>Data path\<close>

lemma visit_two:
  assumes "ty1 \<noteq> turnAttrMessageIntegrity" "ty2 \<noteq> turnAttrMessageIntegrity"
  shows "visit_all visit off s [(ty1, v1), (ty2, v2)] =
    (case visit s ty1 v1 off of (s1, go) \<Rightarrow> if go then fst (visit s1 ty2 v2 (off + 4 + pad4 (length v1))) else s1)"
  using assms by (simp add: case_prod_beta Let_def)






abbreviation demo_turn_config :: turn_config where
  "demo_turn_config \<equiv> \<lparr>tc_server = ''turn.example:3478'', tc_username = ''u'', tc_password = ''p'', tc_transport = ''udp'',
     tc_tls_config = None, tc_tls_server_name = [], tc_timeout = second, tc_refresh_interval = 0, tc_max_datagram = 65046,
     tc_retransmits = 3, tc_enable_channel = True, tc_channel = 0x4001\<rparr>"

abbreviation demo_turn_crypto :: turn_crypto where
  "demo_turn_crypto \<equiv> \<lparr>tk_hmac = demo_hmac, tk_md5 = \<lambda>m. replicate 16 3\<rparr>"


abbreviation demo_silent :: txn_env where
  "demo_silent \<equiv> \<lparr>te_tx = Some demo_tx, te_write = True, te_messages = [], te_end = TurnTimeout\<rparr>"

section \<open>Properties\<close>





text \<open>
  A pending TURN allocation has one owner at any time: after any sequence of Connect
  and Close calls and timer expiries on a fresh allocation, at most one connection was
  handed out, the control socket is still held by the unconnected allocation, or belongs
  to that one connection, or is closed, and the credentials of the allocation are erased
  as soon as it no longer holds the socket.
\<close>

theorem turn_pending_single_owner:
  assumes "pending_fresh a" "foldl (pending_step k) (a, [], []) ops = (a', handed, dead)"
  shows "length handed \<le> 1 \<and> (\<not> pa_wire a' \<longrightarrow> pa_key a' = [] \<and> pa_password a' = []) \<and>
    ((pa_wire a' \<and> \<not> pa_socket_closed a' \<and> handed = [] \<and> dead = []) \<or>
     (\<not> pa_wire a' \<and> length handed = 1 \<and> dead = []) \<or>
     (\<not> pa_wire a' \<and> handed = [] \<and> (if dead = [] then pa_socket_closed a' else tn_conn_closed (hd dead))))"
proof -
  have "pending_inv (a, [], [])" using assms(1) by (simp add: pending_fresh_def pending_inv_def)
  then have "pending_inv (foldl (pending_step k) (a, [], []) ops)" by (rule pending.run_inv)
  then have "pending_inv (a', handed, dead)" unfolding assms(2) .
  then show ?thesis unfolding pending_inv_def Let_def prod.case erased_def
    by (elim disjE conjE) (simp_all split: if_splits, auto)
qed

abbreviation demo_pending :: turn_pending where
  "demo_pending \<equiv> \<lparr>pa_wire = True, pa_stream = False, pa_cfg = demo_turn_config, pa_username = ''u'', pa_password = ''p'',
     pa_realm = ''r'', pa_nonce = ''n'', pa_key = [1], pa_relay = \<lparr>ua_ip = [192, 0, 2, 1], ua_port = 5000\<rparr>,
     pa_lifetime = 600 * second, pa_connected = False, pa_closed = False, pa_close_err = None, pa_timer = True,
     pa_socket_closed = False\<rparr>"

theorem turn_pending_single_owner_witness:
  "length (fst (snd (foldl (pending_step demo_turn_crypto) (demo_pending, [], [])
     [PendingConnect None (\<lambda>_ _. demo_silent) (\<lambda>_. demo_silent) (Some \<lparr>ua_ip = [10, 0, 0, 1], ua_port = 4000\<rparr>),
      PendingClose None (\<lambda>_. ExchangeReads [])]))) \<le> 1"
proof -
  have "pending_fresh demo_pending" by (simp add: pending_fresh_def)
  from turn_pending_single_owner [OF this] show ?thesis by (metis prod.exhaust_sel)
qed

end
