(* ===== verification/Prepared_ICE.thy ===== *)
theory Prepared_ICE
  imports ICE Punch_Auth Negotiation Turn_Conn
begin

text \<open>
  The P2P manager: identity, prepared negotiation sockets and relays, hole punching and the
  establishment of sessions (\<^verbatim>\<open>p2p.go\<close>, \<^verbatim>\<open>prepared_ice.go\<close>, \<^verbatim>\<open>p2p_ice.go\<close>).
  UDP sockets and relay allocations are objects of a store, addressed by their index, so
  that ownership can be stated. A method that holds the mutex from start to end is one
  function; \<^verbatim>\<open>PrepareICE\<close>, \<^verbatim>\<open>PrepareICEWithRelay\<close> and \<^verbatim>\<open>PunchHole\<close> release it, so
  they are split where they do and other calls may run in between. The clock, the
  operating system's answers and the datagrams received are arguments.
\<close>

section \<open>Data\<close>

text \<open>A UDP socket with its deadlines; \<open>None\<close> is the zero time, no deadline.\<close>

record socket =
  so_open :: bool
  so_read_deadline :: "time option"
  so_write_deadline :: "time option"

text \<open>
  A \<^verbatim>\<open>PendingRelayAllocation\<close> as the manager sees it. That \<open>turn_pending\<close> behaves so is
  shown below.
\<close>

datatype relay_state = RelayPending | RelayConnected | RelayClosed

datatype conn = SocketConn nat udp_addr | RelayConn nat

record prepared =
  pe_conn :: nat
  pe_candidates :: "candidate list"
  pe_relay :: "nat option"
  pe_expires :: time
  pe_timer :: bool
  pe_watch :: bool
  pe_claimed :: bool

record p2p_connection =
  pn_peer :: string
  pn_conn :: conn
  pn_local :: string
  pn_remote :: string
  pn_established :: time

record manager =
  pm_peer :: string
  pm_stun :: string
  pm_public :: string
  pm_local :: string
  pm_nat :: int
  pm_token :: string
  pm_session :: string
  pm_replay :: punch_cache
  pm_connections :: "(string, p2p_connection) gomap"
  pm_prepared :: "(string, prepared) gomap"
  pm_preparing :: "string list"
  pm_sockets :: "socket list"
  pm_relays :: "relay_state list"

definition maxPreparedICE :: nat where "maxPreparedICE = 128"
definition preparedICETTL :: time where "preparedICETTL = 30 * second"
definition defaultPunchMaxSkew :: time where "defaultPunchMaxSkew = 30 * second"
definition punchConfirmations :: nat where "punchConfirmations = 3"

section \<open>Identity and connections\<close>

definition NewP2PManager :: "bytes option \<Rightarrow> bytes option \<Rightarrow> string \<Rightarrow> string \<Rightarrow> manager" where
  "NewP2PManager rand_token rand_session peerID stunServer =
     \<lparr>pm_peer = peerID,
      pm_stun = (if stunServer = [] then ''stun.l.google.com:19302'' else stunServer),
      pm_public = [], pm_local = [], pm_nat = 0,
      pm_token = randomToken rand_token, pm_session = randomToken rand_session,
      pm_replay = NewPunchReplayCache (int defaultReplayEntries),
      pm_connections = [], pm_prepared = [], pm_preparing = [], pm_sockets = [], pm_relays = []\<rparr>"

definition NewP2PManagerWithToken :: "bytes option \<Rightarrow> bytes option \<Rightarrow> string \<Rightarrow> string \<Rightarrow> string \<Rightarrow> manager" where
  "NewP2PManagerWithToken rand_token rand_session peerID stunServer token =
     (let m = NewP2PManager rand_token rand_session peerID stunServer
      in if token \<noteq> [] then m\<lparr>pm_token := token\<rparr> else m)"

definition AdoptPeerID :: "string \<Rightarrow> manager \<Rightarrow> bool \<times> manager" where
  "AdoptPeerID i m = (if pm_peer m \<noteq> [] \<or> i = [] then (False, m) else (True, m\<lparr>pm_peer := i\<rparr>))"

text \<open>\<^verbatim>\<open>stun.NATType\<close> is an int of the go-stun package; \<open>nat_string\<close> is its \<^verbatim>\<open>String\<close>.\<close>

definition SignalingPeerInfo :: "(int \<Rightarrow> string) \<Rightarrow> manager \<Rightarrow> peer_info" where
  "SignalingPeerInfo nat_string m = \<lparr>pi_peer = pm_peer m, pi_public = pm_public m, pi_local = pm_local m,
     pi_nat = nat_string (pm_nat m), pi_token = pm_token m, pi_session = pm_session m\<rparr>"

text \<open>
  \<^verbatim>\<open>DiscoverPublicAddr\<close>: \<open>full\<close> is what the go-stun client finds when the simple binding
  fails (NAT type and address), \<open>dialed\<close> the local address of a UDP dial to the server and
  \<open>unknown\<close> the constant \<^verbatim>\<open>stun.NATUnknown\<close>.
\<close>

definition DiscoverPublicAddr ::
  "(int \<Rightarrow> string) \<Rightarrow> int \<Rightarrow> stun_env \<Rightarrow> string \<Rightarrow> (int \<times> string) option \<Rightarrow> string option \<Rightarrow> manager \<Rightarrow>
   peer_info option \<times> manager" where
  "DiscoverPublicAddr nat_string unknown env localAddr full dialed m =
     (case simpleSTUNBinding env localAddr of
        Inl _ \<Rightarrow>
          (case full of None \<Rightarrow> (None, m)
           | Some (natType, host) \<Rightarrow>
               let m = m\<lparr>pm_nat := natType, pm_public := host,
                         pm_local := (case dialed of Some a \<Rightarrow> a | None \<Rightarrow> pm_local m)\<rparr>
               in (Some (SignalingPeerInfo nat_string m), m))
      | Inr (public, loc) \<Rightarrow>
          let m = m\<lparr>pm_public := public, pm_local := loc, pm_nat := unknown\<rparr>
          in (Some (SignalingPeerInfo (\<lambda>_. ''unknown'') m), m))"

definition close_socket :: "nat \<Rightarrow> manager \<Rightarrow> manager" where
  "close_socket i m = m\<lparr>pm_sockets := (pm_sockets m)[i := (pm_sockets m ! i)\<lparr>so_open := False\<rparr>]\<rparr>"

definition close_relay :: "nat \<Rightarrow> manager \<Rightarrow> manager" where
  "close_relay i m = m\<lparr>pm_relays := (pm_relays m)[i :=
     (if pm_relays m ! i = RelayPending then RelayClosed else pm_relays m ! i)]\<rparr>"

fun close_conn :: "conn \<Rightarrow> manager \<Rightarrow> manager" where
  "close_conn (SocketConn i _) m = close_socket i m"
| "close_conn (RelayConn i) m = m\<lparr>pm_relays := (pm_relays m)[i := RelayClosed]\<rparr>"

definition GetConnection :: "string \<Rightarrow> manager \<Rightarrow> p2p_connection option" where
  "GetConnection peerID m = gm_get (pm_connections m) peerID"

definition CloseConnection :: "string \<Rightarrow> manager \<Rightarrow> manager" where
  "CloseConnection peerID m =
     (case gm_get (pm_connections m) peerID of
        None \<Rightarrow> m
      | Some c \<Rightarrow> (close_conn (pn_conn c) m)\<lparr>pm_connections := gm_del peerID (pm_connections m)\<rparr>)"

definition removeClosedICESession :: "string \<Rightarrow> conn \<Rightarrow> manager \<Rightarrow> manager" where
  "removeClosedICESession peerID c m =
     (case gm_get (pm_connections m) peerID of
        Some p \<Rightarrow> if pn_conn p = c then m\<lparr>pm_connections := gm_del peerID (pm_connections m)\<rparr> else m
      | None \<Rightarrow> m)"

section \<open>Prepared sockets\<close>

text \<open>Closing what an entry owns.\<close>

definition close_entry :: "prepared \<Rightarrow> manager \<Rightarrow> manager" where
  "close_entry p m = close_socket (pe_conn p) (case pe_relay p of Some r \<Rightarrow> close_relay r m | None \<Rightarrow> m)"

definition is_expired :: "time \<Rightarrow> prepared \<Rightarrow> bool" where
  "is_expired now p \<longleftrightarrow> \<not> pe_claimed p \<and> pe_expires p \<le> now"

definition expirePreparedLocked :: "time \<Rightarrow> manager \<Rightarrow> manager" where
  "expirePreparedLocked now m =
     (fold close_entry (filter (is_expired now) (map snd (pm_prepared m))) m)
       \<lparr>pm_prepared := gm_keep (\<lambda>_ p. \<not> is_expired now p) (pm_prepared m)\<rparr>"

definition CancelPreparedICE :: "string \<Rightarrow> manager \<Rightarrow> manager" where
  "CancelPreparedICE sessionID m =
     (case gm_get (pm_prepared m) sessionID of
        None \<Rightarrow> m
      | Some p \<Rightarrow> (close_entry p m)\<lparr>pm_prepared := gm_del sessionID (pm_prepared m)\<rparr>)"

text \<open>The callback of an entry's timer.\<close>

definition expirePreparedSession :: "time \<Rightarrow> string \<Rightarrow> nat \<Rightarrow> manager \<Rightarrow> manager" where
  "expirePreparedSession now sessionID conn m =
     (case gm_get (pm_prepared m) sessionID of
        None \<Rightarrow> m
      | Some p \<Rightarrow>
          if pe_conn p \<noteq> conn \<or> pe_claimed p \<or> now < pe_expires p then m
          else (close_entry p m)\<lparr>pm_prepared := gm_del sessionID (pm_prepared m)\<rparr>)"

definition preparedSocket :: "time \<Rightarrow> string \<Rightarrow> manager \<Rightarrow> nat option \<times> manager" where
  "preparedSocket now sessionID m =
     (let m = expirePreparedLocked now m in
      case gm_get (pm_prepared m) sessionID of
        None \<Rightarrow> (None, m)
      | Some p \<Rightarrow> (Some (pe_conn p),
          m\<lparr>pm_prepared := gm_put sessionID (p\<lparr>pe_expires := now + preparedICETTL, pe_timer := True\<rparr>) (pm_prepared m)\<rparr>))"

definition claimPrepared :: "time \<Rightarrow> string \<Rightarrow> manager \<Rightarrow> nat option \<times> manager" where
  "claimPrepared now sessionID m =
     (let m = expirePreparedLocked now m in
      case gm_get (pm_prepared m) sessionID of
        None \<Rightarrow> (None, m)
      | Some p \<Rightarrow>
          if pe_claimed p then (None, m)
          else (Some (pe_conn p),
            m\<lparr>pm_prepared := gm_put sessionID (p\<lparr>pe_claimed := True, pe_timer := False\<rparr>) (pm_prepared m)\<rparr>))"

definition relay_candidate :: "candidate list \<Rightarrow> candidate option" where
  "relay_candidate cs = find (\<lambda>c. cd_type c = CandidateRelay) cs"

definition preparedRelay :: "time \<Rightarrow> string \<Rightarrow> manager \<Rightarrow> (nat \<times> candidate) option \<times> manager" where
  "preparedRelay now sessionID m =
     (let m = expirePreparedLocked now m in
      case gm_get (pm_prepared m) sessionID of
        None \<Rightarrow> (None, m)
      | Some p \<Rightarrow>
          (case (pe_relay p, relay_candidate (pe_candidates p)) of
             (Some r, Some c) \<Rightarrow> (Some (r, c),
               if pe_claimed p then m
               else m\<lparr>pm_prepared := gm_put sessionID (p\<lparr>pe_expires := now + preparedICETTL, pe_timer := True\<rparr>)
                        (pm_prepared m)\<rparr>)
           | _ \<Rightarrow> (None, m)))"

definition transferPreparedSocket :: "string \<Rightarrow> nat \<Rightarrow> manager \<Rightarrow> manager" where
  "transferPreparedSocket sessionID conn m =
     (case gm_get (pm_prepared m) sessionID of
        Some p \<Rightarrow>
          if pe_conn p = conn
          then (case pe_relay p of Some r \<Rightarrow> close_relay r m | None \<Rightarrow> m)
                 \<lparr>pm_prepared := gm_del sessionID (pm_prepared m)\<rparr>
          else m
      | None \<Rightarrow> m)"

definition transferPreparedRelay :: "string \<Rightarrow> nat \<Rightarrow> manager \<Rightarrow> manager" where
  "transferPreparedRelay sessionID allocation m =
     (case gm_get (pm_prepared m) sessionID of
        Some p \<Rightarrow>
          if pe_relay p = Some allocation
          then (close_socket (pe_conn p) m)\<lparr>pm_prepared := gm_del sessionID (pm_prepared m)\<rparr>
          else m
      | None \<Rightarrow> m)"

definition manager_Close :: "manager \<Rightarrow> manager" where
  "manager_Close m =
     (let m' = m\<lparr>pm_prepared := [], pm_preparing := [], pm_connections := []\<rparr>;
          m' = fold close_entry (map snd (pm_prepared m)) m'
      in fold close_conn (map (pn_conn \<circ> snd) (pm_connections m)) m')"

section \<open>PrepareICE\<close>

datatype prepare_error =
    PrepareArguments | PrepareContext | AlreadyPreparing | PrepareCapacity | BindFailed
  | NoHostCandidates | PrepareDeadlineFailed | RelayAllocationFailed | RelayCandidateInvalid
  | RelayCandidateError candidate_error | PrepareExpired

text \<open>
  \<^verbatim>\<open>hostCandidatesForPort\<close>: \<open>addrs\<close> are the interface addresses that parse, in order,
  as text with whether they are IPv4.
\<close>

definition host_endpoint :: "int \<Rightarrow> string \<Rightarrow> candidate" where
  "host_endpoint port ip = (let endpoint = ip @ '':'' @ format_int port in
     \<lparr>cd_id = ''host-'' @ endpoint, cd_type = CandidateHost, cd_addr = endpoint, cd_priority = 126\<rparr>)"

fun add_hosts :: "int \<Rightarrow> (string \<times> bool) list \<Rightarrow> candidate list \<Rightarrow> candidate list" where
  "add_hosts port [] out = out"
| "add_hosts port ((ip, v4) # addrs) out =
     (if \<not> v4 \<or> host_endpoint port ip \<in> set out then add_hosts port addrs out
      else add_hosts port addrs (out @ [host_endpoint port ip]))"

definition hostCandidatesForPort :: "(string \<times> bool) list \<Rightarrow> int \<Rightarrow> candidate list" where
  "hostCandidatesForPort addrs port =
     (let out = add_hosts port addrs []; loopback = host_endpoint port ''127.0.0.1'' in
      if loopback \<in> set out then out else out @ [loopback])"

datatype prepare_start = PrepareRefused prepare_error | PrepareExisting "candidate list" | PrepareReserved

text \<open>Up to the first unlock.\<close>

definition prepare_begin :: "time \<Rightarrow> ctx option \<Rightarrow> string \<Rightarrow> manager \<Rightarrow> prepare_start \<times> manager" where
  "prepare_begin now cx negotiationID m =
     (case cx of None \<Rightarrow> (PrepareRefused PrepareArguments, m)
      | Some c \<Rightarrow>
          if negotiationID = [] then (PrepareRefused PrepareArguments, m)
          else if ctx_err c now then (PrepareRefused PrepareContext, m)
          else let m = expirePreparedLocked now m in
            case gm_get (pm_prepared m) negotiationID of
              Some existing \<Rightarrow> (PrepareExisting (cloneCandidates (pe_candidates existing)), m)
            | None \<Rightarrow>
                if negotiationID \<in> set (pm_preparing m) then (PrepareRefused AlreadyPreparing, m)
                else if length (pm_prepared m) + length (pm_preparing m) \<ge> maxPreparedICE
                then (PrepareRefused PrepareCapacity, m)
                else (PrepareReserved, m\<lparr>pm_preparing := negotiationID # pm_preparing m\<rparr>))"

text \<open>The deferred release of the reservation.\<close>

definition prepare_release :: "string \<Rightarrow> manager \<Rightarrow> manager" where
  "prepare_release negotiationID m = m\<lparr>pm_preparing := removeAll negotiationID (pm_preparing m)\<rparr>"

text \<open>\<^verbatim>\<open>net.ListenUDP\<close>: a fresh socket without deadlines.\<close>

definition listen_udp :: "manager \<Rightarrow> nat \<times> manager" where
  "listen_udp m = (length (pm_sockets m), m\<lparr>pm_sockets := pm_sockets m @
     [\<lparr>so_open = True, so_read_deadline = None, so_write_deadline = None\<rparr>]\<rparr>)"

definition set_read_deadline :: "nat \<Rightarrow> time option \<Rightarrow> manager \<Rightarrow> manager" where
  "set_read_deadline i d m = m\<lparr>pm_sockets := (pm_sockets m)[i := (pm_sockets m ! i)\<lparr>so_read_deadline := d\<rparr>]\<rparr>"

definition set_deadline :: "nat \<Rightarrow> time option \<Rightarrow> manager \<Rightarrow> manager" where
  "set_deadline i d m = m\<lparr>pm_sockets := (pm_sockets m)[i :=
     (pm_sockets m ! i)\<lparr>so_read_deadline := d, so_write_deadline := d\<rparr>]\<rparr>"

text \<open>
  Candidates of a bound socket: the host candidates and, with a STUN server, the mapped
  address. \<^verbatim>\<open>stunBindingOnSocket\<close> sets the deadline of both directions once the server is
  resolved and the transaction ID drawn.
\<close>

definition prepare_gather ::
  "(string \<times> bool) list \<Rightarrow> int \<Rightarrow> stun_env \<Rightarrow> bool \<Rightarrow> time \<Rightarrow> ctx \<Rightarrow> string \<Rightarrow> nat \<Rightarrow> manager \<Rightarrow> candidate list \<times> manager" where
  "prepare_gather addrs port env from_server now c stunServer i m =
     (let candidates = hostCandidatesForPort addrs port in
      if stunServer = [] then (candidates, m)
      else
        let deadline = (case cx_deadline c of Some d \<Rightarrow> min d (now + 3 * second) | None \<Rightarrow> now + 3 * second);
            m = (if se_resolve env \<and> se_tx env \<noteq> None \<and> se_deadline env then set_deadline i (Some deadline) m else m)
        in case stunBindingOnSocket env from_server of
             Inr mapped \<Rightarrow> (candidates @ [\<lparr>cd_id = ''srflx-'' @ mapped, cd_type = CandidateSrflx,
                                cd_addr = mapped, cd_priority = 100\<rparr>], m)
           | Inl _ \<Rightarrow> (candidates, m))"

text \<open>From the second lock on: the socket is registered, or closed. \<open>deadline_ok\<close> is whether
  \<^verbatim>\<open>SetReadDeadline\<close> succeeds.\<close>

definition prepare_finish ::
  "time \<Rightarrow> time \<Rightarrow> bool \<Rightarrow> ctx \<Rightarrow> string \<Rightarrow> nat \<Rightarrow> candidate list \<Rightarrow> manager \<Rightarrow> (prepare_error + candidate list) \<times> manager" where
  "prepare_finish now later deadline_ok c negotiationID i candidates m =
     (if candidates = [] then (Inl NoHostCandidates, close_socket i m)
      else if \<not> deadline_ok then (Inl PrepareDeadlineFailed, close_socket i m)
      else
        let m = expirePreparedLocked now (set_read_deadline i None m) in
        case gm_get (pm_prepared m) negotiationID of
          Some existing \<Rightarrow> (Inr (cloneCandidates (pe_candidates existing)), close_socket i m)
        | None \<Rightarrow>
            if length (pm_prepared m) \<ge> maxPreparedICE then (Inl PrepareCapacity, close_socket i m)
            else
              let p = \<lparr>pe_conn = i, pe_candidates = cloneCandidates candidates, pe_relay = None,
                       pe_expires = now + preparedICETTL, pe_timer = True, pe_watch = True, pe_claimed = False\<rparr>;
                  m = m\<lparr>pm_prepared := gm_put negotiationID p (pm_prepared m)\<rparr>
              in if ctx_err c later then (Inl PrepareContext, CancelPreparedICE negotiationID m)
                 else (Inr candidates, m))"

text \<open>What the operating system answers during one call.\<close>

record prepare_env =
  pv_bind :: "int option" \<comment> \<open>the port of the new socket\<close>
  pv_addrs :: "(string \<times> bool) list"
  pv_stun :: stun_env
  pv_from_server :: bool
  pv_stun_time :: time
  pv_deadline_ok :: bool
  pv_finish_time :: time
  pv_return_time :: time

definition PrepareICE ::
  "prepare_env \<Rightarrow> time \<Rightarrow> ctx option \<Rightarrow> string \<Rightarrow> string \<Rightarrow> manager \<Rightarrow> (prepare_error + candidate list) \<times> manager" where
  "PrepareICE env now cx negotiationID stunServer m =
     (case prepare_begin now cx negotiationID m of
        (PrepareRefused e, m) \<Rightarrow> (Inl e, m)
      | (PrepareExisting cs, m) \<Rightarrow> (Inr cs, m)
      | (PrepareReserved, m) \<Rightarrow>
          (case pv_bind env of
             None \<Rightarrow> (Inl BindFailed, prepare_release negotiationID m)
           | Some port \<Rightarrow>
               let (i, m) = listen_udp m;
                   (candidates, m) = prepare_gather (pv_addrs env) port (pv_stun env) (pv_from_server env)
                     (pv_stun_time env) (the cx) stunServer i m;
                   (r, m) = prepare_finish (pv_finish_time env) (pv_return_time env) (pv_deadline_ok env) (the cx)
                     negotiationID i candidates m
               in (r, prepare_release negotiationID m)))"

text \<open>
  \<^verbatim>\<open>PrepareICEWithRelay\<close> after \<^verbatim>\<open>PrepareICE\<close>: a look at the entry, the allocation (a new
  pending relay in the store), and the attachment.
\<close>

definition relay_present :: "string \<Rightarrow> manager \<Rightarrow> candidate list option" where
  "relay_present negotiationID m =
     (case gm_get (pm_prepared m) negotiationID of
        Some p \<Rightarrow> if pe_relay p \<noteq> None then Some (cloneCandidates (pe_candidates p)) else None
      | None \<Rightarrow> None)"

definition new_relay :: "manager \<Rightarrow> nat \<times> manager" where
  "new_relay m = (length (pm_relays m), m\<lparr>pm_relays := pm_relays m @ [RelayPending]\<rparr>)"

definition attach_relay ::
  "(string \<Rightarrow> bool) \<Rightarrow> string \<Rightarrow> nat \<Rightarrow> candidate \<Rightarrow> manager \<Rightarrow> (prepare_error + candidate list) \<times> manager" where
  "attach_relay addr_ok negotiationID r candidate m =
     (if cd_type candidate \<noteq> CandidateRelay
      then (Inl RelayCandidateInvalid, CancelPreparedICE negotiationID (close_relay r m))
      else case ValidateCandidate addr_ok candidate of
        Some e \<Rightarrow> (Inl (RelayCandidateError e), CancelPreparedICE negotiationID (close_relay r m))
      | None \<Rightarrow>
          (case gm_get (pm_prepared m) negotiationID of
             None \<Rightarrow> (Inl PrepareExpired, close_relay r m)
           | Some p \<Rightarrow>
               if pe_relay p \<noteq> None then (Inr (cloneCandidates (pe_candidates p)), close_relay r m)
               else let p = p\<lparr>pe_relay := Some r, pe_candidates := pe_candidates p @ [candidate]\<rparr>
                    in (Inr (cloneCandidates (pe_candidates p)), m\<lparr>pm_prepared := gm_put negotiationID p (pm_prepared m)\<rparr>)))"

text \<open>What an allocator returns: an error, a nil allocation, or an allocation with its candidate.\<close>

datatype allocation = AllocateError | AllocateNil | Allocated candidate

definition PrepareICEWithRelay ::
  "(string \<Rightarrow> bool) \<Rightarrow> prepare_env \<Rightarrow> allocation option \<Rightarrow> time \<Rightarrow> ctx option \<Rightarrow> string \<Rightarrow> string \<Rightarrow> manager \<Rightarrow>
   (prepare_error + candidate list) \<times> manager" where
  "PrepareICEWithRelay addr_ok env allocate now cx negotiationID stunServer m =
     (case PrepareICE env now cx negotiationID stunServer m of
        (Inl e, m) \<Rightarrow> (Inl e, m)
      | (Inr candidates, m) \<Rightarrow>
          (case allocate of
             None \<Rightarrow> (Inr candidates, m)
           | Some a \<Rightarrow>
               (case relay_present negotiationID m of
                  Some out \<Rightarrow> (Inr out, m)
                | None \<Rightarrow>
                    (case a of
                       AllocateError \<Rightarrow> (Inl RelayAllocationFailed, CancelPreparedICE negotiationID m)
                     | AllocateNil \<Rightarrow> (Inl RelayCandidateInvalid, CancelPreparedICE negotiationID m)
                     | Allocated candidate \<Rightarrow>
                         let (r, m) = new_relay m in attach_relay addr_ok negotiationID r candidate m))))"

section \<open>Hole punching\<close>

text \<open>
  One pass of a punching loop: the instant of its read, whether \<^verbatim>\<open>SetReadDeadline\<close> succeeded,
  the datagram read with its source, and what its \<^verbatim>\<open>select\<close> finds.
\<close>

datatype punch_select = SelectDone | SelectTick | SelectDefault

record punch_iter =
  pt_time :: time
  pt_deadline_ok :: bool
  pt_read :: "(udp_addr \<times> string) option"
  pt_select :: punch_select

datatype punch_failure =
    PunchCapability | PunchResolve | PunchBind | PunchMessage punch_error | PunchWrite | PunchDeadline
  | PunchContext | PunchTimeout

text \<open>
  \<^verbatim>\<open>WriteToUDP\<close> fails on a closed socket and after the write deadline; \<open>net_ok\<close> is whether
  the network takes the datagram.
\<close>

definition can_write :: "time \<Rightarrow> nat \<Rightarrow> manager \<Rightarrow> bool" where
  "can_write now i m \<longleftrightarrow> i < length (pm_sockets m) \<and> so_open (pm_sockets m ! i) \<and>
     (case so_write_deadline (pm_sockets m ! i) of Some d \<Rightarrow> now < d | None \<Rightarrow> True)"

definition same_endpoint :: "udp_addr \<Rightarrow> udp_addr \<Rightarrow> bool" where
  "same_endpoint a b \<longleftrightarrow> ip_equal (ua_ip a) (ua_ip b) \<and> ua_port a = ua_port b"

definition punch_valid ::
  "(bytes \<Rightarrow> bytes \<Rightarrow> bytes) \<Rightarrow> nat \<Rightarrow> time \<Rightarrow> peer_info \<Rightarrow> string \<Rightarrow> manager \<Rightarrow> bool \<times> manager" where
  "punch_valid hmac buf now peer msg m =
     (let (valid, replay) = validateAuthenticatedPunch hmac (take buf msg) (pm_token m) (pi_peer peer) (pm_session m)
        now defaultPunchMaxSkew (pm_replay m)
      in (valid, m\<lparr>pm_replay := replay\<rparr>))"

definition read_until :: "time \<Rightarrow> time \<Rightarrow> ctx \<Rightarrow> time" where
  "read_until now wait c = (case cx_deadline c of Some d \<Rightarrow> min d (now + wait) | None \<Rightarrow> now + wait)"

text \<open>The loop of \<^verbatim>\<open>punchPrepared\<close>: its result (\<open>None\<close> while it still runs), the probes sent and the manager.\<close>

fun punch_loop ::
  "(bytes \<Rightarrow> bytes \<Rightarrow> bytes) \<Rightarrow> ctx \<Rightarrow> string \<Rightarrow> nat \<Rightarrow> udp_addr \<Rightarrow> peer_info \<Rightarrow> punch_iter list \<Rightarrow> manager \<Rightarrow>
   (punch_failure + conn) option \<times> string list \<times> manager" where
  "punch_loop hmac c probe i remote peer [] m = (None, [], m)"
| "punch_loop hmac c probe i remote peer (it # its) m =
     (if \<not> pt_deadline_ok it then (Some (Inl PunchDeadline), [], m)
      else
        let m = set_read_deadline i (Some (read_until (pt_time it) (100 * millisecond) c)) m;
            (source, m) = (case pt_read it of
               Some (source, msg) \<Rightarrow>
                 if same_endpoint source remote
                 then let (valid, m) = punch_valid hmac 2048 (pt_time it) peer msg m in (if valid then Some source else None, m)
                 else (None, m)
             | None \<Rightarrow> (None, m))
        in case source of
             Some source \<Rightarrow>
               (Some (Inr (SocketConn i source)),
                if can_write (pt_time it) i m then replicate punchConfirmations probe else [], set_read_deadline i None m)
           | None \<Rightarrow>
               (case pt_select it of
                  SelectDone \<Rightarrow> (Some (Inl PunchContext), [], set_read_deadline i None m)
                | SelectTick \<Rightarrow>
                    (let (r, sent, m') = punch_loop hmac c probe i remote peer its m
                     in (r, (if can_write (pt_time it) i m then [probe] else []) @ sent, m'))
                | SelectDefault \<Rightarrow> punch_loop hmac c probe i remote peer its m))"

record punch_env =
  pq_time :: time
  pq_resolve :: "string \<Rightarrow> udp_addr option"
  pq_rand :: "bytes option"
  pq_net_ok :: bool
  pq_iters :: "punch_iter list"

definition punchPrepared ::
  "(bytes \<Rightarrow> bytes \<Rightarrow> bytes) \<Rightarrow> punch_env \<Rightarrow> ctx \<Rightarrow> nat \<Rightarrow> peer_info \<Rightarrow> candidate \<Rightarrow> manager \<Rightarrow>
   (punch_failure + conn) option \<times> string list \<times> manager" where
  "punchPrepared hmac env c i peer candidate m =
     (case pq_resolve env (cd_addr candidate) of
        None \<Rightarrow> (Some (Inl PunchResolve), [], m)
      | Some remote \<Rightarrow>
          (case authenticatedPunchMessage hmac (pq_rand env) (pi_token peer) (pm_peer m) (pi_session peer) (pq_time env) of
             Inl e \<Rightarrow> (Some (Inl (PunchMessage e)), [], m)
           | Inr probe \<Rightarrow>
               if \<not> can_write (pq_time env) i m \<or> \<not> pq_net_ok env then (Some (Inl PunchWrite), [], m)
               else let (r, sent, m) = punch_loop hmac c probe i remote peer (pq_iters env) m in (r, probe # sent, m)))"

text \<open>\<^verbatim>\<open>punchConnected\<close>: the same exchange over a relay connection, whose reads have one source.\<close>

fun relay_punch_loop ::
  "(bytes \<Rightarrow> bytes \<Rightarrow> bytes) \<Rightarrow> nat \<Rightarrow> peer_info \<Rightarrow> punch_iter list \<Rightarrow> manager \<Rightarrow> (punch_failure + conn) option \<times> manager" where
  "relay_punch_loop hmac r peer [] m = (None, m)"
| "relay_punch_loop hmac r peer (it # its) m =
     (if \<not> pt_deadline_ok it then (Some (Inl PunchDeadline), m)
      else
        let (valid, m) = (case pt_read it of Some (_, msg) \<Rightarrow> punch_valid hmac 2048 (pt_time it) peer msg m | None \<Rightarrow> (False, m))
        in if valid then (Some (Inr (RelayConn r)), m)
           else (case pt_select it of
                   SelectDone \<Rightarrow> (Some (Inl PunchContext), m)
                 | _ \<Rightarrow> relay_punch_loop hmac r peer its m))"

definition punchConnected ::
  "(bytes \<Rightarrow> bytes \<Rightarrow> bytes) \<Rightarrow> punch_env \<Rightarrow> nat \<Rightarrow> peer_info \<Rightarrow> manager \<Rightarrow> (punch_failure + conn) option \<times> manager" where
  "punchConnected hmac env r peer m =
     (case authenticatedPunchMessage hmac (pq_rand env) (pi_token peer) (pm_peer m) (pi_session peer) (pq_time env) of
        Inl e \<Rightarrow> (Some (Inl (PunchMessage e)), m)
      | Inr probe \<Rightarrow>
          if \<not> pq_net_ok env then (Some (Inl PunchWrite), m)
          else relay_punch_loop hmac r peer (pq_iters env) m)"

text \<open>
  \<^verbatim>\<open>PunchHole\<close>. Its sender goroutine repeats one message until the context ends. Its
  receiving loop checks the context first, so \<open>SelectDone\<close> ends a pass before the read.
\<close>

definition punch_sender :: "(bytes \<Rightarrow> bytes \<Rightarrow> bytes) \<Rightarrow> bytes option \<Rightarrow> peer_info \<Rightarrow> time \<Rightarrow> nat \<Rightarrow> manager \<Rightarrow> string list" where
  "punch_sender hmac rand peer now ticks m =
     (case authenticatedPunchMessage hmac rand (pi_token peer) (pm_peer m) (pi_session peer) now of
        Inl _ \<Rightarrow> [] | Inr punchMsg \<Rightarrow> replicate ticks punchMsg)"

fun hole_loop ::
  "(bytes \<Rightarrow> bytes \<Rightarrow> bytes) \<Rightarrow> ctx \<Rightarrow> (udp_addr \<Rightarrow> string) \<Rightarrow> string \<Rightarrow> nat \<Rightarrow> peer_info \<Rightarrow> punch_iter list \<Rightarrow> manager \<Rightarrow>
   (punch_failure + p2p_connection) option \<times> manager" where
  "hole_loop hmac c show_addr loc i peer [] m = (None, m)"
| "hole_loop hmac c show_addr loc i peer (it # its) m =
     (if pt_select it = SelectDone then (Some (Inl PunchTimeout), close_socket i m)
      else if \<not> pt_deadline_ok it then (Some (Inl PunchDeadline), close_socket i m)
      else
        let m = set_read_deadline i (Some (read_until (pt_time it) (250 * millisecond) c)) m in
        case pt_read it of
          None \<Rightarrow> hole_loop hmac c show_addr loc i peer its m
        | Some (remote, msg) \<Rightarrow>
            let (valid, m) = punch_valid hmac 1024 (pt_time it) peer msg m in
            if valid
            then let p = \<lparr>pn_peer = pi_peer peer, pn_conn = SocketConn i remote, pn_local = loc, pn_remote = show_addr remote,
                          pn_established = pt_time it\<rparr>
                 in (Some (Inr p), (set_read_deadline i None m)\<lparr>pm_connections := gm_put (pi_peer peer) p (pm_connections m)\<rparr>)
            else hole_loop hmac c show_addr loc i peer its m)"

definition PunchHole ::
  "(bytes \<Rightarrow> bytes \<Rightarrow> bytes) \<Rightarrow> punch_env \<Rightarrow> bool \<Rightarrow> (udp_addr \<Rightarrow> string) \<Rightarrow> string \<Rightarrow> ctx \<Rightarrow> peer_info option \<Rightarrow> manager \<Rightarrow>
   (punch_failure + p2p_connection) option \<times> manager" where
  "PunchHole hmac env bind_ok show_addr loc c peer m =
     (case peer of None \<Rightarrow> (Some (Inl PunchCapability), m)
      | Some peer \<Rightarrow>
          if pi_peer peer = [] \<or> pi_token peer = [] \<or> pi_session peer = [] \<or> pm_token m = [] \<or> pm_session m = []
          then (Some (Inl PunchCapability), m)
          else if pq_resolve env (pi_public peer) = None then (Some (Inl PunchResolve), m)
          else if \<not> bind_ok then (Some (Inl PunchBind), m)
          else let (i, m) = listen_udp m
               in hole_loop hmac (WithTimeout c (pq_time env) (10 * second)) show_addr loc i peer (pq_iters env) m)"

text \<open>\<^verbatim>\<open>UDPConn.Read\<close>: datagrams from other endpoints are skipped; \<open>None\<close> while it waits.\<close>

fun udp_Read :: "nat \<Rightarrow> udp_addr \<Rightarrow> (udp_addr \<times> string) list \<Rightarrow> string option" where
  "udp_Read buf remote [] = None"
| "udp_Read buf remote ((source, msg) # rest) =
     (if ua_port source = ua_port remote \<and> ip_equal (ua_ip source) (ua_ip remote) then Some (take buf msg)
      else udp_Read buf remote rest)"

definition udp_Write :: "time \<Rightarrow> conn \<Rightarrow> string \<Rightarrow> manager \<Rightarrow> bool" where
  "udp_Write now c msg m = (case c of SocketConn i _ \<Rightarrow> can_write now i m | RelayConn _ \<Rightarrow> False)"

section \<open>Establishing a session\<close>

datatype relay_error = NoRemoteRelay | InvalidRemoteRelay | RelayConnectFailed | RelayAuthenticationFailed punch_failure

datatype establish_error =
    AgentRequired | PeerInfoRequired | NegotiationRequired | GatherFailed | NoUsableCandidates | PreparedMissing
  | DirectFailed "connect_failure list" | RelayPathFailed "connect_failure list" relay_error

text \<open>
  What \<^verbatim>\<open>Connect\<close> of a pending relay does: it refuses and leaves the allocation pending,
  fails and closes it, or succeeds and hands it over.
\<close>

datatype relay_connect = ConnectRefused | ConnectFails | ConnectSucceeds

definition relay_Connect :: "relay_connect \<Rightarrow> nat \<Rightarrow> manager \<Rightarrow> bool \<times> manager" where
  "relay_Connect outcome r m =
     (if pm_relays m ! r \<noteq> RelayPending \<or> outcome = ConnectRefused then (False, m)
      else if outcome = ConnectFails then (False, m\<lparr>pm_relays := (pm_relays m)[r := RelayClosed]\<rparr>)
      else (True, m\<lparr>pm_relays := (pm_relays m)[r := RelayConnected]\<rparr>))"

record establish_env =
  ee_claim_time :: time
  ee_check :: "time \<Rightarrow> candidate \<Rightarrow> time \<times> punch_env \<times> punch_cache"
    \<comment> \<open>for the check of a remote candidate: when it ends, what it meets, the shared replay cache\<close>
  ee_hole :: "conn checker" \<comment> \<open>connectivity checks by \<^verbatim>\<open>PunchHole\<close>\<close>
  ee_relay_time :: time
  ee_resolve :: "string \<Rightarrow> udp_addr option"
  ee_connect :: relay_connect
  ee_relay_punch :: punch_env
  ee_established :: time
  ee_local :: string
  ee_remote :: string

text \<open>The connectivity check of a prepared negotiation: \<^verbatim>\<open>punchPrepared\<close> on the claimed socket.\<close>

definition prepared_checker ::
  "(bytes \<Rightarrow> bytes \<Rightarrow> bytes) \<Rightarrow> establish_env \<Rightarrow> nat \<Rightarrow> peer_info \<Rightarrow> manager \<Rightarrow> conn checker" where
  "prepared_checker hmac env i peer m = (\<lambda>now c _ remote.
     case ee_check env now remote of (t, penv, cache) \<Rightarrow>
       (case punchPrepared hmac penv c i peer remote (m\<lparr>pm_replay := cache\<rparr>) of
          (Some (Inr conn), _) \<Rightarrow> (t, False, Some conn)
        | _ \<Rightarrow> (t, True, None)))"

definition connectPreparedRelay ::
  "(bytes \<Rightarrow> bytes \<Rightarrow> bytes) \<Rightarrow> establish_env \<Rightarrow> peer_info \<Rightarrow> string \<Rightarrow> candidate list \<Rightarrow> connect_failure list \<Rightarrow> manager \<Rightarrow>
   (establish_error + conn ice_session) \<times> manager" where
  "connectPreparedRelay hmac env peer negotiationID remote failures m =
     (case preparedRelay (ee_relay_time env) negotiationID m of
        (None, m) \<Rightarrow> (Inl (DirectFailed failures), m)
      | (Some (pending, localRelay), m) \<Rightarrow>
          let remoteRelay = (case relay_candidate remote of Some c \<Rightarrow> c | None \<Rightarrow> zero_candidate) in
          if cd_addr remoteRelay = [] then (Inl (RelayPathFailed failures NoRemoteRelay), m)
          else (case ee_resolve env (cd_addr remoteRelay) of
            None \<Rightarrow> (Inl (RelayPathFailed failures InvalidRemoteRelay), m)
          | Some addr \<Rightarrow>
              if ua_ip addr = [] then (Inl (RelayPathFailed failures InvalidRemoteRelay), m)
              else (case relay_Connect (ee_connect env) pending m of
                (False, m) \<Rightarrow> (Inl (RelayPathFailed failures RelayConnectFailed), m)
              | (True, m) \<Rightarrow>
                  (case punchConnected hmac (ee_relay_punch env) pending peer m of
                     (Some (Inr checked), m) \<Rightarrow>
                       (Inr (newSession \<lparr>cp_local = localRelay, cp_remote = remoteRelay,
                               cp_priority = pairPriority localRelay remoteRelay, cp_state = PairNominated\<rparr> checked True),
                        transferPreparedRelay negotiationID pending m)
                   | (Some (Inl e), m) \<Rightarrow>
                       (Inl (RelayPathFailed failures (RelayAuthenticationFailed e)), close_conn (RelayConn pending) m)
                   | (None, m) \<Rightarrow>
                       (Inl (RelayPathFailed failures (RelayAuthenticationFailed PunchContext)), close_conn (RelayConn pending) m)))))"

fun unwrapUDPConn :: "conn \<Rightarrow> nat option" where
  "unwrapUDPConn (SocketConn i _) = Some i"
| "unwrapUDPConn (RelayConn _) = None"

definition cancel_named :: "string \<Rightarrow> manager \<Rightarrow> manager" where
  "cancel_named negotiationID m = (if negotiationID \<noteq> [] then CancelPreparedICE negotiationID m else m)"

definition consent_config :: "(bytes \<Rightarrow> bytes) \<Rightarrow> ice_config \<Rightarrow> peer_info \<Rightarrow> string \<Rightarrow> manager \<Rightarrow> ice_config" where
  "consent_config sha256 cfg peer negotiationID m =
     (let (key, session) = consentMaterial sha256 (pm_peer m) (pm_token m) (pm_session m) (Some peer) negotiationID;
          cfg = cfg\<lparr>ic_consent_key := key, ic_consent_session := session\<rparr>
      in if key \<noteq> [] then cfg\<lparr>ic_probe := True, ic_send_label := pm_peer m, ic_receive_label := pi_peer peer\<rparr> else cfg)"

definition register_session :: "establish_env \<Rightarrow> string \<Rightarrow> conn ice_session \<Rightarrow> manager \<Rightarrow> manager" where
  "register_session env peerID s m = m\<lparr>pm_connections := gm_put peerID
     \<lparr>pn_peer = peerID, pn_conn = ss_conn s, pn_local = ee_local env, pn_remote = ee_remote env,
      pn_established = ee_established env\<rparr> (pm_connections m)\<rparr>"

definition establishICENegotiated ::
  "(bytes \<Rightarrow> bytes) \<Rightarrow> (bytes \<Rightarrow> bytes \<Rightarrow> bytes) \<Rightarrow> establish_env \<Rightarrow> (ice_config \<times> conn relay_provider option) option \<Rightarrow>
   ctx \<Rightarrow> time \<Rightarrow> peer_info option \<Rightarrow> string \<Rightarrow> candidate list \<Rightarrow> candidate list \<Rightarrow> manager \<Rightarrow>
   (establish_error + conn ice_session) \<times> manager" where
  "establishICENegotiated sha256 hmac env agent c now peer negotiationID ls rs m =
     (case agent of None \<Rightarrow> (Inl AgentRequired, cancel_named negotiationID m)
      | Some (cfg, relay) \<Rightarrow>
     (case peer of None \<Rightarrow> (Inl PeerInfoRequired, cancel_named negotiationID m)
      | Some p \<Rightarrow>
          if pi_peer p = [] then (Inl PeerInfoRequired, cancel_named negotiationID m)
          else if rs = [] \<and> negotiationID = [] \<and> relay = None then (Inl NoUsableCandidates, m)
          else
            let cfg = NewICEAgent (consent_config sha256 cfg p negotiationID m) in
            if negotiationID = []
            then (case ice_Connect (Some (ee_hole env)) relay cfg (Some c) now (pi_peer p) ls rs of
                    Inl fs \<Rightarrow> (Inl (DirectFailed fs), m)
                  | Inr s \<Rightarrow> (Inr s, register_session env (pi_peer p) s m))
            else (case claimPrepared (ee_claim_time env) negotiationID m of
                    (None, m) \<Rightarrow> (Inl PreparedMissing, m)
                  | (Some i, m) \<Rightarrow>
                      (case ice_Connect (Some (prepared_checker hmac env i p m)) None cfg (Some c) now (pi_peer p)
                              (onePreparedChecklistCandidate ls) rs of
                         Inr s \<Rightarrow>
                           (Inr s, register_session env (pi_peer p) s
                              (case unwrapUDPConn (ss_conn s) of
                                 Some j \<Rightarrow> transferPreparedSocket negotiationID j m | None \<Rightarrow> m))
                       | Inl fs \<Rightarrow>
                           (case connectPreparedRelay hmac env p negotiationID rs fs m of
                              (Inl e, m) \<Rightarrow> (Inl e, CancelPreparedICE negotiationID m)
                            | (Inr s, m) \<Rightarrow> (Inr s, register_session env (pi_peer p) s m))))))"

definition EstablishPreparedICE ::
  "(bytes \<Rightarrow> bytes) \<Rightarrow> (bytes \<Rightarrow> bytes \<Rightarrow> bytes) \<Rightarrow> establish_env \<Rightarrow> (ice_config \<times> conn relay_provider option) option \<Rightarrow>
   ctx \<Rightarrow> time \<Rightarrow> peer_info option \<Rightarrow> string \<Rightarrow> candidate list \<Rightarrow> candidate list \<Rightarrow> manager \<Rightarrow>
   (establish_error + conn ice_session) \<times> manager" where
  "EstablishPreparedICE sha256 hmac env agent c now peer negotiationID ls rs m =
     (if negotiationID = [] then (Inl NegotiationRequired, m)
      else establishICENegotiated sha256 hmac env agent c now peer negotiationID ls rs m)"

definition EstablishICECandidates ::
  "(bytes \<Rightarrow> bytes) \<Rightarrow> (bytes \<Rightarrow> bytes \<Rightarrow> bytes) \<Rightarrow> establish_env \<Rightarrow> string option list list option \<Rightarrow> stun_env \<Rightarrow>
   (ice_config \<times> conn relay_provider option) option \<Rightarrow> ctx \<Rightarrow> time \<Rightarrow> peer_info option \<Rightarrow> candidate list \<Rightarrow> manager \<Rightarrow>
   (establish_error + conn ice_session) \<times> manager" where
  "EstablishICECandidates sha256 hmac env ifs senv agent c now peer rs m =
     (case agent of None \<Rightarrow> (Inl AgentRequired, m)
      | Some (cfg, relay) \<Rightarrow>
          if (case peer of None \<Rightarrow> True | Some p \<Rightarrow> pi_peer p = []) then (Inl PeerInfoRequired, m)
          else (case GatherCandidates cfg ifs senv of
                  None \<Rightarrow> (Inl GatherFailed, m)
                | Some ls \<Rightarrow> establishICENegotiated sha256 hmac env agent c now peer [] ls rs m))"

end
