(* ===== verification/Ownership.thy ===== *)
theory Ownership
  imports Prepared_ICE
begin

text \<open>
  Who owns the manager's sockets and relay allocations while its calls interleave. A
  \<open>world\<close> is the manager with the calls that are between two critical sections (bound
  sockets not yet registered, allocations not yet attached, hole punching in progress) and
  the sockets handed to sessions. A step is one critical section, timer callback or
  system call; a history is a list of steps, so every theorem covers every interleaving.
\<close>

section \<open>Interleaved calls\<close>

datatype task =
    BindTask string \<comment> \<open>\<^verbatim>\<open>PrepareICE\<close> after its reservation\<close>
  | SocketTask string nat "candidate list" \<comment> \<open>\<^verbatim>\<open>PrepareICE\<close> with its bound socket\<close>
  | RelayTask string nat candidate \<comment> \<open>\<^verbatim>\<open>PrepareICEWithRelay\<close> with its allocation\<close>
  | HoleTask nat \<comment> \<open>\<^verbatim>\<open>PunchHole\<close> with its socket\<close>

record world =
  wd_manager :: manager
  wd_tasks :: "task list"
  wd_sessions :: "nat list" \<comment> \<open>sockets of live sessions\<close>

definition remove_nth :: "nat \<Rightarrow> 'a list \<Rightarrow> 'a list" where
  "remove_nth n xs = take n xs @ drop (Suc n) xs"

datatype world_op =
    BeginPrepare time "ctx option" string
  | BindPrepare nat "int option" "(string \<times> bool) list" stun_env bool time ctx string
  | FinishPrepare nat time time bool ctx
  | AllocateRelay string candidate
  | AttachRelay nat "string \<Rightarrow> bool"
  | TouchPrepared time string
  | ClaimPrepared time string
  | LookRelay time string
  | ConnectRelay string relay_connect
  | HandOverSocket string nat udp_addr string time
  | HandOverRelay string nat string time
  | CancelPrepared string
  | TimerFires time string nat
  | BeginHole
  | EndHole nat "(udp_addr \<times> string \<times> time) option"
  | CloseConn string
  | CloseManager
  | SessionEnds nat

definition conn_sockets :: "manager \<Rightarrow> nat list" where
  "conn_sockets m = List.map_filter (unwrapUDPConn \<circ> pn_conn \<circ> snd) (pm_connections m)"

definition plain_connection :: "string \<Rightarrow> conn \<Rightarrow> time \<Rightarrow> p2p_connection" where
  "plain_connection peer c now = \<lparr>pn_peer = peer, pn_conn = c, pn_local = [], pn_remote = [], pn_established = now\<rparr>"

fun world_step :: "world \<Rightarrow> world_op \<Rightarrow> world" where
  "world_step w (BeginPrepare now cx neg) =
     (case prepare_begin now cx neg (wd_manager w) of
        (PrepareReserved, m) \<Rightarrow> w\<lparr>wd_manager := m, wd_tasks := wd_tasks w @ [BindTask neg]\<rparr>
      | (_, m) \<Rightarrow> w\<lparr>wd_manager := m\<rparr>)"
| "world_step w (BindPrepare k port addrs env from_server now c stun) =
     (if k < length (wd_tasks w) then
        (case wd_tasks w ! k of
           BindTask neg \<Rightarrow>
             (case port of
                None \<Rightarrow> w\<lparr>wd_manager := prepare_release neg (wd_manager w), wd_tasks := remove_nth k (wd_tasks w)\<rparr>
              | Some port \<Rightarrow>
                  let (i, m) = listen_udp (wd_manager w);
                      (cs, m) = prepare_gather addrs port env from_server now c stun i m
                  in w\<lparr>wd_manager := m, wd_tasks := SocketTask neg i cs # remove_nth k (wd_tasks w)\<rparr>)
         | _ \<Rightarrow> w)
      else w)"
| "world_step w (FinishPrepare k now later ok c) =
     (if k < length (wd_tasks w) then
        (case wd_tasks w ! k of
           SocketTask neg i cs \<Rightarrow>
             w\<lparr>wd_manager := prepare_release neg (snd (prepare_finish now later ok c neg i cs (wd_manager w))),
               wd_tasks := remove_nth k (wd_tasks w)\<rparr>
         | _ \<Rightarrow> w)
      else w)"
| "world_step w (AllocateRelay neg candidate) =
     (let (r, m) = new_relay (wd_manager w)
      in w\<lparr>wd_manager := m, wd_tasks := RelayTask neg r candidate # wd_tasks w\<rparr>)"
| "world_step w (AttachRelay k addr_ok) =
     (if k < length (wd_tasks w) then
        (case wd_tasks w ! k of
           RelayTask neg r candidate \<Rightarrow>
             w\<lparr>wd_manager := snd (attach_relay addr_ok neg r candidate (wd_manager w)), wd_tasks := remove_nth k (wd_tasks w)\<rparr>
         | _ \<Rightarrow> w)
      else w)"
| "world_step w (TouchPrepared now neg) = w\<lparr>wd_manager := snd (preparedSocket now neg (wd_manager w))\<rparr>"
| "world_step w (ClaimPrepared now neg) = w\<lparr>wd_manager := snd (claimPrepared now neg (wd_manager w))\<rparr>"
| "world_step w (LookRelay now neg) = w\<lparr>wd_manager := snd (preparedRelay now neg (wd_manager w))\<rparr>"
| "world_step w (ConnectRelay neg outcome) =
     (case gm_get (pm_prepared (wd_manager w)) neg of
        Some p \<Rightarrow> (case pe_relay p of Some r \<Rightarrow> w\<lparr>wd_manager := snd (relay_Connect outcome r (wd_manager w))\<rparr> | None \<Rightarrow> w)
      | None \<Rightarrow> w)"
| "world_step w (HandOverSocket neg i remote peer now) =
     (let m = wd_manager w; m' = transferPreparedSocket neg i m in
      if (case gm_get (pm_prepared m) neg of Some p \<Rightarrow> pe_conn p = i | None \<Rightarrow> False)
      then w\<lparr>wd_manager := m'\<lparr>pm_connections := gm_put peer (plain_connection peer (SocketConn i remote) now) (pm_connections m')\<rparr>,
             wd_sessions := i # wd_sessions w\<rparr>
      else w)"
| "world_step w (HandOverRelay neg r peer now) =
     (if r < length (pm_relays (wd_manager w)) \<and> pm_relays (wd_manager w) ! r = RelayConnected
      then let m = transferPreparedRelay neg r (wd_manager w)
           in w\<lparr>wd_manager := m\<lparr>pm_connections := gm_put peer (plain_connection peer (RelayConn r) now) (pm_connections m)\<rparr>\<rparr>
      else w)"
| "world_step w (CancelPrepared neg) = w\<lparr>wd_manager := CancelPreparedICE neg (wd_manager w)\<rparr>"
| "world_step w (TimerFires now neg i) = w\<lparr>wd_manager := expirePreparedSession now neg i (wd_manager w)\<rparr>"
| "world_step w BeginHole =
     (let (i, m) = listen_udp (wd_manager w) in w\<lparr>wd_manager := m, wd_tasks := HoleTask i # wd_tasks w\<rparr>)"
| "world_step w (EndHole k result) =
     (if k < length (wd_tasks w) then
        (case wd_tasks w ! k of
           HoleTask i \<Rightarrow>
             (case result of
                None \<Rightarrow> w\<lparr>wd_manager := close_socket i (wd_manager w), wd_tasks := remove_nth k (wd_tasks w)\<rparr>
              | Some (remote, peer, now) \<Rightarrow>
                  w\<lparr>wd_manager := (set_read_deadline i None (wd_manager w))
                      \<lparr>pm_connections := gm_put peer (plain_connection peer (SocketConn i remote) now) (pm_connections (wd_manager w))\<rparr>,
                    wd_tasks := remove_nth k (wd_tasks w), wd_sessions := i # wd_sessions w\<rparr>)
         | _ \<Rightarrow> w)
      else w)"
| "world_step w (CloseConn peer) =
     (let closed = (case gm_get (pm_connections (wd_manager w)) peer of
            Some p \<Rightarrow> (case unwrapUDPConn (pn_conn p) of Some i \<Rightarrow> [i] | None \<Rightarrow> []) | None \<Rightarrow> [])
      in w\<lparr>wd_manager := CloseConnection peer (wd_manager w), wd_sessions := filter (\<lambda>i. i \<notin> set closed) (wd_sessions w)\<rparr>)"
| "world_step w CloseManager =
     (let closed = conn_sockets (wd_manager w)
      in w\<lparr>wd_manager := manager_Close (wd_manager w), wd_sessions := filter (\<lambda>i. i \<notin> set closed) (wd_sessions w)\<rparr>)"
| "world_step w (SessionEnds i) =
     (if i \<in> set (wd_sessions w)
      then w\<lparr>wd_manager := close_socket i (wd_manager w), wd_sessions := filter (\<lambda>j. j \<noteq> i) (wd_sessions w)\<rparr>
      else w)"

section \<open>Owners\<close>

fun task_sockets :: "task \<Rightarrow> nat list" where
  "task_sockets (SocketTask _ i _) = [i]"
| "task_sockets (HoleTask i) = [i]"
| "task_sockets _ = []"

fun task_relays :: "task \<Rightarrow> nat list" where
  "task_relays (RelayTask _ r _) = [r]"
| "task_relays _ = []"

definition opened :: "manager \<Rightarrow> nat set" where
  "opened m = {i. i < length (pm_sockets m) \<and> so_open (pm_sockets m ! i)}"

definition pending_relays :: "manager \<Rightarrow> nat set" where
  "pending_relays m = {r. r < length (pm_relays m) \<and> pm_relays m ! r = RelayPending}"

definition prepared_sockets :: "manager \<Rightarrow> nat list" where
  "prepared_sockets m = map (pe_conn \<circ> snd) (pm_prepared m)"

definition prepared_relays :: "manager \<Rightarrow> nat list" where
  "prepared_relays m = List.map_filter (pe_relay \<circ> snd) (pm_prepared m)"

definition socket_owners :: "world \<Rightarrow> nat list" where
  "socket_owners w = prepared_sockets (wd_manager w) @ concat (map task_sockets (wd_tasks w)) @ wd_sessions w"

definition relay_owners :: "world \<Rightarrow> nat list" where
  "relay_owners w = prepared_relays (wd_manager w) @ concat (map task_relays (wd_tasks w))"

text \<open>
  Every open socket has exactly one owner and every owned socket is open; every pending
  relay allocation has exactly one owner; the prepared entries are within capacity; the
  registered connections are not sockets some preparation or punching call still owns.
\<close>

definition world_inv :: "world \<Rightarrow> bool" where
  "world_inv w \<longleftrightarrow> (let m = wd_manager w in
     gm_ok (pm_prepared m) \<and> gm_ok (pm_connections m) \<and> length (pm_prepared m) \<le> maxPreparedICE \<and>
     distinct (socket_owners w) \<and> set (socket_owners w) = opened m \<and>
     distinct (relay_owners w) \<and> pending_relays m \<subseteq> set (relay_owners w) \<and>
     (\<forall>r \<in> set (relay_owners w). r < length (pm_relays m)) \<and>
     (\<forall>i \<in> set (conn_sockets m). i < length (pm_sockets m) \<and>
        i \<notin> set (prepared_sockets m) \<union> set (concat (map task_sockets (wd_tasks w)))))"

section \<open>What the operations do to the store\<close>

lemma opened_close_socket [simp]: "opened (close_socket i m) = opened m - {i}"
  by (cases "i < length (pm_sockets m)") (auto simp: opened_def close_socket_def nth_list_update list_update_beyond)

lemma close_socket_fields [simp]:
  "pm_prepared (close_socket i m) = pm_prepared m" "pm_connections (close_socket i m) = pm_connections m"
  "pm_preparing (close_socket i m) = pm_preparing m" "pm_relays (close_socket i m) = pm_relays m"
  "length (pm_sockets (close_socket i m)) = length (pm_sockets m)" "pending_relays (close_socket i m) = pending_relays m"
  by (simp_all add: close_socket_def pending_relays_def)

lemma pending_close_relay [simp]: "pending_relays (close_relay r m) = pending_relays m - {r}"
  by (cases "r < length (pm_relays m)")
    (auto simp: pending_relays_def close_relay_def nth_list_update list_update_beyond split: if_splits)

lemma close_relay_fields [simp]:
  "pm_prepared (close_relay i m) = pm_prepared m" "pm_connections (close_relay i m) = pm_connections m"
  "pm_preparing (close_relay i m) = pm_preparing m" "pm_sockets (close_relay i m) = pm_sockets m"
  "length (pm_relays (close_relay i m)) = length (pm_relays m)" "opened (close_relay i m) = opened m"
  by (simp_all add: close_relay_def opened_def)

lemma close_entry_fields [simp]:
  "pm_prepared (close_entry p m) = pm_prepared m" "pm_connections (close_entry p m) = pm_connections m"
  "pm_preparing (close_entry p m) = pm_preparing m"
  "length (pm_sockets (close_entry p m)) = length (pm_sockets m)" "length (pm_relays (close_entry p m)) = length (pm_relays m)"
  "opened (close_entry p m) = opened m - {pe_conn p}" "pending_relays (close_entry p m) = pending_relays m - set_option (pe_relay p)"
  by (auto simp: close_entry_def split: option.splits)

lemma fold_close_entry [simp]:
  "pm_prepared (fold close_entry ps m) = pm_prepared m" "pm_connections (fold close_entry ps m) = pm_connections m"
  "length (pm_sockets (fold close_entry ps m)) = length (pm_sockets m)"
  "length (pm_relays (fold close_entry ps m)) = length (pm_relays m)"
  "opened (fold close_entry ps m) = opened m - pe_conn ` set ps"
  "pending_relays (fold close_entry ps m) = pending_relays m - (\<Union>p \<in> set ps. set_option (pe_relay p))"
  by (induction ps arbitrary: m) auto

lemma view_prepared [simp]:
  "opened (m\<lparr>pm_prepared := x\<rparr>) = opened m" "pending_relays (m\<lparr>pm_prepared := x\<rparr>) = pending_relays m"
  "opened (m\<lparr>pm_connections := y\<rparr>) = opened m" "pending_relays (m\<lparr>pm_connections := y\<rparr>) = pending_relays m"
  "opened (m\<lparr>pm_preparing := z\<rparr>) = opened m" "pending_relays (m\<lparr>pm_preparing := z\<rparr>) = pending_relays m"
  by (simp_all add: opened_def pending_relays_def)

text \<open>
  Three operations drop entries and close what they own: cancelling, expiring, and the timer.
\<close>

definition sheds :: "(string \<Rightarrow> prepared \<Rightarrow> bool) \<Rightarrow> manager \<Rightarrow> manager \<Rightarrow> bool" where
  "sheds keep m m' \<longleftrightarrow> pm_prepared m' = gm_keep keep (pm_prepared m) \<and> pm_connections m' = pm_connections m \<and>
     length (pm_sockets m') = length (pm_sockets m) \<and> length (pm_relays m') = length (pm_relays m) \<and>
     opened m' = opened m - {pe_conn p | k p. (k, p) \<in> set (pm_prepared m) \<and> \<not> keep k p} \<and>
     pending_relays m' = pending_relays m - {r. \<exists>k p. (k, p) \<in> set (pm_prepared m) \<and> \<not> keep k p \<and> pe_relay p = Some r}"

lemma gm_del_keep: "gm_del k m = gm_keep (\<lambda>j _. j \<noteq> k) m"
  by (induction m) (auto simp: gm_keep_def)

lemma gm_keep_all: "(\<And>k v. (k, v) \<in> set m \<Longrightarrow> keep k v) \<Longrightarrow> gm_keep keep m = m"
  by (auto simp: gm_keep_def intro: filter_True)

lemma sheds_refl: "sheds (\<lambda>_ _. True) m m"
  by (simp add: sheds_def gm_keep_def)

lemma sheds_expire: "sheds (\<lambda>_ p. \<not> is_expired now p) m (expirePreparedLocked now m)"
  by (auto simp: sheds_def expirePreparedLocked_def image_iff) force+

lemma sheds_one:
  assumes "gm_ok (pm_prepared m)" "gm_get (pm_prepared m) k = Some p"
  shows "sheds (\<lambda>j _. j \<noteq> k) m ((close_entry p m)\<lparr>pm_prepared := gm_del k (pm_prepared m)\<rparr>)"
proof -
  have "(k, q) \<in> set (pm_prepared m) \<longleftrightarrow> q = p" for q using gm_get_set [OF assms(1), of k q] assms(2) by auto
  then show ?thesis by (auto simp: sheds_def gm_del_keep)
qed

lemma sheds_Cancel:
  assumes "gm_ok (pm_prepared m)"
  shows "\<exists>keep. sheds keep m (CancelPreparedICE k m)"
  using sheds_one [OF assms, of k] sheds_refl [of m] by (auto simp: CancelPreparedICE_def split: option.splits)

lemma sheds_timer:
  assumes "gm_ok (pm_prepared m)"
  shows "\<exists>keep. sheds keep m (expirePreparedSession now k i m)"
  using sheds_one [OF assms, of k] sheds_refl [of m] by (auto simp: expirePreparedSession_def split: option.splits)

lemma image_filter_inj:
  "distinct (map f xs) \<Longrightarrow> f ` {x \<in> set xs. P x} = f ` set xs - f ` {x \<in> set xs. \<not> P x}"
  by (auto simp: distinct_map inj_on_def)

lemma sheds_sockets:
  assumes "sheds keep m m'" "distinct (prepared_sockets m)"
  shows "distinct (prepared_sockets m')" "set (prepared_sockets m') = set (prepared_sockets m) -
    {pe_conn p | k p. (k, p) \<in> set (pm_prepared m) \<and> \<not> keep k p}"
proof -
  let ?f = "pe_conn \<circ> snd"
  have m': "pm_prepared m' = filter (\<lambda>(k, p). keep k p) (pm_prepared m)" using assms(1) by (simp add: sheds_def gm_keep_def)
  show "distinct (prepared_sockets m')" using assms(2) unfolding prepared_sockets_def m' by (rule distinct_map_filter)
  have "set (prepared_sockets m') = ?f ` {x \<in> set (pm_prepared m). case x of (k, p) \<Rightarrow> keep k p}"
    by (auto simp: prepared_sockets_def m')
  also have "\<dots> = ?f ` set (pm_prepared m) - ?f ` {x \<in> set (pm_prepared m). \<not> (case x of (k, p) \<Rightarrow> keep k p)}"
    by (rule image_filter_inj) (use assms(2) in \<open>simp add: prepared_sockets_def\<close>)
  also have "?f ` {x \<in> set (pm_prepared m). \<not> (case x of (k, p) \<Rightarrow> keep k p)} =
    {pe_conn p | k p. (k, p) \<in> set (pm_prepared m) \<and> \<not> keep k p}" by force
  finally show "set (prepared_sockets m') = set (prepared_sockets m) -
    {pe_conn p | k p. (k, p) \<in> set (pm_prepared m) \<and> \<not> keep k p}" by (simp add: prepared_sockets_def)
qed

lemma set_map_filter: "set (List.map_filter f xs) = {y. \<exists>x \<in> set xs. f x = Some y}"
  by (force simp: List.map_filter_def)

lemma distinct_map_filter_sub: "distinct (List.map_filter f xs) \<Longrightarrow> distinct (List.map_filter f (filter P xs))"
  by (induction xs) (auto simp: List.map_filter_simps split: option.splits simp: set_map_filter)

lemma sheds_relays:
  assumes "sheds keep m m'" "distinct (prepared_relays m)"
  shows "distinct (prepared_relays m')" "set (prepared_relays m') \<subseteq> set (prepared_relays m)"
    "set (prepared_relays m) - {r. \<exists>k p. (k, p) \<in> set (pm_prepared m) \<and> \<not> keep k p \<and> pe_relay p = Some r} \<subseteq> set (prepared_relays m')"
proof -
  have m': "pm_prepared m' = filter (\<lambda>(k, p). keep k p) (pm_prepared m)" using assms(1) by (simp add: sheds_def gm_keep_def)
  show "distinct (prepared_relays m')"
    using assms(2) unfolding prepared_relays_def m' by (rule distinct_map_filter_sub)
  show "set (prepared_relays m') \<subseteq> set (prepared_relays m)" by (auto simp: prepared_relays_def m' set_map_filter) force
  show "set (prepared_relays m) - {r. \<exists>k p. (k, p) \<in> set (pm_prepared m) \<and> \<not> keep k p \<and> pe_relay p = Some r} \<subseteq> set (prepared_relays m')"
    by (auto simp: prepared_relays_def m' set_map_filter) blast
qed

lemma sheds_length: "sheds keep m m' \<Longrightarrow> length (pm_prepared m') \<le> length (pm_prepared m)"
  by (simp add: sheds_def length_gm_keep)

section \<open>The invariant\<close>

lemma world_invD:
  assumes "world_inv w"
  shows "gm_ok (pm_prepared (wd_manager w))" "gm_ok (pm_connections (wd_manager w))"
    "length (pm_prepared (wd_manager w)) \<le> maxPreparedICE"
    "distinct (prepared_sockets (wd_manager w))" "set (socket_owners w) = opened (wd_manager w)"
    "distinct (prepared_relays (wd_manager w))"
  using assms by (simp_all add: world_inv_def Let_def socket_owners_def relay_owners_def)

lemma minus_part: "P \<inter> T = {} \<Longrightarrow> G \<subseteq> P \<Longrightarrow> (P \<union> T) - G = (P - G) \<union> T"
  by blast

lemma shed_inv:
  assumes "world_inv w" "sheds keep (wd_manager w) m'"
  shows "world_inv (w\<lparr>wd_manager := m'\<rparr>)"
proof -
  let ?m = "wd_manager w" and ?w = "w\<lparr>wd_manager := m'\<rparr>"
  note inv = assms(1) [unfolded world_inv_def Let_def]
  note sockets = sheds_sockets [OF assms(2) world_invD(4) [OF assms(1)]]
  note relays = sheds_relays [OF assms(2) world_invD(6) [OF assms(1)]]
  let ?gone = "{pe_conn p | k p. (k, p) \<in> set (pm_prepared ?m) \<and> \<not> keep k p}"
  let ?lost = "{r. \<exists>k p. (k, p) \<in> set (pm_prepared ?m) \<and> \<not> keep k p \<and> pe_relay p = Some r}"
  have view: "pm_connections m' = pm_connections ?m" "length (pm_sockets m') = length (pm_sockets ?m)"
    "length (pm_relays m') = length (pm_relays ?m)" "opened m' = opened ?m - ?gone"
    "pending_relays m' = pending_relays ?m - ?lost" "pm_prepared m' = gm_keep keep (pm_prepared ?m)"
    using assms(2) by (simp_all add: sheds_def)
  have gone: "?gone \<subseteq> set (prepared_sockets ?m)" by (force simp: prepared_sockets_def)
  have sub: "set (prepared_sockets m') \<subseteq> set (prepared_sockets ?m)" using sockets(2) by blast
  have "distinct (socket_owners ?w)"
    using inv sockets(1) sub unfolding socket_owners_def by auto
  moreover have "set (socket_owners ?w) = opened m'"
  proof -
    let ?T = "set (concat (map task_sockets (wd_tasks w))) \<union> set (wd_sessions w)"
    have "set (prepared_sockets ?m) \<inter> ?T = {}" "opened ?m = set (prepared_sockets ?m) \<union> ?T"
      using inv unfolding socket_owners_def by auto
    then show ?thesis using minus_part [OF _ gone, of ?T] sockets(2) view(4) unfolding socket_owners_def by simp
  qed
  moreover have "distinct (relay_owners ?w)"
    using inv relays(1,2) unfolding relay_owners_def by auto
  moreover have "pending_relays m' \<subseteq> set (relay_owners ?w)"
    using inv relays(3) view(5) unfolding relay_owners_def by auto
  moreover have "\<forall>r \<in> set (relay_owners ?w). r < length (pm_relays m')"
    using inv relays(2) view(3) unfolding relay_owners_def by auto
  moreover have "conn_sockets m' = conn_sockets ?m" by (simp add: conn_sockets_def view(1))
  moreover have "length (pm_prepared m') \<le> maxPreparedICE"
    using inv sheds_length [OF assms(2)] by linarith
  ultimately show ?thesis using inv sub view(1,2,6) unfolding world_inv_def Let_def by auto
qed

text \<open>An update of an entry that keeps its socket and relay.\<close>

lemma map_snd_gm_put: "gm_get m k = Some v \<Longrightarrow> f v' = f v \<Longrightarrow> gm_ok m \<Longrightarrow> map (f \<circ> snd) (gm_put k v' m) = map (f \<circ> snd) m"
  by (induction m) (auto simp: gm_ok_def split: if_splits)

lemma retouch_inv:
  assumes "world_inv w" "gm_get (pm_prepared (wd_manager w)) k = Some p" "pe_conn p' = pe_conn p" "pe_relay p' = pe_relay p"
  shows "world_inv (w\<lparr>wd_manager := (wd_manager w)\<lparr>pm_prepared := gm_put k p' (pm_prepared (wd_manager w))\<rparr>\<rparr>)"
proof -
  let ?m = "wd_manager w" and ?m' = "(wd_manager w)\<lparr>pm_prepared := gm_put k p' (pm_prepared (wd_manager w))\<rparr>"
  note ok = world_invD(1) [OF assms(1)]
  have "prepared_sockets ?m' = prepared_sockets ?m"
    unfolding prepared_sockets_def using map_snd_gm_put [OF assms(2) assms(3) ok] by simp
  moreover have "prepared_relays ?m' = prepared_relays ?m"
  proof -
    have "List.map_filter (pe_relay \<circ> snd) xs = List.map_filter id (map (pe_relay \<circ> snd) xs)" for xs :: "(string \<times> prepared) list"
      by (induction xs) (auto simp: List.map_filter_simps split: option.splits)
    then show ?thesis unfolding prepared_relays_def using map_snd_gm_put [OF assms(2) assms(4) ok] by simp
  qed
  moreover have "length (pm_prepared ?m') = length (pm_prepared ?m)" using assms(2) by (simp add: length_gm_put)
  ultimately show ?thesis
    using assms(1) unfolding world_inv_def Let_def socket_owners_def relay_owners_def conn_sockets_def by simp
qed

lemma manager_id [simp]: "w\<lparr>wd_manager := wd_manager w\<rparr> = w"
  by (cases w) simp

lemma update_order [simp]:
  "w\<lparr>wd_tasks := ts, wd_manager := m\<rparr> = w\<lparr>wd_manager := m, wd_tasks := ts\<rparr>"
  "w\<lparr>wd_sessions := ss, wd_manager := m\<rparr> = w\<lparr>wd_manager := m, wd_sessions := ss\<rparr>"
  "w\<lparr>wd_sessions := ss, wd_tasks := ts\<rparr> = w\<lparr>wd_tasks := ts, wd_sessions := ss\<rparr>"
  by simp_all

lemma shed_then:
  assumes "world_inv w" "sheds keep (wd_manager w) m'"
    and "\<And>w'. world_inv w' \<Longrightarrow> world_inv (w'\<lparr>wd_manager := g (wd_manager w')\<rparr>)"
  shows "world_inv (w\<lparr>wd_manager := g m'\<rparr>)"
  using assms(3) [OF shed_inv [OF assms(1,2)]] by simp

lemmas expire_inv = shed_then [OF _ sheds_expire]

lemma touch_inv: "world_inv w \<Longrightarrow> world_inv (w\<lparr>wd_manager := snd (preparedSocket now neg (wd_manager w))\<rparr>)"
  unfolding preparedSocket_def Let_def
  by (rule expire_inv) (auto split: option.splits intro: retouch_inv)

lemma claim_inv: "world_inv w \<Longrightarrow> world_inv (w\<lparr>wd_manager := snd (claimPrepared now neg (wd_manager w))\<rparr>)"
  unfolding claimPrepared_def Let_def
  by (rule expire_inv) (auto split: option.splits intro: retouch_inv)

lemma look_inv: "world_inv w \<Longrightarrow> world_inv (w\<lparr>wd_manager := snd (preparedRelay now neg (wd_manager w))\<rparr>)"
  unfolding preparedRelay_def Let_def
  by (rule expire_inv) (auto split: option.splits intro: retouch_inv)

section \<open>Steps of the calls in flight\<close>

lemma concat_map_split:
  assumes "k < length ts"
  shows "mset (concat (map f ts)) = mset (f (ts ! k)) + mset (concat (map f (remove_nth k ts)))"
  by (subst id_take_nth_drop [OF assms]) (simp add: remove_nth_def)

lemma pull_task:
  assumes "world_inv w" "k < length (wd_tasks w)"
  shows "world_inv (w\<lparr>wd_tasks := wd_tasks w ! k # remove_nth k (wd_tasks w)\<rparr>)"
proof -
  let ?w = "w\<lparr>wd_tasks := wd_tasks w ! k # remove_nth k (wd_tasks w)\<rparr>"
  have s: "mset (socket_owners ?w) = mset (socket_owners w)" and r: "mset (relay_owners ?w) = mset (relay_owners w)"
    unfolding socket_owners_def relay_owners_def
    using concat_map_split [OF assms(2), of task_sockets] concat_map_split [OF assms(2), of task_relays] by simp_all
  have "set (concat (map task_sockets (wd_tasks ?w))) = set (concat (map task_sockets (wd_tasks w)))"
    by (rule mset_eq_setD) (simp add: concat_map_split [OF assms(2), of task_sockets])
  then show ?thesis
    using assms(1) mset_eq_imp_distinct_iff [OF s] mset_eq_imp_distinct_iff [OF r] mset_eq_setD [OF s] mset_eq_setD [OF r]
    unfolding world_inv_def Let_def by simp
qed

lemma plain_task:
  "task_sockets t = [] \<Longrightarrow> task_relays t = [] \<Longrightarrow> world_inv (w\<lparr>wd_tasks := t # ts\<rparr>) = world_inv (w\<lparr>wd_tasks := ts\<rparr>)"
  by (simp add: world_inv_def Let_def socket_owners_def relay_owners_def)

lemma inv_frame:
  assumes "pm_prepared m' = pm_prepared m" "pm_connections m' = pm_connections m" "opened m' = opened m"
    "pending_relays m' \<subseteq> pending_relays m" "length (pm_sockets m') = length (pm_sockets m)" "length (pm_relays m') = length (pm_relays m)"
  shows "world_inv (w\<lparr>wd_manager := m\<rparr>) \<Longrightarrow> world_inv (w\<lparr>wd_manager := m'\<rparr>)"
  using assms by (auto simp: world_inv_def Let_def socket_owners_def relay_owners_def conn_sockets_def prepared_sockets_def prepared_relays_def)

lemma release_inv: "world_inv (w\<lparr>wd_manager := m\<rparr>) \<Longrightarrow> world_inv (w\<lparr>wd_manager := prepare_release neg m\<rparr>)"
  by (erule inv_frame [rotated -1]) (simp_all add: prepare_release_def)

lemma deadline_view [simp]:
  "opened (set_read_deadline i d m) = opened m" "opened (set_deadline i d m) = opened m"
  by (cases "i < length (pm_sockets m)";
      auto simp: opened_def set_read_deadline_def set_deadline_def nth_list_update list_update_beyond)+

lemma read_deadline_inv: "world_inv (w\<lparr>wd_manager := m\<rparr>) \<Longrightarrow> world_inv (w\<lparr>wd_manager := set_read_deadline i d m\<rparr>)"
  by (erule inv_frame [rotated -1]) (simp_all, simp_all add: set_read_deadline_def pending_relays_def)

lemma deadline_inv: "world_inv (w\<lparr>wd_manager := m\<rparr>) \<Longrightarrow> world_inv (w\<lparr>wd_manager := set_deadline i d m\<rparr>)"
  by (erule inv_frame [rotated -1]) (simp_all, simp_all add: set_deadline_def pending_relays_def)

lemma gather_inv:
  "world_inv (w\<lparr>wd_manager := m\<rparr>) \<Longrightarrow>
     world_inv (w\<lparr>wd_manager := snd (prepare_gather addrs port env from_server now c stun i m)\<rparr>)"
  by (auto simp: prepare_gather_def Let_def deadline_inv split: sum.splits)

lemma new_socket_inv:
  assumes "world_inv w" "listen_udp (wd_manager w) = (i, m)" "task_sockets t = [i]" "task_relays t = []"
  shows "world_inv (w\<lparr>wd_manager := m, wd_tasks := t # wd_tasks w\<rparr>)"
proof -
  have i: "i = length (pm_sockets (wd_manager w))" and m: "m = snd (listen_udp (wd_manager w))" using assms(2) by (auto simp: listen_udp_def)
  have "opened m = insert i (opened (wd_manager w))"
    unfolding m i by (auto simp: opened_def listen_udp_def nth_append less_Suc_eq)
  moreover have "i \<notin> opened (wd_manager w)" by (simp add: opened_def i)
  moreover have "i \<notin> set (conn_sockets (wd_manager w))" using assms(1) by (auto simp: world_inv_def Let_def i)
  moreover have "pending_relays m = pending_relays (wd_manager w)" "conn_sockets m = conn_sockets (wd_manager w)"
    "prepared_sockets m = prepared_sockets (wd_manager w)" "prepared_relays m = prepared_relays (wd_manager w)"
    "pm_prepared m = pm_prepared (wd_manager w)" "pm_connections m = pm_connections (wd_manager w)"
    "pm_relays m = pm_relays (wd_manager w)" "length (pm_sockets m) = Suc (length (pm_sockets (wd_manager w)))"
    by (simp_all add: m listen_udp_def pending_relays_def conn_sockets_def prepared_sockets_def prepared_relays_def)
  ultimately show ?thesis
    using assms(1,3,4) unfolding world_inv_def Let_def socket_owners_def relay_owners_def by (auto simp: less_SucI)
qed

lemma close_task_socket:
  assumes "world_inv (w\<lparr>wd_tasks := t # ts\<rparr>)" "task_sockets t = [i]" "task_relays t = []"
  shows "world_inv (w\<lparr>wd_manager := close_socket i (wd_manager w), wd_tasks := ts\<rparr>)"
  using assms unfolding world_inv_def Let_def socket_owners_def relay_owners_def conn_sockets_def prepared_sockets_def prepared_relays_def
  by auto

lemma new_relay_inv:
  assumes "world_inv w" "new_relay (wd_manager w) = (r, m)" "task_sockets t = []" "task_relays t = [r]"
  shows "world_inv (w\<lparr>wd_manager := m, wd_tasks := t # wd_tasks w\<rparr>)"
proof -
  have r: "r = length (pm_relays (wd_manager w))" and m: "m = snd (new_relay (wd_manager w))" using assms(2) by (auto simp: new_relay_def)
  have "pending_relays m = insert r (pending_relays (wd_manager w))"
    unfolding m r by (auto simp: pending_relays_def new_relay_def nth_append less_Suc_eq)
  moreover have "opened m = opened (wd_manager w)" by (simp add: m new_relay_def opened_def)
  moreover have "\<forall>x \<in> set (relay_owners w). x < r" using assms(1) by (simp add: world_inv_def Let_def r)
  ultimately show ?thesis
    using assms(1,3,4) unfolding world_inv_def Let_def socket_owners_def relay_owners_def
    by (auto simp: m r new_relay_def conn_sockets_def prepared_sockets_def prepared_relays_def less_Suc_eq)
qed

lemma close_task_relay:
  assumes "world_inv (w\<lparr>wd_tasks := t # ts\<rparr>)" "task_sockets t = []" "task_relays t = [r]"
  shows "world_inv (w\<lparr>wd_manager := close_relay r (wd_manager w), wd_tasks := ts\<rparr>)"
  using assms unfolding world_inv_def Let_def socket_owners_def relay_owners_def conn_sockets_def prepared_sockets_def prepared_relays_def
  by auto

lemma mset_gm_put_new: "gm_get m k = None \<Longrightarrow> mset (gm_put k v m) = add_mset (k, v) (mset m)"
  by (induction m) (auto split: if_splits)

lemma prepared_put_new:
  assumes "gm_get (pm_prepared m) k = None"
  shows "mset (prepared_sockets (m\<lparr>pm_prepared := gm_put k p (pm_prepared m)\<rparr>)) = add_mset (pe_conn p) (mset (prepared_sockets m))"
    "pe_relay p = None \<Longrightarrow> mset (prepared_relays (m\<lparr>pm_prepared := gm_put k p (pm_prepared m)\<rparr>)) = mset (prepared_relays m)"
proof -
  note new = mset_gm_put_new [OF assms, of p]
  show "mset (prepared_sockets (m\<lparr>pm_prepared := gm_put k p (pm_prepared m)\<rparr>)) = add_mset (pe_conn p) (mset (prepared_sockets m))"
    by (simp add: prepared_sockets_def new)
  have "mset (List.map_filter f xs) = image_mset (the \<circ> f) (filter_mset (\<lambda>x. f x \<noteq> None) (mset xs))" for f :: "(string \<times> prepared) \<Rightarrow> nat option" and xs
    by (simp add: List.map_filter_def)
  then show "pe_relay p = None \<Longrightarrow> mset (prepared_relays (m\<lparr>pm_prepared := gm_put k p (pm_prepared m)\<rparr>)) = mset (prepared_relays m)"
    by (simp add: prepared_relays_def new)
qed

lemma register_inv:
  assumes "world_inv (w\<lparr>wd_tasks := t # ts\<rparr>)" "task_sockets t = [pe_conn p]" "task_relays t = []" "pe_relay p = None"
    and "gm_get (pm_prepared (wd_manager w)) k = None" "length (pm_prepared (wd_manager w)) < maxPreparedICE"
  shows "world_inv (w\<lparr>wd_manager := (wd_manager w)\<lparr>pm_prepared := gm_put k p (pm_prepared (wd_manager w))\<rparr>, wd_tasks := ts\<rparr>)"
proof -
  let ?m = "wd_manager w" and ?m' = "(wd_manager w)\<lparr>pm_prepared := gm_put k p (pm_prepared (wd_manager w))\<rparr>"
  let ?w = "w\<lparr>wd_tasks := t # ts\<rparr>" and ?w' = "w\<lparr>wd_manager := ?m', wd_tasks := ts\<rparr>"
  note new = prepared_put_new [OF assms(5), of p]
  have s: "mset (socket_owners ?w') = mset (socket_owners ?w)" and r: "mset (relay_owners ?w') = mset (relay_owners ?w)"
    using new(1) new(2) [OF assms(4)] assms(2,3) by (simp_all add: socket_owners_def relay_owners_def)
  have "set (prepared_sockets ?m') = insert (pe_conn p) (set (prepared_sockets ?m))"
    using mset_eq_setD [of "prepared_sockets ?m'" "pe_conn p # prepared_sockets ?m"] new(1) by simp
  then show ?thesis
    using assms(1-3,5,6) mset_eq_imp_distinct_iff [OF s] mset_eq_imp_distinct_iff [OF r] mset_eq_setD [OF s] mset_eq_setD [OF r]
    unfolding world_inv_def Let_def by (auto simp: length_gm_put conn_sockets_def)
qed

lemma with_tasks: "world_inv (w\<lparr>wd_tasks := ts\<rparr>) \<Longrightarrow> sheds keep (wd_manager w) m \<Longrightarrow> world_inv (w\<lparr>wd_manager := m, wd_tasks := ts\<rparr>)"
  using shed_inv [of "w\<lparr>wd_tasks := ts\<rparr>" keep m] by simp

lemma finish_inv:
  assumes inv: "world_inv (w\<lparr>wd_tasks := SocketTask neg i cs # ts\<rparr>)"
  shows "world_inv (w\<lparr>wd_manager := snd (prepare_finish now later ok c neg i cs (wd_manager w)), wd_tasks := ts\<rparr>)"
proof -
  let ?t = "SocketTask neg i cs"
  define m1 where "m1 = expirePreparedLocked now (set_read_deadline i None (wd_manager w))"
  define w1 where "w1 = w\<lparr>wd_manager := m1\<rparr>"
  have "world_inv (w\<lparr>wd_manager := set_read_deadline i None (wd_manager w), wd_tasks := ?t # ts\<rparr>)"
    using read_deadline_inv [where w = "w\<lparr>wd_tasks := ?t # ts\<rparr>" and m = "wd_manager w" and i = i and d = None] inv by simp
  from shed_inv [OF this, of _ m1] sheds_expire [of now "set_read_deadline i None (wd_manager w)"]
  have inv1: "world_inv (w1\<lparr>wd_tasks := ?t # ts\<rparr>)" by (simp add: m1_def w1_def)
  have close: "world_inv (w\<lparr>wd_manager := close_socket i (wd_manager w), wd_tasks := ts\<rparr>)"
    using close_task_socket [OF inv, of i] by simp
  have close1: "world_inv (w\<lparr>wd_manager := close_socket i m1, wd_tasks := ts\<rparr>)"
    using close_task_socket [OF inv1, of i] by (simp add: w1_def)
  define p where "p = \<lparr>pe_conn = i, pe_candidates = cs, pe_relay = None,
    pe_expires = now + preparedICETTL, pe_timer = True, pe_watch = True, pe_claimed = False\<rparr>"
  define m2 where "m2 = m1\<lparr>pm_prepared := gm_put neg p (pm_prepared m1)\<rparr>"
  show ?thesis
  proof (cases "cs = [] \<or> \<not> ok \<or> gm_get (pm_prepared m1) neg \<noteq> None \<or> length (pm_prepared m1) \<ge> maxPreparedICE")
    case True
    then show ?thesis using close close1 by (auto simp: prepare_finish_def Let_def m1_def split: option.splits)
  next
    case False
    have reg: "world_inv (w\<lparr>wd_manager := m2, wd_tasks := ts\<rparr>)"
      using register_inv [OF inv1, of p neg] False by (simp add: w1_def m2_def p_def)
    obtain keep where "sheds keep m2 (CancelPreparedICE neg m2)"
      using sheds_Cancel [of m2 neg] world_invD(1) [OF reg] by auto
    with shed_inv [OF reg] have "world_inv (w\<lparr>wd_manager := CancelPreparedICE neg m2, wd_tasks := ts\<rparr>)" by simp
    with reg False show ?thesis
      by (auto simp: prepare_finish_def Let_def m1_def [symmetric] m2_def p_def [symmetric])
  qed
qed

lemma finish_release_inv:
  assumes "world_inv (w\<lparr>wd_tasks := SocketTask neg i cs # ts\<rparr>)"
  shows "world_inv (w\<lparr>wd_manager := prepare_release neg (snd (prepare_finish now later ok c neg i cs (wd_manager w))), wd_tasks := ts\<rparr>)"
  using release_inv [where w = "w\<lparr>wd_tasks := ts\<rparr>"] finish_inv [OF assms, of now later ok c] by simp

lemma relays_put_existing:
  assumes "gm_ok (pm_prepared m)" "gm_get (pm_prepared m) k = Some p" "pe_relay p = None" "pe_relay p' = Some r"
  shows "mset (prepared_relays (m\<lparr>pm_prepared := gm_put k p' (pm_prepared m)\<rparr>)) = add_mset r (mset (prepared_relays m))"
proof -
  have "mset (List.map_filter (pe_relay \<circ> snd) (gm_put k p' xs)) = add_mset r (mset (List.map_filter (pe_relay \<circ> snd) xs))"
    if "gm_get xs k = Some p" for xs
    using that by (induction xs) (auto simp: List.map_filter_simps assms(3,4) split: if_splits option.splits)
  then show ?thesis by (simp add: prepared_relays_def assms(2))
qed

lemma attach_inv:
  assumes inv: "world_inv (w\<lparr>wd_tasks := RelayTask neg r c # ts\<rparr>)"
  shows "world_inv (w\<lparr>wd_manager := snd (attach_relay addr_ok neg r c (wd_manager w)), wd_tasks := ts\<rparr>)"
proof -
  let ?m = "wd_manager w"
  have close: "world_inv (w\<lparr>wd_manager := close_relay r ?m, wd_tasks := ts\<rparr>)"
    using close_task_relay [OF inv, of r] by simp
  obtain keep where "sheds keep (close_relay r ?m) (CancelPreparedICE neg (close_relay r ?m))"
    using sheds_Cancel [of "close_relay r ?m" neg] world_invD(1) [OF close] by auto
  with shed_inv [OF close] have cancel: "world_inv (w\<lparr>wd_manager := CancelPreparedICE neg (close_relay r ?m), wd_tasks := ts\<rparr>)" by simp
  have attach: "world_inv (w\<lparr>wd_manager := m2, wd_tasks := ts\<rparr>)"
    if p: "gm_get (pm_prepared ?m) neg = Some p" "pe_relay p = None" and
      p': "p' = p\<lparr>pe_relay := Some r, pe_candidates := pe_candidates p @ [c]\<rparr>" and
      m': "m2 = ?m\<lparr>pm_prepared := gm_put neg p' (pm_prepared ?m)\<rparr>" for p p' m2
  proof -
    let ?w = "w\<lparr>wd_tasks := RelayTask neg r c # ts\<rparr>" and ?w' = "w\<lparr>wd_manager := m2, wd_tasks := ts\<rparr>"
    have ok: "gm_ok (pm_prepared ?m)" using world_invD(1) [OF inv] by simp
    have sock: "prepared_sockets m2 = prepared_sockets ?m"
      unfolding m' prepared_sockets_def using map_snd_gm_put [OF p(1) _ ok, of pe_conn p'] by (simp add: p')
    have "mset (prepared_relays m2) = add_mset r (mset (prepared_relays ?m))"
      unfolding m' by (rule relays_put_existing [OF ok p]) (simp add: p')
    then have rel: "mset (relay_owners ?w') = mset (relay_owners ?w)" by (simp add: relay_owners_def)
    have "conn_sockets m2 = conn_sockets ?m" "opened m2 = opened ?m" "pending_relays m2 = pending_relays ?m"
      "length (pm_prepared m2) = length (pm_prepared ?m)" "gm_ok (pm_prepared m2)" "pm_connections m2 = pm_connections ?m"
      "pm_sockets m2 = pm_sockets ?m" "pm_relays m2 = pm_relays ?m"
      using ok p(1) by (simp_all add: m' conn_sockets_def length_gm_put)
    then show ?thesis
      using inv sock mset_eq_imp_distinct_iff [OF rel] mset_eq_setD [OF rel]
      unfolding world_inv_def Let_def socket_owners_def by simp
  qed
  show ?thesis
    using close cancel attach by (auto simp: attach_relay_def Let_def split: option.splits)
qed

section \<open>Handing over and closing\<close>

lemma cancel_inv: "world_inv w \<Longrightarrow> world_inv (w\<lparr>wd_manager := CancelPreparedICE neg (wd_manager w)\<rparr>)"
  using sheds_Cancel [OF world_invD(1), of w neg] shed_inv by blast

lemma timer_inv: "world_inv w \<Longrightarrow> world_inv (w\<lparr>wd_manager := expirePreparedSession now neg i (wd_manager w)\<rparr>)"
  using sheds_timer [OF world_invD(1), of w now neg i] shed_inv by blast

lemma connect_relay_inv: "world_inv w \<Longrightarrow> world_inv (w\<lparr>wd_manager := snd (relay_Connect outcome r (wd_manager w))\<rparr>)"
proof -
  assume inv: "world_inv w"
  let ?m = "wd_manager w"
  have "pending_relays (?m\<lparr>pm_relays := (pm_relays ?m)[r := s]\<rparr>) \<subseteq> pending_relays ?m" if "s \<noteq> RelayPending" for s
    using that by (cases "r < length (pm_relays ?m)") (auto simp: pending_relays_def nth_list_update list_update_beyond split: if_splits)
  then have "world_inv (w\<lparr>wd_manager := ?m\<lparr>pm_relays := (pm_relays ?m)[r := s]\<rparr>\<rparr>)" if "s \<noteq> RelayPending" for s
    using inv_frame [where w = w and m = ?m and m' = "?m\<lparr>pm_relays := (pm_relays ?m)[r := s]\<rparr>"] inv that by (simp add: opened_def)
  with inv show ?thesis by (auto simp: relay_Connect_def)
qed

lemma set_conn_sockets: "set (conn_sockets m) = {i. \<exists>k p. (k, p) \<in> set (pm_connections m) \<and> unwrapUDPConn (pn_conn p) = Some i}"
  by (force simp: conn_sockets_def set_map_filter)

lemma conn_put:
  "gm_ok (pm_connections m) \<Longrightarrow> set (conn_sockets (m\<lparr>pm_connections := gm_put peer c (pm_connections m)\<rparr>)) \<subseteq>
     set (conn_sockets m) \<union> set_option (unwrapUDPConn (pn_conn c))"
  by (auto simp: set_conn_sockets set_gm_put)

lemma connection_inv:
  assumes "world_inv w" "\<And>i. unwrapUDPConn (pn_conn c) = Some i \<Longrightarrow> i < length (pm_sockets (wd_manager w)) \<and>
      i \<notin> set (prepared_sockets (wd_manager w)) \<union> set (concat (map task_sockets (wd_tasks w)))"
  shows "world_inv (w\<lparr>wd_manager := (wd_manager w)\<lparr>pm_connections := gm_put peer c (pm_connections (wd_manager w))\<rparr>\<rparr>)"
proof -
  let ?m = "wd_manager w" and ?m' = "(wd_manager w)\<lparr>pm_connections := gm_put peer c (pm_connections (wd_manager w))\<rparr>"
  have "set (conn_sockets ?m') \<subseteq> set (conn_sockets ?m) \<union> set_option (unwrapUDPConn (pn_conn c))"
    by (rule conn_put) (rule world_invD(2) [OF assms(1)])
  moreover have "prepared_sockets ?m' = prepared_sockets ?m" "prepared_relays ?m' = prepared_relays ?m"
    by (simp_all add: prepared_sockets_def prepared_relays_def)
  ultimately show ?thesis
    using assms unfolding world_inv_def Let_def socket_owners_def relay_owners_def by auto
qed

lemma sheds_hand_over:
  assumes "gm_ok (pm_prepared m)" "r \<notin> pending_relays m"
  shows "\<exists>keep. sheds keep m (transferPreparedRelay neg r m)"
proof (cases "\<exists>p. gm_get (pm_prepared m) neg = Some p \<and> pe_relay p = Some r")
  case True
  then obtain p where p: "gm_get (pm_prepared m) neg = Some p" "pe_relay p = Some r" by blast
  have "(neg, q) \<in> set (pm_prepared m) \<longleftrightarrow> q = p" for q using gm_get_set [OF assms(1), of neg q] p(1) by auto
  with p assms(2) have "sheds (\<lambda>j _. j \<noteq> neg) m (transferPreparedRelay neg r m)"
    by (auto simp: sheds_def transferPreparedRelay_def gm_del_keep)
  then show ?thesis by blast
next
  case False
  then have "transferPreparedRelay neg r m = m" by (auto simp: transferPreparedRelay_def split: option.splits)
  then show ?thesis using sheds_refl [of m] by auto
qed

lemma hand_over_socket_inv:
  assumes inv: "world_inv w" and p: "gm_get (pm_prepared (wd_manager w)) neg = Some p" "pe_conn p = i"
  shows "world_inv (w\<lparr>wd_manager := transferPreparedSocket neg i (wd_manager w), wd_sessions := i # wd_sessions w\<rparr>)"
    "i \<notin> set (prepared_sockets (transferPreparedSocket neg i (wd_manager w))) \<union> set (concat (map task_sockets (wd_tasks w)))"
    "i < length (pm_sockets (transferPreparedSocket neg i (wd_manager w)))"
proof -
  let ?m = "wd_manager w"
  let ?c = "(close_entry p ?m)\<lparr>pm_prepared := gm_del neg (pm_prepared ?m)\<rparr>"
  let ?m' = "transferPreparedSocket neg i ?m"
  have m': "?m' = (case pe_relay p of Some r \<Rightarrow> close_relay r ?m | None \<Rightarrow> ?m)\<lparr>pm_prepared := gm_del neg (pm_prepared ?m)\<rparr>"
    by (simp add: transferPreparedSocket_def p)
  have shed: "world_inv (w\<lparr>wd_manager := ?c\<rparr>)"
    by (rule shed_inv [OF inv sheds_one [OF world_invD(1) [OF inv] p(1)]])
  have i: "i \<in> set (prepared_sockets ?m)"
    using gm_get_set [OF world_invD(1) [OF inv], of neg p] p by (force simp: prepared_sockets_def)
  then have "i \<in> opened ?m" using inv by (auto simp: world_inv_def Let_def socket_owners_def)
  have view: "pm_prepared ?m' = pm_prepared ?c" "pm_connections ?m' = pm_connections ?c" "opened ?c = opened ?m - {i}"
    "opened ?m' = opened ?m" "pending_relays ?m' = pending_relays ?c" "length (pm_sockets ?m') = length (pm_sockets ?c)"
    "length (pm_relays ?m') = length (pm_relays ?c)"
    using p by (auto simp: m' split: option.splits)
  have same: "prepared_sockets ?m' = prepared_sockets ?c" "prepared_relays ?m' = prepared_relays ?c" "conn_sockets ?m' = conn_sockets ?c"
    by (simp_all add: prepared_sockets_def prepared_relays_def conn_sockets_def view)
  have fresh: "i \<notin> set (prepared_sockets ?c @ concat (map task_sockets (wd_tasks w)) @ wd_sessions w)"
    using shed view(3) unfolding world_inv_def Let_def socket_owners_def by auto
  show "world_inv (w\<lparr>wd_manager := ?m', wd_sessions := i # wd_sessions w\<rparr>)"
    using shed fresh view(1,2,5-7) same view(3,4) \<open>i \<in> opened ?m\<close>
    unfolding world_inv_def Let_def socket_owners_def relay_owners_def by auto
  show "i \<notin> set (prepared_sockets ?m') \<union> set (concat (map task_sockets (wd_tasks w)))" using fresh same by auto
  show "i < length (pm_sockets ?m')" using \<open>i \<in> opened ?m\<close> view(4,6) by (auto simp: opened_def)
qed

lemma close_sessions_inv:
  assumes "world_inv w" "pm_prepared m' = pm_prepared (wd_manager w)"
    and "pending_relays m' \<subseteq> pending_relays (wd_manager w)" "length (pm_relays m') = length (pm_relays (wd_manager w))"
    and "gm_ok (pm_connections m')" "set (conn_sockets m') \<subseteq> set (conn_sockets (wd_manager w))"
    and "length (pm_sockets m') = length (pm_sockets (wd_manager w))" "opened m' = opened (wd_manager w) - S"
    and "S \<inter> (set (prepared_sockets (wd_manager w)) \<union> set (concat (map task_sockets (wd_tasks w)))) = {}"
  shows "world_inv (w\<lparr>wd_manager := m', wd_sessions := filter (\<lambda>i. i \<notin> S) (wd_sessions w)\<rparr>)"
proof -
  have "prepared_sockets m' = prepared_sockets (wd_manager w)" "prepared_relays m' = prepared_relays (wd_manager w)"
    by (simp_all add: prepared_sockets_def prepared_relays_def assms(2))
  then show ?thesis
    using assms unfolding world_inv_def Let_def socket_owners_def relay_owners_def by auto
qed

lemma close_conn_view [simp]:
  "pm_prepared (close_conn c m) = pm_prepared m" "pm_connections (close_conn c m) = pm_connections m"
  "length (pm_sockets (close_conn c m)) = length (pm_sockets m)" "length (pm_relays (close_conn c m)) = length (pm_relays m)"
  by (cases c; simp; fail)+

lemma opened_relays [simp]: "opened (m\<lparr>pm_relays := x\<rparr>) = opened m"
  by (simp add: opened_def)

lemma opened_close_conn [simp]: "opened (close_conn c m) = opened m - set_option (unwrapUDPConn c)"
  by (cases c) simp_all

lemma close_conn_pending: "pending_relays (close_conn c m) \<subseteq> pending_relays m"
proof (cases c)
  case (RelayConn r)
  then show ?thesis
    by (cases "r < length (pm_relays m)") (auto simp: pending_relays_def nth_list_update list_update_beyond split: if_splits)
qed simp

lemma fold_close_conn:
  "pm_prepared (fold close_conn cs m) = pm_prepared m" "pm_connections (fold close_conn cs m) = pm_connections m"
  "length (pm_sockets (fold close_conn cs m)) = length (pm_sockets m)" "length (pm_relays (fold close_conn cs m)) = length (pm_relays m)"
  "opened (fold close_conn cs m) = opened m - (\<Union>c \<in> set cs. set_option (unwrapUDPConn c))"
  "pending_relays (fold close_conn cs m) \<subseteq> pending_relays m"
  using close_conn_pending by (induction cs arbitrary: m) (auto, blast)

lemma close_connection_inv:
  assumes inv: "world_inv w"
  shows "world_inv (world_step w (CloseConn peer))"
proof (cases "gm_get (pm_connections (wd_manager w)) peer")
  case None
  with inv show ?thesis by (simp add: CloseConnection_def)
next
  case (Some c)
  let ?m = "wd_manager w" and ?S = "set_option (unwrapUDPConn (pn_conn c))"
  let ?m' = "(close_conn (pn_conn c) ?m)\<lparr>pm_connections := gm_del peer (pm_connections ?m)\<rparr>"
  have mem: "(peer, c) \<in> set (pm_connections ?m)" using gm_get_set [OF world_invD(2) [OF inv]] Some by blast
  have sub: "set (conn_sockets ?m') \<subseteq> set (conn_sockets ?m)"
    using world_invD(2) [OF inv] by (auto simp: set_conn_sockets set_gm_del)
  have "world_inv (w\<lparr>wd_manager := ?m', wd_sessions := filter (\<lambda>i. i \<notin> ?S) (wd_sessions w)\<rparr>)"
  proof (rule close_sessions_inv [OF inv _ _ _ _ sub])
    show "pending_relays ?m' \<subseteq> pending_relays ?m" using close_conn_pending by simp
    show "?S \<inter> (set (prepared_sockets ?m) \<union> set (concat (map task_sockets (wd_tasks w)))) = {}"
      using inv mem unfolding world_inv_def Let_def set_conn_sockets by fastforce
  qed (use world_invD(2) [OF inv] in simp_all)
  then show ?thesis using Some by (cases "unwrapUDPConn (pn_conn c)") (simp_all add: CloseConnection_def)
qed

lemma close_manager_inv:
  assumes inv: "world_inv w"
  shows "world_inv (world_step w CloseManager)"
proof -
  let ?m = "wd_manager w"
  define m0 where "m0 = ?m\<lparr>pm_prepared := [], pm_preparing := [], pm_connections := []\<rparr>"
  define m1 where "m1 = (fold close_entry (map snd (pm_prepared ?m)) m0)\<lparr>pm_connections := pm_connections ?m\<rparr>"
  have sheds: "sheds (\<lambda>_ _. False) ?m m1"
    by (auto simp: sheds_def m1_def m0_def gm_keep_def opened_def [of "pm_prepared_update _ _"] image_iff) force+
  have inv1: "world_inv (w\<lparr>wd_manager := m1\<rparr>)" by (rule shed_inv [OF inv sheds])
  have S: "(\<Union>c \<in> set (map (pn_conn \<circ> snd) (pm_connections ?m)). set_option (unwrapUDPConn c)) = set (conn_sockets ?m)"
    by (force simp: set_conn_sockets)
  have "world_inv ((w\<lparr>wd_manager := m1\<rparr>)\<lparr>wd_manager := manager_Close ?m,
      wd_sessions := filter (\<lambda>i. i \<notin> set (conn_sockets ?m)) (wd_sessions (w\<lparr>wd_manager := m1\<rparr>))\<rparr>)"
    using inv1
  proof (rule close_sessions_inv)
    show "opened (manager_Close ?m) = opened (wd_manager (w\<lparr>wd_manager := m1\<rparr>)) - set (conn_sockets ?m)"
      by (simp add: manager_Close_def Let_def fold_close_conn S [symmetric] m1_def m0_def)
    show "set (conn_sockets ?m) \<inter> (set (prepared_sockets (wd_manager (w\<lparr>wd_manager := m1\<rparr>))) \<union>
        set (concat (map task_sockets (wd_tasks (w\<lparr>wd_manager := m1\<rparr>))))) = {}"
      using inv1 unfolding world_inv_def Let_def by (auto simp: m1_def conn_sockets_def)
    show "pending_relays (manager_Close ?m) \<subseteq> pending_relays (wd_manager (w\<lparr>wd_manager := m1\<rparr>))"
      using fold_close_conn(6) [of "map (pn_conn \<circ> snd) (pm_connections ?m)" "fold close_entry (map snd (pm_prepared ?m)) m0"]
      by (simp add: manager_Close_def Let_def m1_def m0_def)
  qed (simp_all add: manager_Close_def Let_def fold_close_conn m1_def m0_def conn_sockets_def List.map_filter_simps)
  then show ?thesis by (simp add: Let_def)
qed

lemma end_hole_inv:
  assumes inv: "world_inv (w\<lparr>wd_tasks := HoleTask i # ts\<rparr>)"
  shows "world_inv (w\<lparr>wd_manager := (set_read_deadline i None (wd_manager w))
      \<lparr>pm_connections := gm_put peer (plain_connection peer (SocketConn i remote) now) (pm_connections (wd_manager w))\<rparr>,
    wd_tasks := ts, wd_sessions := i # wd_sessions w\<rparr>)"
proof -
  let ?m = "set_read_deadline i None (wd_manager w)"
  have same: "pm_prepared ?m = pm_prepared (wd_manager w)" "pm_connections ?m = pm_connections (wd_manager w)"
    "pm_relays ?m = pm_relays (wd_manager w)" "length (pm_sockets ?m) = length (pm_sockets (wd_manager w))"
    "pending_relays ?m = pending_relays (wd_manager w)"
    by (simp_all add: set_read_deadline_def pending_relays_def)
  have moved: "world_inv (w\<lparr>wd_manager := ?m, wd_tasks := ts, wd_sessions := i # wd_sessions w\<rparr>)"
    using inv unfolding world_inv_def Let_def socket_owners_def relay_owners_def
    by (auto simp: same conn_sockets_def prepared_sockets_def prepared_relays_def)
  have "i < length (pm_sockets ?m)" "i \<notin> set (prepared_sockets ?m) \<union> set (concat (map task_sockets ts))"
    using inv unfolding world_inv_def Let_def socket_owners_def by (auto simp: same opened_def prepared_sockets_def)
  with connection_inv [OF moved, of "plain_connection peer (SocketConn i remote) now" peer]
  show ?thesis by (simp add: plain_connection_def same)
qed

interpretation worlds: invariant_steps world_step world_inv
proof
  fix w e
  assume inv: "world_inv w"
  show "world_inv (world_step w e)"
  proof (cases e)
    case (BeginPrepare now cx neg)
    have "world_inv (w\<lparr>wd_manager := expirePreparedLocked now (wd_manager w)\<rparr>)" by (rule shed_inv [OF inv sheds_expire])
    moreover from this have "world_inv (w\<lparr>wd_manager := (expirePreparedLocked now (wd_manager w))\<lparr>pm_preparing := x\<rparr>\<rparr>)" for x
      by (rule inv_frame [rotated -1]) simp_all
    moreover have "world_inv (v\<lparr>wd_tasks := ts @ [BindTask neg]\<rparr>) = world_inv (v\<lparr>wd_tasks := ts\<rparr>)" for v :: world and ts
      by (simp add: world_inv_def Let_def socket_owners_def relay_owners_def)
    moreover have "v\<lparr>wd_tasks := wd_tasks v\<rparr> = v" for v :: world by simp
    ultimately show ?thesis
      using inv unfolding BeginPrepare by (auto simp: prepare_begin_def Let_def split: option.splits)
  next
    case (BindPrepare k port addrs env from_server now c stun)
    show ?thesis
    proof (cases "k < length (wd_tasks w)")
      case True
      note pulled = pull_task [OF inv True]
      show ?thesis
      proof (cases "\<exists>neg. wd_tasks w ! k = BindTask neg")
        case True
        then obtain neg where t: "wd_tasks w ! k = BindTask neg" by blast
        have rest: "world_inv (w\<lparr>wd_tasks := remove_nth k (wd_tasks w)\<rparr>)" using pulled by (simp add: t plain_task)
        from release_inv [where w = "w\<lparr>wd_tasks := remove_nth k (wd_tasks w)\<rparr>" and m = "wd_manager w" and neg = neg] rest
        have none: "world_inv (w\<lparr>wd_manager := prepare_release neg (wd_manager w), wd_tasks := remove_nth k (wd_tasks w)\<rparr>)"
          by simp
        obtain i m where l: "listen_udp (wd_manager w) = (i, m)" by fastforce
        have bound: "world_inv (w\<lparr>wd_manager := snd (prepare_gather addrs p env from_server now c stun i m),
            wd_tasks := SocketTask neg i cs # remove_nth k (wd_tasks w)\<rparr>)" for p cs
        proof -
          let ?v = "w\<lparr>wd_tasks := SocketTask neg i cs # remove_nth k (wd_tasks w)\<rparr>"
          have "world_inv (?v\<lparr>wd_manager := m\<rparr>)" using new_socket_inv [OF rest, of i m "SocketTask neg i cs"] l by simp
          from gather_inv [OF this] show ?thesis by simp
        qed
        show ?thesis
          using none bound l t \<open>k < length (wd_tasks w)\<close> unfolding BindPrepare by (cases port) (simp_all add: case_prod_beta)
      next
        case False
        with inv show ?thesis unfolding BindPrepare by (cases "wd_tasks w ! k") auto
      qed
    qed (simp add: BindPrepare inv)
  next
    case (FinishPrepare k now later ok c)
    show ?thesis
    proof (cases "k < length (wd_tasks w)")
      case True
      from finish_release_inv [where w = w] pull_task [OF inv True] inv True show ?thesis
        unfolding FinishPrepare by (auto split: task.splits)
    qed (simp add: FinishPrepare inv)
  next
    case (AllocateRelay neg c)
    then show ?thesis
      using new_relay_inv [OF inv prod.collapse [symmetric], of "RelayTask neg (fst (new_relay (wd_manager w))) c"]
      by (simp add: case_prod_beta)
  next
    case (AttachRelay k addr_ok)
    show ?thesis
    proof (cases "k < length (wd_tasks w)")
      case True
      from attach_inv [where w = w] pull_task [OF inv True] inv show ?thesis
        unfolding AttachRelay by (auto split: task.splits)
    qed (simp add: AttachRelay inv)
  next
    case (HandOverSocket neg i remote peer now)
    let ?m = "wd_manager w"
    show ?thesis
    proof (cases "\<exists>p. gm_get (pm_prepared ?m) neg = Some p \<and> pe_conn p = i")
      case True
      then obtain p where p: "gm_get (pm_prepared ?m) neg = Some p" "pe_conn p = i" by blast
      note over = hand_over_socket_inv [OF inv p]
      from connection_inv [OF over(1), of "plain_connection peer (SocketConn i remote) now" peer] over(2,3) p show ?thesis
        by (simp add: HandOverSocket Let_def plain_connection_def)
    next
      case False
      with inv show ?thesis by (auto simp: HandOverSocket Let_def split: option.splits)
    qed
  next
    case (HandOverRelay neg r peer now)
    show ?thesis
    proof (cases "r < length (pm_relays (wd_manager w)) \<and> pm_relays (wd_manager w) ! r = RelayConnected")
      case True
      then have "r \<notin> pending_relays (wd_manager w)" by (simp add: pending_relays_def)
      then obtain keep where "sheds keep (wd_manager w) (transferPreparedRelay neg r (wd_manager w))"
        using sheds_hand_over [OF world_invD(1) [OF inv]] by blast
      from connection_inv [OF shed_inv [OF inv this], of "plain_connection peer (RelayConn r) now" peer] True show ?thesis
        by (simp add: HandOverRelay Let_def plain_connection_def)
    qed (auto simp: HandOverRelay inv)
  next
    case BeginHole
    then show ?thesis
      using new_socket_inv [OF inv prod.collapse [symmetric], of "HoleTask (fst (listen_udp (wd_manager w)))"]
      by (simp add: case_prod_beta)
  next
    case (EndHole k result)
    show ?thesis
    proof (cases "k < length (wd_tasks w) \<and> (\<exists>i. wd_tasks w ! k = HoleTask i)")
      case True
      then obtain i where k: "k < length (wd_tasks w)" and t: "wd_tasks w ! k = HoleTask i" by blast
      let ?ts = "remove_nth k (wd_tasks w)"
      have pulled: "world_inv (w\<lparr>wd_tasks := HoleTask i # ?ts\<rparr>)" using pull_task [OF inv k] by (simp add: t)
      from end_hole_inv [OF pulled] close_task_socket [OF pulled, of i] k t show ?thesis
        unfolding EndHole by (auto split: option.splits)
    next
      case False
      with inv show ?thesis unfolding EndHole by (cases "wd_tasks w ! k") auto
    qed
  next
    case (SessionEnds i)
    show ?thesis
    proof (cases "i \<in> set (wd_sessions w)")
      case True
      then have "{i} \<inter> (set (prepared_sockets (wd_manager w)) \<union> set (concat (map task_sockets (wd_tasks w)))) = {}"
        using inv unfolding world_inv_def Let_def socket_owners_def by auto
      from close_sessions_inv [OF inv, of "close_socket i (wd_manager w)" "{i}", OF _ _ _ _ _ _ _ this] True world_invD(2) [OF inv]
      show ?thesis by (simp add: SessionEnds conn_sockets_def)
    qed (simp add: SessionEnds inv)
  qed (use inv touch_inv claim_inv look_inv connect_relay_inv cancel_inv timer_inv close_connection_inv close_manager_inv in
    \<open>auto split: option.splits simp del: world_step.simps(17,18) simp: Let_def\<close>)
qed

section \<open>Establishing over a prepared socket\<close>











lemma prepared_open:
  assumes "world_inv w" "gm_get (pm_prepared (wd_manager w)) neg = Some p"
  shows "pe_conn p \<in> opened (wd_manager w)"
proof -
  have "(neg, p) \<in> set (pm_prepared (wd_manager w))" using gm_get_set [OF world_invD(1) [OF assms(1)]] assms(2) by blast
  then have "pe_conn p \<in> set (prepared_sockets (wd_manager w))" by (force simp: prepared_sockets_def)
  then show ?thesis using assms(1) by (auto simp: world_inv_def Let_def socket_owners_def)
qed











lemma relays_close_socket [simp]: "pm_relays (close_socket i m) = pm_relays m"
  by (simp add: close_socket_def)




lemma token_expire [simp]:
  "pm_token (expirePreparedLocked now m) = pm_token m" "pm_session (expirePreparedLocked now m) = pm_session m"
proof -
  have "pm_token (fold close_entry ps m) = pm_token m \<and> pm_session (fold close_entry ps m) = pm_session m" for ps
    by (induction ps arbitrary: m) (auto simp: close_entry_def close_socket_def close_relay_def split: option.splits)
  then show "pm_token (expirePreparedLocked now m) = pm_token m" "pm_session (expirePreparedLocked now m) = pm_session m"
    by (simp_all add: expirePreparedLocked_def)
qed




section \<open>The contract of relay allocations\<close>

text \<open>
  \<^verbatim>\<open>PendingRelayAllocation\<close> is an interface: what the manager relies on is the state its
  store keeps for an allocation. An implementation with these laws hands its connection over
  at most once, and never after it was closed.
\<close>

definition closed_state :: "relay_state \<Rightarrow> relay_state" where
  "closed_state s = (if s = RelayPending then RelayClosed else s)"

fun connect_state :: "relay_connect \<Rightarrow> relay_state \<Rightarrow> bool \<times> relay_state" where
  "connect_state ConnectFails RelayPending = (False, RelayClosed)"
| "connect_state ConnectSucceeds RelayPending = (True, RelayConnected)"
| "connect_state _ s = (False, s)"

lemma close_relay_state: "r < length (pm_relays m) \<Longrightarrow> pm_relays (close_relay r m) ! r = closed_state (pm_relays m ! r)"
  by (simp add: close_relay_def closed_state_def)

lemma relay_Connect_state:
  assumes "r < length (pm_relays m)" "relay_Connect outcome r m = (ok, m')"
  shows "(ok, pm_relays m' ! r) = connect_state outcome (pm_relays m ! r)"
  using assms by (cases outcome; cases "pm_relays m ! r") (auto simp: relay_Connect_def split: if_splits)








section \<open>Properties\<close>






text \<open>A manager with one prepared entry, and a check in which the peer's probe arrives.\<close>

abbreviation demo_manager :: manager where
  "demo_manager \<equiv> \<lparr>pm_peer = ''me'', pm_stun = [], pm_public = [], pm_local = [], pm_nat = 0, pm_token = ''t'', pm_session = ''s'',
     pm_replay = NewPunchReplayCache 2, pm_connections = [],
     pm_prepared = [(''n'', \<lparr>pe_conn = 0, pe_candidates = [demo_candidate], pe_relay = None, pe_expires = 30 * second,
                            pe_timer = True, pe_watch = True, pe_claimed = False\<rparr>)],
     pm_preparing = [], pm_sockets = [\<lparr>so_open = True, so_read_deadline = None, so_write_deadline = None\<rparr>], pm_relays = []\<rparr>"

abbreviation demo_world :: world where
  "demo_world \<equiv> \<lparr>wd_manager = demo_manager, wd_tasks = [], wd_sessions = []\<rparr>"

abbreviation demo_peer :: peer_info where
  "demo_peer \<equiv> \<lparr>pi_peer = ''p'', pi_public = [], pi_local = [], pi_nat = [], pi_token = ''q'', pi_session = ''z''\<rparr>"

abbreviation demo_addr :: udp_addr where "demo_addr \<equiv> \<lparr>ua_ip = [192, 0, 2, 7], ua_port = 9\<rparr>"

abbreviation demo_punch :: punch_env where
  "demo_punch \<equiv> \<lparr>pq_time = millisecond, pq_resolve = (\<lambda>_. Some demo_addr), pq_rand = Some [1], pq_net_ok = True,
     pq_iters = [\<lparr>pt_time = 2 * millisecond, pt_deadline_ok = True,
                  pt_read = Some (demo_addr, ''XROK-P2P-PUNCH:v2:p:s:1:n:AA''), pt_select = SelectDefault\<rparr>]\<rparr>"


lemma demo_world_inv: "world_inv demo_world"
  by (auto simp: world_inv_def Let_def socket_owners_def relay_owners_def prepared_sockets_def prepared_relays_def
      conn_sockets_def opened_def pending_relays_def maxPreparedICE_def List.map_filter_simps gm_ok_def)



lemma sockets_expire:
  assumes "\<And>k p. (k, p) \<in> set (pm_prepared m) \<Longrightarrow> pe_conn p \<noteq> i"
  shows "pm_sockets (expirePreparedLocked now m) ! i = pm_sockets m ! i"
proof -
  have "i \<notin> pe_conn ` set ps \<Longrightarrow> pm_sockets (fold close_entry ps m) ! i = pm_sockets m ! i" for ps
    by (induction ps arbitrary: m)
      (auto simp: close_entry_def close_socket_def close_relay_def split: option.splits)
  moreover have "i \<notin> pe_conn ` set (filter (is_expired now) (map snd (pm_prepared m)))" using assms by force
  ultimately show ?thesis by (simp add: expirePreparedLocked_def)
qed

lemma expire_none:
  "gm_ok (pm_prepared m) \<Longrightarrow> gm_get (pm_prepared m) k = None \<Longrightarrow> gm_get (pm_prepared (expirePreparedLocked now m)) k = None"
  by (simp add: expirePreparedLocked_def gm_get_keep)

lemma begin_reserved:
  assumes "prepare_begin now cx neg m = (PrepareReserved, m1)" "gm_ok (pm_prepared m)"
  shows "gm_get (pm_prepared m1) neg = None" "gm_ok (pm_prepared m1)" "set (pm_prepared m1) \<subseteq> set (pm_prepared m)"
    "length (pm_sockets m1) = length (pm_sockets m)"
  using assms by (auto simp: prepare_begin_def Let_def expirePreparedLocked_def split: option.splits if_splits)

lemma finish_registers:
  assumes "prepare_finish now later ok c neg i cs m = (Inr out, m')" "gm_ok (pm_prepared m)" "gm_get (pm_prepared m) neg = None"
    and "\<forall>(k, p) \<in> set (pm_prepared m). pe_conn p \<noteq> i" "i < length (pm_sockets m)"
  shows "\<exists>p. gm_get (pm_prepared m') neg = Some p \<and> pe_conn p = i"
    "so_write_deadline (pm_sockets m' ! i) = so_write_deadline (pm_sockets m ! i)"
proof -
  let ?m = "expirePreparedLocked now (set_read_deadline i None m)"
  have none: "gm_get (pm_prepared ?m) neg = None"
    by (rule expire_none) (use assms(2,3) in \<open>simp_all add: set_read_deadline_def\<close>)
  have "pm_sockets ?m ! i = pm_sockets (set_read_deadline i None m) ! i"
    by (rule sockets_expire) (use assms(4) in \<open>auto simp: set_read_deadline_def\<close>)
  with assms(1,5) none show "\<exists>p. gm_get (pm_prepared m') neg = Some p \<and> pe_conn p = i"
    "so_write_deadline (pm_sockets m' ! i) = so_write_deadline (pm_sockets m ! i)"
    by (auto simp: prepare_finish_def Let_def set_read_deadline_def split: if_splits option.splits)
qed

text \<open>
  A socket prepared with a STUN server cannot send three seconds later. The STUN
  exchange sets the deadline of both directions, \<^verbatim>\<open>PrepareICE\<close> clears only the one for
  reading, so from three seconds after the exchange on every write on the registered
  socket fails: the connectivity check gives up before any probe is sent, and every later
  write of a session that owns the socket fails too.
\<close>

theorem prepared_write_deadline_kept:
  assumes "world_inv w" "prepare_begin now (Some c) neg (wd_manager w) = (PrepareReserved, m1)"
    and "stunServer \<noteq> []" "se_resolve (pv_stun env)" "se_tx (pv_stun env) \<noteq> None" "se_deadline (pv_stun env)"
    and "PrepareICE env now (Some c) neg stunServer (wd_manager w) = (Inr candidates, m')"
    and "pv_stun_time env + 3 * second \<le> later" "pq_time penv = later"
  shows "\<exists>p e. gm_get (pm_prepared m') neg = Some p \<and> \<not> udp_Write later (SocketConn (pe_conn p) remote) msg m' \<and>
    punchPrepared hmac penv cx (pe_conn p) peer candidate m' = (Some (Inl e), [], m')"
proof -
  note start = begin_reserved [OF assms(2) world_invD(1) [OF assms(1)]]
  define i where "i = length (pm_sockets m1)"
  define d where "d = (case cx_deadline c of Some d \<Rightarrow> min d (pv_stun_time env + 3 * second) | None \<Rightarrow> pv_stun_time env + 3 * second)"
  define m3 where "m3 = set_deadline i (Some d) (snd (listen_udp m1))"
  have d: "d \<le> later" using assms(8) by (auto simp: d_def split: option.splits)
  obtain port cs m4 out where fin: "prepare_finish (pv_finish_time env) (pv_return_time env) (pv_deadline_ok env) c neg i cs m3 = (Inr out, m4)"
    and m': "m' = prepare_release neg m4"
    using assms(7) assms(2-6) unfolding PrepareICE_def
    by (auto simp: listen_udp_def prepare_gather_def Let_def m3_def d_def i_def split: option.splits sum.splits prod.splits)
  have old: "pe_conn p \<noteq> i" if "(k, p) \<in> set (pm_prepared m1)" for k p
  proof -
    have "pe_conn p \<in> set (prepared_sockets (wd_manager w))" using that start(3) by (force simp: prepared_sockets_def)
    then have "pe_conn p \<in> opened (wd_manager w)" using assms(1) by (auto simp: world_inv_def Let_def socket_owners_def)
    then show ?thesis using start(4) by (auto simp: opened_def i_def)
  qed
  have m3: "pm_prepared m3 = pm_prepared m1" "i < length (pm_sockets m3)" "so_write_deadline (pm_sockets m3 ! i) = Some d"
    by (simp_all add: m3_def set_deadline_def listen_udp_def i_def)
  have "\<forall>(k, p) \<in> set (pm_prepared m1). pe_conn p \<noteq> i" using old by blast
  note reg = finish_registers [OF fin, unfolded m3(1,3), OF start(2,1) this m3(2)]
  then obtain p where p: "gm_get (pm_prepared m') neg = Some p" "pe_conn p = i" by (auto simp: m' prepare_release_def)
  have "\<not> can_write later i m'" using reg(2) d by (simp add: can_write_def m' prepare_release_def)
  with p assms(9) show ?thesis
    by (auto simp: punchPrepared_def udp_Write_def split: option.splits sum.splits)
qed

abbreviation demo_prepare :: prepare_env where
  "demo_prepare \<equiv> \<lparr>pv_bind = Some 4000, pv_addrs = [],
     pv_stun = \<lparr>se_resolve = True, se_custom_dial = False, se_dial = True, se_tx = Some demo_tx, se_write = True,
                se_deadline = True, se_read = None\<rparr>,
     pv_from_server = True, pv_stun_time = 1, pv_deadline_ok = True, pv_finish_time = 2, pv_return_time = 3\<rparr>"

abbreviation no_ctx :: ctx where "no_ctx \<equiv> \<lparr>cx_deadline = None, cx_cancel = None\<rparr>"

theorem prepared_write_deadline_kept_witness:
  "\<exists>p e. gm_get (pm_prepared (snd (PrepareICE demo_prepare 0 (Some no_ctx) ''x'' ''stun:1'' demo_manager))) ''x'' = Some p \<and>
     \<not> udp_Write (4 * second) (SocketConn (pe_conn p) demo_addr) [] (snd (PrepareICE demo_prepare 0 (Some no_ctx) ''x'' ''stun:1'' demo_manager)) \<and>
     punchPrepared (\<lambda>_ _. [0]) (demo_punch\<lparr>pq_time := 4 * second\<rparr>) no_ctx (pe_conn p) demo_peer demo_remote
         (snd (PrepareICE demo_prepare 0 (Some no_ctx) ''x'' ''stun:1'' demo_manager)) =
       (Some (Inl e), [], snd (PrepareICE demo_prepare 0 (Some no_ctx) ''x'' ''stun:1'' demo_manager))"
proof -
  have start: "prepare_begin 0 (Some no_ctx) ''x'' (wd_manager demo_world) =
      (PrepareReserved, (expirePreparedLocked 0 demo_manager)\<lparr>pm_preparing := [''x'']\<rparr>)"
    by (simp add: prepare_begin_def ctx_err_def expirePreparedLocked_def is_expired_def gm_keep_def maxPreparedICE_def)
  have run: "\<exists>cs. PrepareICE demo_prepare 0 (Some no_ctx) ''x'' ''stun:1'' (wd_manager demo_world) =
      (Inr cs, snd (PrepareICE demo_prepare 0 (Some no_ctx) ''x'' ''stun:1'' demo_manager))"
    using start
    by (simp add: PrepareICE_def listen_udp_def prepare_gather_def stunBindingOnSocket_def prepare_finish_def Let_def ctx_err_def
        hostCandidatesForPort_def set_deadline_def set_read_deadline_def expirePreparedLocked_def is_expired_def gm_keep_def maxPreparedICE_def)
  then obtain cs where run: "PrepareICE demo_prepare 0 (Some no_ctx) ''x'' ''stun:1'' (wd_manager demo_world) =
      (Inr cs, snd (PrepareICE demo_prepare 0 (Some no_ctx) ''x'' ''stun:1'' demo_manager))" by blast
  show ?thesis
    by (rule prepared_write_deadline_kept [OF demo_world_inv start _ _ _ _ run]) simp_all
qed

text \<open>
  Closing the manager does not end a preparation in flight: a \<^verbatim>\<open>PrepareICE\<close> call that
  has bound its socket when \<^verbatim>\<open>Close\<close> runs registers it afterwards, so the closed manager
  owns an open socket again.
\<close>

theorem prepare_outlives_close:
  assumes "world_inv w" "k < length (wd_tasks w)" "wd_tasks w ! k = SocketTask neg i cs" "cs \<noteq> []" "\<not> ctx_err c later"
  shows "\<exists>p. gm_get (pm_prepared (wd_manager (world_step (world_step w CloseManager) (FinishPrepare k now later True c)))) neg = Some p \<and>
    pe_conn p = i \<and> i \<in> opened (wd_manager (world_step (world_step w CloseManager) (FinishPrepare k now later True c)))"
proof -
  let ?w1 = "world_step w CloseManager" and ?m1 = "manager_Close (wd_manager w)"
  let ?w2 = "world_step ?w1 (FinishPrepare k now later True c)"
  have m1: "wd_manager ?w1 = ?m1" "wd_tasks ?w1 = wd_tasks w" by (simp_all add: Let_def)
  have empty: "pm_prepared ?m1 = []" by (simp add: manager_Close_def Let_def fold_close_conn)
  then have "expirePreparedLocked now (set_read_deadline i None ?m1) = (set_read_deadline i None ?m1)\<lparr>pm_prepared := []\<rparr>"
    by (simp add: expirePreparedLocked_def set_read_deadline_def gm_keep_def)
  with empty have get: "\<exists>p. gm_get (pm_prepared (wd_manager ?w2)) neg = Some p \<and> pe_conn p = i"
    using assms(2-5) by (simp add: prepare_finish_def Let_def set_read_deadline_def maxPreparedICE_def prepare_release_def)
  moreover have "world_inv ?w2" using assms(1) worlds.step_inv by blast
  ultimately have "i \<in> opened (wd_manager ?w2)"
    using prepared_open by blast
  with get show ?thesis by blast
qed

abbreviation demo_flight :: world where
  "demo_flight \<equiv> \<lparr>wd_manager = demo_manager\<lparr>pm_prepared := []\<rparr>, wd_tasks = [SocketTask ''x'' 0 [demo_candidate]], wd_sessions = []\<rparr>"

theorem prepare_outlives_close_witness:
  "\<exists>p. gm_get (pm_prepared (wd_manager (world_step (world_step demo_flight CloseManager) (FinishPrepare 0 1 2 True no_ctx)))) ''x'' = Some p \<and>
    pe_conn p = 0 \<and> 0 \<in> opened (wd_manager (world_step (world_step demo_flight CloseManager) (FinishPrepare 0 1 2 True no_ctx)))"
proof (rule prepare_outlives_close [where cs = "[demo_candidate]"])
  show "world_inv demo_flight"
    by (auto simp: world_inv_def Let_def socket_owners_def relay_owners_def prepared_sockets_def prepared_relays_def
        conn_sockets_def opened_def pending_relays_def maxPreparedICE_def List.map_filter_simps)
qed (simp_all add: ctx_err_def)

end
