(* ===== verification/Http.thy ===== *)
theory Http
  imports Text
begin

text \<open>
  What the control plane and the visitor proxy use of Go's \<^verbatim>\<open>strings\<close>,
  \<^verbatim>\<open>encoding/base64\<close> and \<^verbatim>\<open>net/http\<close>: prefixes, cuts, ASCII case folding, CRLF
  lines, standard base64, and a parsed request with its canonical header map.
  Header names are ASCII tokens (\<^verbatim>\<open>net/http\<close> admits no others), so case folding is
  the ASCII one.
\<close>

named_theorems http_simps \<open>facts on header lines and CRLF text\<close>

section \<open>Strings\<close>

definition has_prefix :: "string \<Rightarrow> string \<Rightarrow> bool" where
  "has_prefix p s \<longleftrightarrow> take (length p) s = p"

definition trim_prefix :: "string \<Rightarrow> string \<Rightarrow> string" where
  "trim_prefix p s = (if has_prefix p s then drop (length p) s else s)"

definition to_lower_char :: "char \<Rightarrow> char" where
  "to_lower_char c = (if 65 \<le> (of_char c :: nat) \<and> (of_char c :: nat) \<le> 90 then char_of ((of_char c :: nat) + 32) else c)"

definition to_lower :: "string \<Rightarrow> string" where "to_lower = map to_lower_char"

definition equal_fold :: "string \<Rightarrow> string \<Rightarrow> bool" where "equal_fold s t \<longleftrightarrow> to_lower s = to_lower t"

definition trim_space :: "string \<Rightarrow> string" where
  "trim_space s = rev (dropWhile is_space (rev (dropWhile is_space s)))"

text \<open>\<^verbatim>\<open>strings.Cut\<close> at a character, and \<^verbatim>\<open>strings.IndexByte\<close> through it.\<close>

fun cut_at :: "char \<Rightarrow> string \<Rightarrow> (string \<times> string) option" where
  "cut_at c [] = None"
| "cut_at c (x # s) =
     (if x = c then Some ([], s) else map_option (\<lambda>(a, b). (x # a, b)) (cut_at c s))"

lemma cut_at_append [simp]: "c \<notin> set p \<Longrightarrow> cut_at c (p @ c # s) = Some (p, s)"
  by (induction p) auto

lemma cut_at_None: "cut_at c s = None \<longleftrightarrow> c \<notin> set s"
  by (induction s) auto

lemma cut_atD: "cut_at c s = Some (a, b) \<Longrightarrow> s = a @ c # b \<and> c \<notin> set a"
  by (induction s arbitrary: a) (auto split: if_splits)

lemma has_prefix_append [simp]: "has_prefix p (p @ s)"
  by (simp add: has_prefix_def)

lemma has_prefixD: "has_prefix p s \<Longrightarrow> s = p @ drop (length p) s"
  unfolding has_prefix_def by (metis append_take_drop_id)

lemma length_to_lower [simp]: "length (to_lower s) = length s"
  by (simp add: to_lower_def)

lemma to_lower_append [simp]: "to_lower (s @ t) = to_lower s @ to_lower t"
  by (simp add: to_lower_def)

section \<open>CRLF lines\<close>

abbreviation CR :: char where "CR \<equiv> CHR 0x0D"
abbreviation LF :: char where "LF \<equiv> CHR 0x0A"
abbreviation CRLF :: string where "CRLF \<equiv> [CR, LF]"

text \<open>\<^verbatim>\<open>strings.Split(s, "\r\n")\<close> and \<^verbatim>\<open>strings.Join(lines, "\r\n")\<close>.\<close>

fun split_crlf :: "string \<Rightarrow> string list" where
  "split_crlf [] = [[]]"
| "split_crlf [a] = [[a]]"
| "split_crlf (a # b # s) =
     (if a = CR \<and> b = LF then [] # split_crlf s
      else (case split_crlf (b # s) of [] \<Rightarrow> [[a]] | l # ls \<Rightarrow> (a # l) # ls))"

fun join_crlf :: "string list \<Rightarrow> string" where
  "join_crlf [] = []"
| "join_crlf [l] = l"
| "join_crlf (l # m # ls) = l @ CRLF @ join_crlf (m # ls)"

lemma split_crlf_nonempty [simp]: "split_crlf s \<noteq> []"
  by (induction s rule: split_crlf.induct) (auto split: list.splits)

lemma join_crlf_cons: "ls \<noteq> [] \<Longrightarrow> join_crlf (l # ls) = l @ CRLF @ join_crlf ls"
  by (cases ls) auto

lemma join_split_crlf [http_simps]: "join_crlf (split_crlf s) = s"
proof (induction s rule: split_crlf.induct)
  case (3 a b s)
  obtain l ls where sp: "split_crlf (b # s) = l # ls" by (cases "split_crlf (b # s)") auto
  show ?case
  proof (cases "a = CR \<and> b = LF")
    case True
    with 3 show ?thesis by (simp add: join_crlf_cons)
  next
    case False
    with 3 sp show ?thesis by (cases ls) auto
  qed
qed auto

text \<open>A line holds no CRLF when no carriage return is in it.\<close>

lemma split_crlf_free: "CR \<notin> set l \<Longrightarrow> split_crlf l = [l]"
  by (induction l rule: split_crlf.induct) auto

lemma split_crlf_append [http_simps]: "CR \<notin> set l \<Longrightarrow> split_crlf (l @ CR # LF # s) = l # split_crlf s"
proof (induction l)
  case (Cons a l)
  then show ?case by (cases l) (auto split: list.splits)
qed simp

lemma split_join_crlf [http_simps]:
  "ls \<noteq> [] \<Longrightarrow> \<forall>l \<in> set ls. CR \<notin> set l \<Longrightarrow> split_crlf (join_crlf ls) = ls"
  by (induction ls rule: join_crlf.induct) (auto simp: split_crlf_free split_crlf_append)

section \<open>Standard base64\<close>

abbreviation base64_std_alphabet :: string where
  "base64_std_alphabet \<equiv> ''ABCDEFGHIJKLMNOPQRSTUVWXYZabcdefghijklmnopqrstuvwxyz0123456789+/''"

fun index_in :: "'a \<Rightarrow> 'a list \<Rightarrow> nat option" where
  "index_in x [] = None"
| "index_in x (y # ys) = (if x = y then Some 0 else map_option Suc (index_in x ys))"

definition base64_value :: "char \<Rightarrow> nat option" where
  "base64_value c = index_in c base64_std_alphabet"

definition octet :: "nat \<Rightarrow> char" where "octet n = char_of (n mod 256)"

text \<open>Whole quanta of four characters; padding only ends the last one. The unused low bits of a
  padded quantum are ignored, as \<^verbatim>\<open>StdEncoding\<close> is not strict.\<close>

fun base64_quanta :: "string \<Rightarrow> string option" where
  "base64_quanta [] = Some []"
| "base64_quanta (a # b # c # d # s) =
     (case (base64_value a, base64_value b) of
        (Some i, Some j) \<Rightarrow>
          if c = CHR ''='' then
            (if d = CHR ''='' \<and> s = [] then Some [octet (i * 4 + j div 16)] else None)
          else (case base64_value c of
             None \<Rightarrow> None
           | Some k \<Rightarrow>
               if d = CHR ''='' then
                 (if s = [] then Some [octet (i * 4 + j div 16), octet (j * 16 + k div 4)] else None)
               else (case base64_value d of
                  None \<Rightarrow> None
                | Some l \<Rightarrow>
                    map_option (\<lambda>r. octet (i * 4 + j div 16) # octet (j * 16 + k div 4) # octet (k * 64 + l) # r)
                      (base64_quanta s)))
      | _ \<Rightarrow> None)"
| "base64_quanta _ = None"

definition base64_decode :: "string \<Rightarrow> string option" where
  "base64_decode s = base64_quanta (filter (\<lambda>c. c \<noteq> CR \<and> c \<noteq> LF) s)"

definition base64_std_char :: "nat \<Rightarrow> char" where
  "base64_std_char n = base64_std_alphabet ! (n mod 64)"

fun base64_encode :: "string \<Rightarrow> string" where
  "base64_encode [] = []"
| "base64_encode [x] = (let a = of_char x in
     [base64_std_char (a div 4), base64_std_char (a mod 4 * 16), CHR ''='', CHR ''=''])"
| "base64_encode [x, y] = (let a = of_char x; b = of_char y in
     [base64_std_char (a div 4), base64_std_char (a mod 4 * 16 + b div 16), base64_std_char (b mod 16 * 4), CHR ''=''])"
| "base64_encode (x # y # z # s) = (let a = of_char x; b = of_char y; c = of_char z in
     base64_std_char (a div 4) # base64_std_char (a mod 4 * 16 + b div 16) #
     base64_std_char (b mod 16 * 4 + c div 64) # base64_std_char c # base64_encode s)"

lemma index_in_nth: "distinct xs \<Longrightarrow> n < length xs \<Longrightarrow> index_in (xs ! n) xs = Some n"
proof (induction xs arbitrary: n)
  case (Cons x xs)
  then show ?case by (cases n) auto
qed simp

lemma distinct_base64_std [simp]: "distinct base64_std_alphabet"
  by code_simp

lemma base64_value_char [simp]: "base64_value (base64_std_char n) = Some (n mod 64)"
  unfolding base64_value_def base64_std_char_def by (rule index_in_nth) simp_all

lemma base64_std_char_in: "base64_std_char n \<in> set base64_std_alphabet"
  unfolding base64_std_char_def by (rule nth_mem) simp

lemma base64_std_char_plain [simp]:
  "base64_std_char n \<noteq> CHR ''=''" "base64_std_char n \<noteq> CR" "base64_std_char n \<noteq> LF" "base64_std_char n \<noteq> CHR '' ''"
  using base64_std_char_in [of n] by auto

lemma octet_eq: "n mod 256 = of_char c \<Longrightarrow> octet n = c"
  by (simp add: octet_def)

lemma pack_div: "(r :: nat) < m \<Longrightarrow> (q * m + r) div m = q"
  by simp

lemma sextet_bounds:
  "(b :: nat) < 256 \<Longrightarrow> b div 16 < 16" "(c :: nat) < 256 \<Longrightarrow> c div 64 < 4" "(a :: nat) < 256 \<Longrightarrow> a div 4 < 64"
  by (simp_all add: less_mult_imp_div_less)

lemma octet_first: "(j :: nat) < 16 \<Longrightarrow> octet (of_char x div 4 mod 64 * 4 + (of_char x mod 4 * 16 + j) mod 64 div 16) = x"
proof (rule octet_eq)
  assume j: "j < 16"
  have a: "(of_char x :: nat) < 256" by (rule of_char_less_256)
  have "of_char x mod 4 < (4 :: nat)" by simp
  with j have "of_char x mod 4 * 16 + j < (64 :: nat)" by linarith
  then have "(of_char x mod 4 * 16 + j) mod 64 div 16 = (of_char x mod 4 :: nat)"
    by (simp only: mod_less pack_div [OF j])
  with a sextet_bounds(3) [OF a]
  show "(of_char x div 4 mod 64 * 4 + (of_char x mod 4 * 16 + j) mod 64 div 16) mod 256 = (of_char x :: nat)"
    by (simp only: mod_less div_mult_mod_eq)
qed

lemma octet_second:
  assumes "(k :: nat) < 4"
  shows "octet ((of_char x mod 4 * 16 + of_char y div 16) mod 64 * 16 + (of_char y mod 16 * 4 + k) mod 64 div 4) = y"
proof (rule octet_eq)
  have b: "(of_char y :: nat) < 256" by (rule of_char_less_256)
  have "of_char x mod 4 < (4 :: nat)" "of_char y mod 16 < (16 :: nat)" by simp_all
  with assms sextet_bounds(1) [OF b]
  have small: "of_char x mod 4 * 16 + of_char y div 16 < (64 :: nat)" "of_char y mod 16 * 4 + k < 64" by linarith+
  have "(of_char x mod 4 * 16 + of_char y div 16) * 16 + of_char y mod 16 = (of_char y + 256 * (of_char x mod 4) :: nat)"
    by (simp add: algebra_simps)
  with b show "((of_char x mod 4 * 16 + of_char y div 16) mod 64 * 16 + (of_char y mod 16 * 4 + k) mod 64 div 4) mod 256
      = (of_char y :: nat)"
    by (simp only: mod_less [OF small(1)] mod_less [OF small(2)] pack_div [OF assms] mod_mult_self2 mod_less)
qed

lemma octet_third: "octet ((of_char y mod 16 * 4 + of_char z div 64) mod 64 * 64 + of_char z mod 64) = z"
proof (rule octet_eq)
  have c: "(of_char z :: nat) < 256" by (rule of_char_less_256)
  have "of_char y mod 16 < (16 :: nat)" by simp
  with sextet_bounds(2) [OF c] have small: "of_char y mod 16 * 4 + of_char z div 64 < (64 :: nat)" by linarith
  have "(of_char y mod 16 * 4 + of_char z div 64) * 64 + of_char z mod 64 = (of_char z + 256 * (of_char y mod 16) :: nat)"
    by (simp add: algebra_simps)
  with c show "((of_char y mod 16 * 4 + of_char z div 64) mod 64 * 64 + of_char z mod 64) mod 256 = (of_char z :: nat)"
    by (simp only: mod_less [OF small] mod_mult_self2 mod_less)
qed

lemmas octet_sextets = octet_first [of 0, simplified] octet_first [OF sextet_bounds(1) [OF of_char_less_256]]
  octet_second [of 0, simplified] octet_second [OF sextet_bounds(2) [OF of_char_less_256]] octet_third

lemma base64_quanta_encode [http_simps]: "base64_quanta (base64_encode s) = Some s"
  by (induction s rule: base64_encode.induct) (simp_all add: Let_def octet_sextets)

lemma base64_encode_plain: "c \<in> set (base64_encode s) \<Longrightarrow> c \<noteq> CR \<and> c \<noteq> LF \<and> c \<noteq> CHR '' ''"
  by (induction s rule: base64_encode.induct) (auto simp: Let_def)

lemma base64_decode_encode [http_simps]: "base64_decode (base64_encode s) = Some s"
  unfolding base64_decode_def
  by (subst filter_True) (auto dest: base64_encode_plain simp: base64_quanta_encode)

section \<open>Literal addresses\<close>

text \<open>
  Which strings \<^verbatim>\<open>net.ParseIP\<close> accepts: the dotted and the colon form of
  \<^verbatim>\<open>netip.ParseAddr\<close>, without a zone. A dotted field is one to three digits without a leading
  zero and at most 255; a colon form has eight groups of one to four hexadecimal digits, one
  \<^verbatim>\<open>::\<close> standing for at least one of them, and may end in a dotted form.
\<close>

definition ipv4_field :: "string \<Rightarrow> bool" where
  "ipv4_field f \<longleftrightarrow> (case parse_digits 0 f of Some n \<Rightarrow> f \<noteq> [] \<and> n \<le> 255 | None \<Rightarrow> False) \<and>
     (length f > 1 \<longrightarrow> hd f \<noteq> CHR ''0'')"

definition ipv4_ok :: "string \<Rightarrow> bool" where
  "ipv4_ok s \<longleftrightarrow> length (split_on (CHR ''.'') s) = 4 \<and> list_all ipv4_field (split_on (CHR ''.'') s)"

definition is_hex :: "char \<Rightarrow> bool" where
  "is_hex c \<longleftrightarrow> c \<in> set ''0123456789abcdefABCDEF''"

text \<open>The loop of \<^verbatim>\<open>parseIPv6\<close>: \<open>i\<close> bytes are filled, \<open>e\<close> is where the ellipsis stands.\<close>

function (sequential) ipv6_loop :: "nat \<Rightarrow> nat option \<Rightarrow> string \<Rightarrow> bool" where
  "ipv6_loop i e s =
     (if i \<ge> 16 then s = [] \<and> e = None
      else
        (let group = takeWhile is_hex s; rest = dropWhile is_hex s in
         if group = [] \<or> length group > 4 then False
         else
           (case rest of
              [] \<Rightarrow> (i + 2 < 16 \<longrightarrow> e \<noteq> None) \<and> (i + 2 = 16 \<longrightarrow> e = None)
            | c # more' \<Rightarrow>
                if c = CHR ''.'' then
                  (e = None \<longrightarrow> i = 12) \<and> i + 4 \<le> 16 \<and> ipv4_ok s \<and> (i + 4 = 16 \<longrightarrow> e = None)
                else if c \<noteq> CHR '':'' \<or> more' = [] then False
                else if hd more' = CHR '':'' then
                  (if e \<noteq> None then False
                   else if tl more' = [] then i + 2 < 16
                   else ipv6_loop (i + 2) (Some (i + 2)) (tl more'))
                else ipv6_loop (i + 2) e more')))"
  by pat_completeness auto
termination by (relation "measure (\<lambda>(i, e, s). 16 - i)") auto

definition ipv6_ok :: "string \<Rightarrow> bool" where
  "ipv6_ok s =
     (if has_prefix ''::'' s then drop 2 s = [] \<or> ipv6_loop 0 (Some 0) (drop 2 s)
      else ipv6_loop 0 None s)"

definition ParseIP :: "string \<Rightarrow> bool" where
  "ParseIP s =
     (case filter (\<lambda>c. c \<in> set ''.:%'') s of
        [] \<Rightarrow> False
      | c # _ \<Rightarrow> if c = CHR ''.'' then ipv4_ok s else if c = CHR '':'' then ipv6_ok s else False)"

section \<open>Requests\<close>

type_synonym header = "(string, string list) gomap" \<comment> \<open>\<^verbatim>\<open>http.Header\<close>, canonical keys\<close>

record http_request =
  rq_method :: string
  rq_path :: string
  rq_uri :: string \<comment> \<open>\<^verbatim>\<open>r.URL.RequestURI()\<close>\<close>
  rq_proto :: string
  rq_proto_major :: nat
  rq_host :: string
  rq_header :: header
  rq_query :: "(string, string list) gomap"
  rq_remote :: string
  rq_length :: int
  rq_transfer :: "string list"
  rq_chains :: "nat option" \<comment> \<open>verified chains of \<^verbatim>\<open>r.TLS\<close>, \<open>None\<close> for a nil one\<close>

text \<open>\<^verbatim>\<open>Header.Values\<close>, \<^verbatim>\<open>Header.Get\<close> and \<^verbatim>\<open>url.Values.Get\<close>, at a canonical key.\<close>

definition header_values :: "header \<Rightarrow> string \<Rightarrow> string list" where
  "header_values h k = (case gm_get h k of Some vs \<Rightarrow> vs | None \<Rightarrow> [])"

definition header_get :: "header \<Rightarrow> string \<Rightarrow> string" where
  "header_get h k = (case header_values h k of v # _ \<Rightarrow> v | [] \<Rightarrow> [])"

end
