(* ===== verification/Control_Identity.thy ===== *)
theory Control_Identity
  imports Http
begin

text \<open>
  The server's control-plane gate: \<^verbatim>\<open>control_identity.go\<close> (credentials, scopes, the scope
  middleware and the binding of a request to its principal), \<^verbatim>\<open>reverse_policy.go\<close> (which
  addresses a client may bind), and from \<^verbatim>\<open>server.go\<close> the rate-limit key, the client
  certificate gate and the table of control endpoints with the scope each demands.
\<close>

section \<open>Credentials and scopes\<close>

record control_principal =
  cp_client :: string
  cp_scopes :: "string list"
  cp_legacy :: bool

record client_identity =
  ci_id :: string
  ci_token :: string
  ci_scopes :: "string list"

record control_credential =
  cc_token :: string
  cc_principal :: control_principal

abbreviation scopeAdmin :: string where "scopeAdmin \<equiv> ''admin''"
abbreviation scopeClient :: string where "scopeClient \<equiv> ''client''"
abbreviation scopeP2PRead :: string where "scopeP2PRead \<equiv> ''p2p:read''"
abbreviation scopeP2PAdmin :: string where "scopeP2PAdmin \<equiv> ''p2p:admin''"
abbreviation scopeP2PSignal :: string where "scopeP2PSignal \<equiv> ''p2p:signal''"

definition legacyPrincipal :: control_principal where
  "legacyPrincipal = \<lparr>cp_client = ''*'', cp_scopes = [], cp_legacy = True\<rparr>"

definition allows :: "control_principal \<Rightarrow> string \<Rightarrow> bool" where
  "allows p scope =
     (if cp_legacy p then True
      else if ''*'' \<in> set (cp_scopes p) then True
      else if scope \<in> set (cp_scopes p) then True
      else (case cut_at (CHR '':'') scope of
              Some (family, _) \<Rightarrow> family \<noteq> [] \<and> family \<in> set (cp_scopes p)
            | None \<Rightarrow> False))"

text \<open>An omitted scope list grants the client scope only.\<close>

definition newControlIdentityPolicy :: "client_identity list \<Rightarrow> control_credential list" where
  "newControlIdentityPolicy configs =
     map (\<lambda>c. \<lparr>cc_token = ci_token c,
               cc_principal = \<lparr>cp_client = ci_id c,
                               cp_scopes = (if ci_scopes c = [] then [scopeClient] else remdups (ci_scopes c)),
                               cp_legacy = False\<rparr>\<rparr>) configs"

text \<open>Every credential is compared; the last match wins.\<close>

definition authenticate :: "control_credential list \<Rightarrow> string \<Rightarrow> control_principal option" where
  "authenticate creds token =
     (if token = [] then None
      else foldl (\<lambda>match c. if token = cc_token c then Some (cc_principal c) else match) None creds)"

record control_config =
  cf_auth_enabled :: bool
  cf_api_token :: string
  cf_identities :: "control_credential list"
  cf_client_ca :: string
  cf_trust_proxy :: bool
  cf_domain :: string
  cf_port :: int
  cf_public_port :: int
  cf_reverse_min :: int
  cf_reverse_max :: int
  cf_reverse_per_client :: int

definition requestControlToken :: "http_request \<Rightarrow> string" where
  "requestControlToken r =
     (let token = header_get (rq_header r) ''X-Api-Token''; auth = header_get (rq_header r) ''Authorization'' in
      if token \<noteq> [] then token
      else if has_prefix ''Bearer '' auth then trim_prefix ''Bearer '' auth
      else header_get (rq_query r) ''token'')"

definition authenticateControlRequest :: "control_config \<Rightarrow> http_request \<Rightarrow> control_principal option" where
  "authenticateControlRequest cf r =
     (let token = requestControlToken r in
      case authenticate (cf_identities cf) token of
        Some p \<Rightarrow> Some p
      | None \<Rightarrow>
          if cf_auth_enabled cf \<and> cf_api_token cf \<noteq> [] \<and> token = cf_api_token cf then Some legacyPrincipal
          else if \<not> cf_auth_enabled cf \<and> length (cf_identities cf) = 0 then Some legacyPrincipal
          else None)"

text \<open>The middleware's answer: an HTTP status, or the principal the handler runs under.\<close>

type_synonym status = nat

definition serverAuthScopeMiddleware :: "control_config \<Rightarrow> string \<Rightarrow> http_request \<Rightarrow> status + control_principal" where
  "serverAuthScopeMiddleware cf scope r =
     (case authenticateControlRequest cf r of
        None \<Rightarrow> Inl 401
      | Some p \<Rightarrow> if \<not> allows p scope then Inl 403 else Inr p)"

text \<open>\<open>None\<close> is a request without a principal in its context.\<close>

definition requirePrincipalClient :: "control_principal option \<Rightarrow> string \<Rightarrow> status + string" where
  "requirePrincipalClient who requested =
     (case who of
        None \<Rightarrow> Inr requested
      | Some p \<Rightarrow>
          if cp_legacy p then Inr requested
          else if requested = [] then Inr (cp_client p)
          else if requested \<noteq> cp_client p then Inl 403
          else Inr requested)"

section \<open>Reverse listeners\<close>

record reverse_config =
  rv_remote :: string
  rv_local :: string

datatype reverse_error =
    InvalidReverseAddress string | BindHostNotAllowed string | InvalidReversePort string
  | ReversePortOutside int | TooManyReverse int

definition normalizeReverseRemote :: "control_config \<Rightarrow> string \<Rightarrow> reverse_error + string" where
  "normalizeReverseRemote cf remote =
     (case (if CHR '':'' \<in> set remote then SplitHostPort remote else Some ([], remote)) of
        None \<Rightarrow> Inl (InvalidReverseAddress remote)
      | Some (host, portStr) \<Rightarrow>
          if host \<noteq> [] \<and> host \<noteq> ''0.0.0.0'' \<and> host \<noteq> ''::'' then Inl (BindHostNotAllowed remote)
          else (case parse_int64 portStr of
                  None \<Rightarrow> Inl (InvalidReversePort portStr)
                | Some port \<Rightarrow>
                    if port < cf_reverse_min cf \<or> port > cf_reverse_max cf \<or> port = cf_port cf
                    then Inl (ReversePortOutside port)
                    else Inr (CHR '':'' # format_int port)))"

fun normalize_each :: "control_config \<Rightarrow> reverse_config list \<Rightarrow> reverse_error + reverse_config list" where
  "normalize_each cf [] = Inr []"
| "normalize_each cf (c # cs) =
     (case normalizeReverseRemote cf (rv_remote c) of
        Inl e \<Rightarrow> Inl e
      | Inr addr \<Rightarrow>
          (case normalize_each cf cs of
             Inl e \<Rightarrow> Inl e
           | Inr out \<Rightarrow> Inr (\<lparr>rv_remote = addr, rv_local = rv_local c\<rparr> # out)))"

definition validateReverseConfigs :: "control_config \<Rightarrow> reverse_config list \<Rightarrow> reverse_error + reverse_config list" where
  "validateReverseConfigs cf configs =
     (if int (length configs) > cf_reverse_per_client cf then Inl (TooManyReverse (int (length configs)))
      else normalize_each cf configs)"

section \<open>Request admission\<close>

definition getServerClientIP :: "control_config \<Rightarrow> http_request \<Rightarrow> string" where
  "getServerClientIP cf r =
     (let peer = (case SplitHostPort (rq_remote r) of
                    Some (ip, _) \<Rightarrow> if ip \<noteq> [] then ip else rq_remote r
                  | None \<Rightarrow> rq_remote r);
          xff = header_get (rq_header r) ''X-Forwarded-For'';
          xri = header_get (rq_header r) ''X-Real-Ip''
      in if \<not> cf_trust_proxy cf then peer
         else if xff \<noteq> [] then trim_space (hd (split_on (CHR '','') xff))
         else if xri \<noteq> [] then xri
         else peer)"

text \<open>The limiter of \<^verbatim>\<open>golang.org/x/time/rate\<close> is a parameter: a fresh one, and \<open>allow\<close>, which
  answers and updates it.\<close>

definition getServerRateLimiter :: "'l \<Rightarrow> string \<Rightarrow> (string, 'l) gomap \<Rightarrow> 'l \<times> (string, 'l) gomap" where
  "getServerRateLimiter fresh ip limiters =
     (case gm_get limiters ip of
        Some l \<Rightarrow> (l, limiters)
      | None \<Rightarrow> (fresh, gm_put ip fresh limiters))"

definition serverRateLimitMiddleware ::
  "('l \<Rightarrow> bool \<times> 'l) \<Rightarrow> 'l \<Rightarrow> control_config \<Rightarrow> http_request \<Rightarrow> (string, 'l) gomap \<Rightarrow> status option \<times> (string, 'l) gomap" where
  "serverRateLimitMiddleware allow fresh cf r limiters =
     (let ip = getServerClientIP cf r; (l, limiters) = getServerRateLimiter fresh ip limiters; (ok, l) = allow l in
      (if ok then None else Some 429, gm_put ip l limiters))"

definition controlClientCertAccepted :: "control_config \<Rightarrow> http_request \<Rightarrow> bool" where
  "controlClientCertAccepted cf r =
     (if cf_client_ca cf = [] \<or> rq_path r = ''/health'' \<or> rq_path r = ''/ready'' then True
      else (case rq_chains r of None \<Rightarrow> False | Some n \<Rightarrow> n > 0))"

definition serverAdvertisedPort :: "control_config \<Rightarrow> int" where
  "serverAdvertisedPort cf = (if cf_public_port cf > 0 then cf_public_port cf else cf_port cf)"

definition serverPublicURL :: "control_config \<Rightarrow> string \<Rightarrow> string \<Rightarrow> string" where
  "serverPublicURL cf name domain =
     (let port = serverAdvertisedPort cf in
      if port = 443 then ''https://'' @ name @ ''.'' @ domain
      else ''https://'' @ name @ ''.'' @ domain @ '':'' @ format_int port)"

section \<open>What the gate guarantees\<close>

lemma authenticate_fold:
  "foldl (\<lambda>match c. if token = cc_token c then Some (cc_principal c) else match) m creds = Some p \<Longrightarrow>
     m = Some p \<or> (\<exists>c \<in> set creds. cc_token c = token \<and> cc_principal c = p)"
  by (induction creds arbitrary: m) (auto split: if_splits)

lemma authenticate_sound:
  "authenticate creds token = Some p \<Longrightarrow> token \<noteq> [] \<and> (\<exists>c \<in> set creds. cc_token c = token \<and> cc_principal c = p)"
  unfolding authenticate_def using authenticate_fold [of token None creds p] by (auto split: if_splits)

lemma policy_principals:
  "c \<in> set (newControlIdentityPolicy configs) \<Longrightarrow>
     \<exists>i \<in> set configs. cc_token c = ci_token i \<and> cp_client (cc_principal c) = ci_id i \<and>
       set (cp_scopes (cc_principal c)) = (if ci_scopes i = [] then {scopeClient} else set (ci_scopes i)) \<and>
       \<not> cp_legacy (cc_principal c)"
  by (auto simp: newControlIdentityPolicy_def)

lemma allowsD:
  "allows p scope \<Longrightarrow> \<not> cp_legacy p \<Longrightarrow> ''*'' \<in> set (cp_scopes p) \<or> scope \<in> set (cp_scopes p) \<or>
     (\<exists>family sub. scope = family @ CHR '':'' # sub \<and> family \<in> set (cp_scopes p))"
  using cut_atD [of "CHR '':''" scope] unfolding allows_def
  by (cases "cut_at (CHR '':'') scope") (simp_all split: if_splits prod.splits, blast+)

lemma requirePrincipalClient_sound:
  "requirePrincipalClient (Some p) requested = Inr c \<Longrightarrow> \<not> cp_legacy p \<Longrightarrow> c = cp_client p"
  by (auto simp: requirePrincipalClient_def split: if_splits)

lemma middleware_sound:
  assumes "serverAuthScopeMiddleware cf scope r = Inr p"
  shows "allows p scope \<and>
    (cp_legacy p \<longrightarrow> p = legacyPrincipal \<or> p \<in> cc_principal ` set (cf_identities cf)) \<and>
    (\<not> cp_legacy p \<longrightarrow> requestControlToken r \<noteq> [] \<and>
       (\<exists>c \<in> set (cf_identities cf). cc_token c = requestControlToken r \<and> cc_principal c = p))"
  using assms authenticate_sound [of "cf_identities cf" "requestControlToken r" p]
  by (auto simp: serverAuthScopeMiddleware_def authenticateControlRequest_def Let_def legacyPrincipal_def
      split: option.splits if_splits)

text \<open>C6. Control-plane identity: when the server is configured with client identities, a request
  that passes the scope middleware of an endpoint carries, in one of the three places
  the server looks, either the non-empty administrator token or the token of a configured identity; in the second
  case the granted scope is one of the identity's scopes, its family, \<^verbatim>\<open>*\<close>, or the default client
  scope, and every client ID the handler derives through \<^verbatim>\<open>requirePrincipalClient\<close> is that
  identity's own.\<close>

theorem control_identity_sound:
  assumes "serverAuthScopeMiddleware (cf\<lparr>cf_identities := newControlIdentityPolicy ids\<rparr>) scope r = Inr p"
    and "ids \<noteq> []"
    and "requirePrincipalClient (Some p) requested = Inr c"
  shows "requestControlToken r \<noteq> [] \<and>
    (requestControlToken r = cf_api_token cf \<and> cf_auth_enabled cf \<and> c = requested \<or>
     (\<exists>i \<in> set ids. requestControlToken r = ci_token i \<and> c = ci_id i \<and>
        (if ci_scopes i = [] then scope = scopeClient \<or> has_prefix ''client:'' scope
         else ''*'' \<in> set (ci_scopes i) \<or> scope \<in> set (ci_scopes i) \<or>
              (\<exists>family sub. scope = family @ CHR '':'' # sub \<and> family \<in> set (ci_scopes i)))))"
proof (cases "authenticate (newControlIdentityPolicy ids) (requestControlToken r)")
  case None
  with assms show ?thesis
    by (auto simp: serverAuthScopeMiddleware_def authenticateControlRequest_def Let_def legacyPrincipal_def
        newControlIdentityPolicy_def requirePrincipalClient_def split: if_splits)
next
  case (Some q)
  with assms(1) have q: "q = p" and al: "allows p scope"
    by (auto simp: serverAuthScopeMiddleware_def authenticateControlRequest_def Let_def split: if_splits)
  from authenticate_sound [OF Some] obtain cr where cr: "cr \<in> set (newControlIdentityPolicy ids)"
    "cc_token cr = requestControlToken r" "cc_principal cr = p" and tok: "requestControlToken r \<noteq> []"
    using q by auto
  from policy_principals [OF cr(1)] obtain i where i: "i \<in> set ids" "ci_token i = requestControlToken r"
    "cp_client p = ci_id i" "set (cp_scopes p) = (if ci_scopes i = [] then {scopeClient} else set (ci_scopes i))"
    "\<not> cp_legacy p" using cr by auto
  from requirePrincipalClient_sound [OF assms(3) i(5)] have c: "c = ci_id i" using i(3) by simp
  have "if ci_scopes i = [] then scope = scopeClient \<or> has_prefix ''client:'' scope
        else ''*'' \<in> set (ci_scopes i) \<or> scope \<in> set (ci_scopes i) \<or>
             (\<exists>family sub. scope = family @ CHR '':'' # sub \<and> family \<in> set (ci_scopes i))"
    using allowsD [OF al i(5)] i(4) by (auto simp: has_prefix_def)
  with tok i(1,2) c show ?thesis by metis
qed

definition example_config :: control_config where
  "example_config = \<lparr>cf_auth_enabled = True, cf_api_token = ''root'', cf_identities = [], cf_client_ca = [],
     cf_trust_proxy = False, cf_domain = ''x.io'', cf_port = 443, cf_public_port = 0, cf_reverse_min = 1024,
     cf_reverse_max = 65535, cf_reverse_per_client = 10\<rparr>"

definition example_request :: http_request where
  "example_request = \<lparr>rq_method = ''GET'', rq_path = ''/p2p/ws'', rq_uri = ''/p2p/ws'', rq_proto = ''HTTP/1.1'',
     rq_proto_major = 1, rq_host = ''x.io'', rq_header = [(''X-Api-Token'', [''t1''])], rq_query = [],
     rq_remote = ''10.0.0.1:4000'', rq_length = 0, rq_transfer = [], rq_chains = None\<rparr>"

theorem control_identity_sound_witness:
  "requirePrincipalClient (Some \<lparr>cp_client = ''alice'', cp_scopes = [''p2p''], cp_legacy = False\<rparr>) [] = Inr ''alice'' \<and>
   requestControlToken example_request \<noteq> []"
  using control_identity_sound [where cf = example_config and ids = "[\<lparr>ci_id = ''alice'', ci_token = ''t1'', ci_scopes = [''p2p'']\<rparr>]"
      and scope = scopeP2PSignal and r = example_request and p = "\<lparr>cp_client = ''alice'', cp_scopes = [''p2p''], cp_legacy = False\<rparr>" and requested = "[]" and c = "''alice''"]
  by (simp add: serverAuthScopeMiddleware_def authenticateControlRequest_def requestControlToken_def Let_def
      authenticate_def newControlIdentityPolicy_def example_config_def example_request_def header_get_def header_values_def
      requirePrincipalClient_def allows_def)

definition reverse_addr_ok :: "control_config \<Rightarrow> string \<Rightarrow> bool" where
  "reverse_addr_ok cf addr \<longleftrightarrow> (\<exists>port. addr = CHR '':'' # format_int port \<and>
     cf_reverse_min cf \<le> port \<and> port \<le> cf_reverse_max cf \<and> port \<noteq> cf_port cf)"

lemma reverse_addr_okI:
  "\<not> port < cf_reverse_min cf \<Longrightarrow> \<not> cf_reverse_max cf < port \<Longrightarrow> port \<noteq> cf_port cf \<Longrightarrow>
     reverse_addr_ok cf (CHR '':'' # format_int port)"
  unfolding reverse_addr_ok_def by (intro exI [of _ port]) simp

lemma normalizeReverseRemote_bounds:
  "normalizeReverseRemote cf remote = Inr addr \<Longrightarrow>
reverse_addr_ok cf addr"
  by (auto simp: normalizeReverseRemote_def split: option.splits if_splits intro: reverse_addr_okI)

lemma normalize_each_bounds:
  "normalize_each cf configs = Inr out \<Longrightarrow>
     map rv_local out = map rv_local configs \<and>
     (\<forall>c \<in> set out. reverse_addr_ok cf (rv_remote c))"
  by (induction configs arbitrary: out) (auto split: sum.splits dest!: normalizeReverseRemote_bounds)

text \<open>C40. Reverse listeners stay inside the operator's bounds: when the server accepts a client's
  reverse forwards, there are at most the configured number, they keep the client's
  local targets in order, and each will listen on the wildcard host at a decimal port of the
  configured range that is not the server's own port.\<close>

theorem reverse_listeners_bounded:
  assumes "validateReverseConfigs cf configs = Inr out"
  shows "int (length out) \<le> cf_reverse_per_client cf \<and> map rv_local out = map rv_local configs \<and>
    (\<forall>c \<in> set out. \<exists>port. rv_remote c = CHR '':'' # format_int port \<and>
       cf_reverse_min cf \<le> port \<and> port \<le> cf_reverse_max cf \<and> port \<noteq> cf_port cf)"
proof -
  from assms have "int (length configs) \<le> cf_reverse_per_client cf" and each: "normalize_each cf configs = Inr out"
    by (auto simp: validateReverseConfigs_def split: if_splits)
  with normalize_each_bounds [OF each, unfolded reverse_addr_ok_def] show ?thesis using map_eq_imp_length_eq [of rv_local out rv_local configs] by auto
qed

theorem reverse_listeners_bounded_witness:
  "validateReverseConfigs example_config [\<lparr>rv_remote = ''0.0.0.0:8080'', rv_local = ''db:5432''\<rparr>] =
     Inr [\<lparr>rv_remote = '':8080'', rv_local = ''db:5432''\<rparr>] \<and>
   int (length [\<lparr>rv_remote = '':8080'', rv_local = ''db:5432''\<rparr>]) \<le> cf_reverse_per_client example_config"
proof -
  have run: "validateReverseConfigs example_config [\<lparr>rv_remote = ''0.0.0.0:8080'', rv_local = ''db:5432''\<rparr>] =
     Inr [\<lparr>rv_remote = '':8080'', rv_local = ''db:5432''\<rparr>]" 
    by (simp add: validateReverseConfigs_def normalizeReverseRemote_def example_config_def SplitHostPort_def split_last_def
        parse_int64_def parse_uint_def digit_value_def digit_char_def format_int_def format_nat.simps char_of_def bit_Suc_0_iff)
  from reverse_listeners_bounded [OF run] run show ?thesis by simp
qed

end
