(* ===== verification/Server_Registry.thy ===== *)
theory Server_Registry
  imports Control_Identity Signaling
begin

text \<open>
  The server's registries (\<^verbatim>\<open>server_deps.go\<close>) and the life of a registration in
  \<^verbatim>\<open>server.go\<close>: the registration handler, the unattached reaper, attach and release of
  data connections, teardown, saved state. A client object is shared by goroutines, so the model has a
  heap of \<^verbatim>\<open>serverClientInfo\<close> values and handles into it; the client registry maps IDs to
  handles, as the code's maps hold pointers.
\<close>

section \<open>Data\<close>

record tunnel_config =
  tn_name :: string
  tn_target :: string
  tn_basic_auth :: string
  tn_capability :: string
  tn_audience :: string
  tn_webtransport :: bool
  tn_datagrams :: bool
  tn_origins :: "string list"

record tunnel_route =
  tr_client :: string
  tr_name :: string
  tr_target :: string
  tr_basic_auth :: string
  tr_headers :: "(string, string) gomap"
  tr_capability :: string
  tr_audience :: string
  tr_webtransport :: bool
  tr_datagrams :: bool
  tr_origins :: "string list"

type_synonym handle = nat \<comment> \<open>a \<^verbatim>\<open>*serverClientInfo\<close>\<close>
type_synonym link = nat \<comment> \<open>identity of a yamux session or a QUIC connection\<close>

record server_client =
  sc_key :: string \<comment> \<open>the \<^verbatim>\<open>clientID\<close> its goroutines were started with\<close>
  sc_udid :: string
  sc_type :: string
  sc_registered :: bool
  sc_activity :: time
  sc_tunnels :: "tunnel_config list"
  sc_tunnel_map :: "(string, string) gomap"
  sc_reverse :: "reverse_config list"
  sc_headers :: "(string, string) gomap"
  sc_compress :: bool
  sc_p2p :: "peer_info option"
  sc_token :: string
  sc_mux :: "link option"
  sc_quic :: "link option"
  sc_signal :: "link option"
  sc_cancelled :: bool \<comment> \<open>\<^verbatim>\<open>ctx.Err() != nil\<close>\<close>
  sc_attached :: bool
  sc_reaped :: bool
  sc_counted_out :: bool \<comment> \<open>\<^verbatim>\<open>decrementOnce\<close> has run\<close>

record server =
  sv_heap :: "server_client list"
  sv_clients :: "(string, handle) gomap"
  sv_routes :: "(string, tunnel_route) gomap"
  sv_closed :: "link list" \<comment> \<open>sessions closed so far\<close>
  sv_active :: int \<comment> \<open>the gauge \<^verbatim>\<open>srvActiveClients\<close>\<close>

abbreviation client_at :: "server \<Rightarrow> handle \<Rightarrow> server_client" where
  "client_at s h \<equiv> sv_heap s ! h"

definition modify :: "handle \<Rightarrow> (server_client \<Rightarrow> server_client) \<Rightarrow> server \<Rightarrow> server" where
  "modify h f s = s\<lparr>sv_heap := (sv_heap s)[h := f (client_at s h)]\<rparr>"

definition validSessionToken :: "server_client \<Rightarrow> string \<Rightarrow> bool" where
  "validSessionToken c presented \<longleftrightarrow> sc_token c \<noteq> [] \<and> presented = sc_token c"

section \<open>The route registry\<close>

definition DeleteOwned :: "string \<Rightarrow> string \<Rightarrow> (string, tunnel_route) gomap \<Rightarrow> bool \<times> (string, tunnel_route) gomap" where
  "DeleteOwned name clientID m =
     (case gm_get m name of
        None \<Rightarrow> (False, m)
      | Some v \<Rightarrow> if tr_client v \<noteq> clientID then (False, m) else (True, gm_del name m))"

definition drop_routes :: "string \<Rightarrow> tunnel_config list \<Rightarrow> (string, tunnel_route) gomap \<Rightarrow> (string, tunnel_route) gomap" where
  "drop_routes clientID ts m = foldl (\<lambda>m t. snd (DeleteOwned (tn_name t) clientID m)) m ts"

section \<open>Teardown\<close>

definition forgetServerClient :: "handle \<Rightarrow> server \<Rightarrow> bool \<times> server" where
  "forgetServerClient h s =
     (let c = client_at s h in
      case gm_get (sv_clients s) (sc_key c) of
        None \<Rightarrow> (False, s)
      | Some current \<Rightarrow>
          if current \<noteq> h then (False, s)
          else (True, s\<lparr>sv_routes := drop_routes (sc_key c) (sc_tunnels c) (sv_routes s),
                        sv_clients := gm_del (sc_key c) (sv_clients s)\<rparr>))"

definition cancel_ctx :: "handle \<Rightarrow> server \<Rightarrow> server" where
  "cancel_ctx h = modify h (\<lambda>c. c\<lparr>sc_cancelled := True\<rparr>)"

definition count_out :: "handle \<Rightarrow> server \<Rightarrow> server" where
  "count_out h s =
     (if sc_counted_out (client_at s h) then s
      else (modify h (\<lambda>c. c\<lparr>sc_counted_out := True\<rparr>) s)\<lparr>sv_active := sv_active s - 1\<rparr>)"

definition close_mux :: "handle \<Rightarrow> server \<Rightarrow> server" where
  "close_mux h s =
     (case sc_mux (client_at s h) of
        None \<Rightarrow> s
      | Some l \<Rightarrow> (modify h (\<lambda>c. c\<lparr>sc_mux := None\<rparr>) s)\<lparr>sv_closed := l # sv_closed s\<rparr>)"

text \<open>\<^verbatim>\<open>closeServerClientConnections\<close> run without interleaving; its four steps under
  separate locks are separate steps of the interleaved system.\<close>

definition closeServerClientConnections :: "handle \<Rightarrow> server \<Rightarrow> server" where
  "closeServerClientConnections h s = count_out h (cancel_ctx h (close_mux h (snd (forgetServerClient h s))))"

section \<open>Attach and release\<close>

definition claimServerAttach :: "handle \<Rightarrow> (server_client \<Rightarrow> link option \<times> server_client) \<Rightarrow> server \<Rightarrow> (link option) option \<times> server" where
  "claimServerAttach h publish s =
     (let c = client_at s h in
      if sc_reaped c \<or> sc_cancelled c then (None, s)
      else (Some (fst (publish c)), modify h (\<lambda>c. snd (publish c)\<lparr>sc_attached := True\<rparr>) s))"

definition publish_mux :: "link \<Rightarrow> server_client \<Rightarrow> link option \<times> server_client" where
  "publish_mux l c =
     (case sc_mux c of
        Some old \<Rightarrow> (if old \<noteq> l then Some old else None, c\<lparr>sc_mux := Some l\<rparr>)
      | None \<Rightarrow> (None, c\<lparr>sc_mux := Some l\<rparr>))"

definition publish_quic :: "link \<Rightarrow> server_client \<Rightarrow> link option \<times> server_client" where
  "publish_quic l c =
     (case sc_quic c of
        Some old \<Rightarrow> (if old \<noteq> l then Some old else None, c\<lparr>sc_quic := Some l\<rparr>)
      | None \<Rightarrow> (None, c\<lparr>sc_quic := Some l\<rparr>))"

definition releaseServerAttach :: "handle \<Rightarrow> (server_client \<Rightarrow> bool \<times> server_client) \<Rightarrow> server \<Rightarrow> bool \<times> server" where
  "releaseServerAttach h unpublish s =
     (let (current, c) = unpublish (client_at s h) in
      if \<not> current then (False, s)
      else (True, modify h (\<lambda>_. c\<lparr>sc_reaped := True\<rparr>) s))"

definition unpublish_mux :: "link \<Rightarrow> server_client \<Rightarrow> bool \<times> server_client" where
  "unpublish_mux l c = (if sc_mux c \<noteq> Some l then (False, c) else (True, c\<lparr>sc_mux := None\<rparr>))"

definition unpublish_quic :: "link \<Rightarrow> server_client \<Rightarrow> bool \<times> server_client" where
  "unpublish_quic l c = (if sc_quic c \<noteq> Some l then (False, c) else (True, c\<lparr>sc_quic := None\<rparr>))"

text \<open>The reaper after its timeout: the section under \<^verbatim>\<open>attachMu\<close>; the answer says whether the
  teardown follows.\<close>

definition reapUnattachedRegistration :: "handle \<Rightarrow> server \<Rightarrow> bool \<times> server" where
  "reapUnattachedRegistration h s =
     (let reap = \<not> sc_attached (client_at s h) in
      (reap, modify h (\<lambda>c. c\<lparr>sc_reaped := sc_reaped c \<or> reap\<rparr>) s))"

definition serverInactivityTimeout :: time where "serverInactivityTimeout = 60 * 60 * second"

text \<open>One tick of the activity monitor: whether it gives the registration up.\<close>

definition monitorServerClientActivity :: "time \<Rightarrow> handle \<Rightarrow> server \<Rightarrow> bool \<times> server" where
  "monitorServerClientActivity now h s =
     (let c = client_at s h;
          muxAlive = (case sc_mux c of Some l \<Rightarrow> l \<notin> set (sv_closed s) | None \<Rightarrow> False)
      in if muxAlive then (False, s)
         else if now - sc_activity c > serverInactivityTimeout then (True, cancel_ctx h s)
         else (False, s))"

section \<open>Registration\<close>

record registration_request =
  rr_type :: string
  rr_client :: string
  rr_tunnels :: "tunnel_config list"
  rr_reverse :: "reverse_config list"
  rr_headers :: "(string, string) gomap"
  rr_compress :: bool
  rr_p2p :: "peer_info option"

record tunnel_info =
  ti_name :: string
  ti_target :: string
  ti_url :: string

record registration_response =
  rs_transports :: "string list"
  rs_udid :: string
  rs_port :: string
  rs_url_notls :: string
  rs_url_tls :: string
  rs_tunnels :: "tunnel_info list"
  rs_token :: string
  rs_multiplexed :: bool

text \<open>Random values the handler draws: \<^verbatim>\<open>uuid.New()\<close> for a client without an ID and for each
  unnamed tunnel, and the 32 random bytes of the session token.\<close>

record registration_env =
  re_client_uuid :: string
  re_tunnel_uuid :: "nat \<Rightarrow> string"
  re_random :: bytes
  re_now :: time

definition hex_byte :: "byte \<Rightarrow> string" where
  "hex_byte b = [''0123456789abcdef'' ! (unat b div 16), ''0123456789abcdef'' ! (unat b mod 16)]"

definition generateServerToken :: "bytes \<Rightarrow> string" where
  "generateServerToken random = concat (map hex_byte random)"

text \<open>The peer information with its identity bound to the client, or \<open>None\<close> for the error.\<close>

definition bindRegistrationP2PIdentity :: "string \<Rightarrow> peer_info option \<Rightarrow> (peer_info option) option" where
  "bindRegistrationP2PIdentity clientID info =
     (case info of
        None \<Rightarrow> Some None
      | Some i \<Rightarrow>
          if pi_peer i = [] then Some (Some (i\<lparr>pi_peer := clientID\<rparr>))
          else if pi_peer i \<noteq> clientID then None
          else Some (Some i))"

text \<open>The clean-up of an existing registration under \<^verbatim>\<open>serverClientLifecycleMu\<close>.\<close>

definition replace_existing :: "string \<Rightarrow> server \<Rightarrow> server" where
  "replace_existing clientID s =
     (case gm_get (sv_clients s) clientID of
        None \<Rightarrow> s
      | Some h \<Rightarrow>
          (let c = client_at s h;
               s = s\<lparr>sv_routes := drop_routes clientID (sc_tunnels c) (sv_routes s)\<rparr>;
               s = cancel_ctx h s;
               s = (case sc_mux c of Some l \<Rightarrow> s\<lparr>sv_closed := l # sv_closed s\<rparr> | None \<Rightarrow> s);
               s = s\<lparr>sv_clients := gm_del clientID (sv_clients s)\<rparr>
           in count_out h s))"

text \<open>The loop over the requested tunnels: the names given out, or the name another client holds.\<close>

fun assign_tunnels :: "(string, tunnel_route) gomap \<Rightarrow> string \<Rightarrow> (nat \<Rightarrow> string) \<Rightarrow> nat \<Rightarrow> tunnel_config list \<Rightarrow> string + tunnel_config list" where
  "assign_tunnels routes clientID uuid i [] = Inr []"
| "assign_tunnels routes clientID uuid i (t # ts) =
     (let name = (if tn_name t = [] then take 8 (uuid i) else tn_name t) in
      if (case gm_get routes name of Some r \<Rightarrow> tr_client r \<noteq> clientID | None \<Rightarrow> False) then Inl name
      else (case assign_tunnels routes clientID uuid (Suc i) ts of
              Inl e \<Rightarrow> Inl e
            | Inr out \<Rightarrow> Inr (t\<lparr>tn_name := name\<rparr> # out)))"

definition legacy_tunnel :: "string \<Rightarrow> tunnel_config" where
  "legacy_tunnel clientID = \<lparr>tn_name = clientID, tn_target = [], tn_basic_auth = [], tn_capability = [],
     tn_audience = [], tn_webtransport = False, tn_datagrams = False, tn_origins = []\<rparr>"

definition tunnel_map_of :: "tunnel_config list \<Rightarrow> (string, string) gomap" where
  "tunnel_map_of ts = foldl (\<lambda>m t. gm_put (tn_name t) (tn_target t) m) [] ts"

definition route_of :: "string \<Rightarrow> (string, string) gomap \<Rightarrow> tunnel_config \<Rightarrow> tunnel_route" where
  "route_of clientID headers t =
     \<lparr>tr_client = clientID, tr_name = tn_name t, tr_target = tn_target t, tr_basic_auth = tn_basic_auth t,
      tr_headers = headers, tr_capability = tn_capability t, tr_audience = tn_audience t,
      tr_webtransport = tn_webtransport t, tr_datagrams = tn_datagrams t, tr_origins = tn_origins t\<rparr>"

definition put_routes ::
  "string \<Rightarrow> (string, string) gomap \<Rightarrow> tunnel_config list \<Rightarrow> (string, tunnel_route) gomap \<Rightarrow> (string, tunnel_route) gomap" where
  "put_routes clientID headers ts m = foldl (\<lambda>m t. gm_put (tn_name t) (route_of clientID headers t) m) m ts"

definition new_client :: "registration_env \<Rightarrow> string \<Rightarrow> registration_request \<Rightarrow> tunnel_config list \<Rightarrow> server_client" where
  "new_client env clientID req ts =
     \<lparr>sc_key = clientID, sc_udid = clientID, sc_type = rr_type req, sc_registered = True, sc_activity = re_now env,
      sc_tunnels = ts, sc_tunnel_map = tunnel_map_of ts, sc_reverse = rr_reverse req, sc_headers = rr_headers req,
      sc_compress = rr_compress req, sc_p2p = rr_p2p req, sc_token = generateServerToken (re_random env),
      sc_mux = None, sc_quic = None, sc_signal = None, sc_cancelled = False, sc_attached = False,
      sc_reaped = False, sc_counted_out = False\<rparr>"

text \<open>The section under the lifecycle lock: \<open>Inl\<close> is the subdomain already in use, \<open>Inr\<close> the handle of
  the new registration.\<close>

definition admit :: "registration_env \<Rightarrow> string \<Rightarrow> registration_request \<Rightarrow> server \<Rightarrow> (string + handle) \<times> server" where
  "admit env clientID req s0 =
     (let s = replace_existing clientID s0 in
      case (if rr_tunnels req \<noteq> [] then assign_tunnels (sv_routes s) clientID (re_tunnel_uuid env) 0 (rr_tunnels req)
            else Inr [legacy_tunnel clientID]) of
        Inl name \<Rightarrow> (Inl name, s)
      | Inr ts \<Rightarrow>
          (Inr (length (sv_heap s)),
           s\<lparr>sv_heap := sv_heap s @ [new_client env clientID req ts],
             sv_clients := gm_put clientID (length (sv_heap s)) (sv_clients s),
             sv_routes := put_routes clientID (rr_headers req) ts (sv_routes s)\<rparr>))"

definition registration_response_of :: "control_config \<Rightarrow> registration_request \<Rightarrow> server_client \<Rightarrow> registration_response" where
  "registration_response_of cf req c =
     \<lparr>rs_transports = [''http2'', ''wss'', ''quic''], rs_udid = sc_udid c,
      rs_port = format_int (serverAdvertisedPort cf), rs_url_notls = cf_domain cf @ '':0'',
      rs_url_tls = (if rr_type req = ''tls'' then serverPublicURL cf (sc_udid c) (cf_domain cf) else []),
      rs_tunnels = (if rr_tunnels req \<noteq> []
        then map (\<lambda>t. \<lparr>ti_name = tn_name t, ti_target = tn_target t, ti_url = serverPublicURL cf (tn_name t) (cf_domain cf)\<rparr>)
               (sc_tunnels c)
        else []),
      rs_token = sc_token c, rs_multiplexed = (rr_type req = ''tls'' \<or> rr_type req = ''quic'')\<rparr>"

text \<open>What precedes the critical section: the decoded body (\<open>None\<close> when the JSON is invalid) or the
  legacy query parameters, the connection type, the identity, the peer information and the reverse
  forwards.\<close>

definition decode_registration :: "http_request \<Rightarrow> registration_request option \<Rightarrow> registration_request option" where
  "decode_registration r body =
     (if header_get (rq_header r) ''Content-Type'' = ''application/json'' then body
      else Some \<lparr>rr_type = header_get (rq_query r) ''connection_type'', rr_client = header_get (rq_query r) ''id'',
                 rr_tunnels = [], rr_reverse = [], rr_headers = [], rr_compress = False, rr_p2p = None\<rparr>)"

definition check_registration ::
  "control_config \<Rightarrow> control_principal option \<Rightarrow> registration_env \<Rightarrow> registration_request \<Rightarrow> status + (string \<times> registration_request)" where
  "check_registration cf who env req0 =
     (let req = (if rr_type req0 = [] then req0\<lparr>rr_type := ''tls''\<rparr> else req0) in
      if rr_type req \<noteq> ''tls'' \<and> rr_type req \<noteq> ''quic'' then Inl 400
      else
        (case requirePrincipalClient who (rr_client req) of
           Inl e \<Rightarrow> Inl e
         | Inr id0 \<Rightarrow>
             (let clientID = (if id0 = [] then re_client_uuid env else id0) in
              case bindRegistrationP2PIdentity clientID (rr_p2p req) of
                None \<Rightarrow> Inl 403
              | Some info \<Rightarrow>
                  (case validateReverseConfigs cf (rr_reverse req) of
                     Inl _ \<Rightarrow> Inl 403
                   | Inr reverse \<Rightarrow> Inr (clientID, req\<lparr>rr_p2p := info, rr_reverse := reverse\<rparr>)))))"

definition registerServerClientHandler ::
  "control_config \<Rightarrow> control_principal option \<Rightarrow> registration_env \<Rightarrow> http_request \<Rightarrow> registration_request option \<Rightarrow>
   server \<Rightarrow> (status + registration_response) \<times> server" where
  "registerServerClientHandler cf who env r body s =
     (case decode_registration r body of
        None \<Rightarrow> (Inl 400, s)
      | Some req0 \<Rightarrow>
          (case check_registration cf who env req0 of
             Inl e \<Rightarrow> (Inl e, s)
           | Inr (clientID, req) \<Rightarrow>
               (case admit env clientID req s of
                  (Inl name, s) \<Rightarrow> (Inl 409, s)
                | (Inr h, s) \<Rightarrow> (Inr (registration_response_of cf req (client_at s h)), s\<lparr>sv_active := sv_active s + 1\<rparr>))))"

section \<open>Saved state\<close>

record saved_client =
  sd_udid :: string
  sd_activity :: time
  sd_type :: string
  sd_registered :: bool

definition saveServerState :: "server \<Rightarrow> (string, saved_client) gomap" where
  "saveServerState s = map (\<lambda>(k, h). (k, let c = client_at s h in
     \<lparr>sd_udid = sc_udid c, sd_activity = sc_activity c, sd_type = sc_type c, sd_registered = sc_registered c\<rparr>)) (sv_clients s)"

definition restored_client :: "string \<Rightarrow> saved_client \<Rightarrow> server_client" where
  "restored_client k d =
     \<lparr>sc_key = k, sc_udid = sd_udid d, sc_type = sd_type d, sc_registered = sd_registered d, sc_activity = sd_activity d,
      sc_tunnels = [], sc_tunnel_map = [], sc_reverse = [], sc_headers = [], sc_compress = False, sc_p2p = None,
      sc_token = [], sc_mux = None, sc_quic = None, sc_signal = None, sc_cancelled = False, sc_attached = False,
      sc_reaped = False, sc_counted_out = False\<rparr>"

definition restore_one :: "server \<Rightarrow> string \<times> saved_client \<Rightarrow> server" where
  "restore_one s kd =
     (if sd_type (snd kd) = ''non-tls'' then s
      else s\<lparr>sv_heap := sv_heap s @ [restored_client (fst kd) (snd kd)],
             sv_clients := gm_put (fst kd) (length (sv_heap s)) (sv_clients s),
             sv_active := sv_active s + 1\<rparr>)"

definition empty_server :: server where
  "empty_server = \<lparr>sv_heap = [], sv_clients = [], sv_routes = [], sv_closed = [], sv_active = 0\<rparr>"

definition loadServerState :: "(string, saved_client) gomap \<Rightarrow> server" where
  "loadServerState saved = foldl restore_one empty_server saved"

section \<open>Resolving a public name\<close>

definition extractServerClientIDFromHost :: "string \<Rightarrow> string" where
  "extractServerClientIDFromHost host =
     (let parts = split_on (CHR ''.'') host in if length parts < 2 then [] else hd parts)"

definition resolveServerTunnel :: "server \<Rightarrow> string \<Rightarrow> handle option \<times> tunnel_route option \<times> string" where
  "resolveServerTunnel s subdomain =
     (case gm_get (sv_routes s) subdomain of
        Some route \<Rightarrow> (gm_get (sv_clients s) (tr_client route), Some route, tr_name route)
      | None \<Rightarrow> (gm_get (sv_clients s) subdomain, None, subdomain))"

end
