(* ===== verification/Server_Lifecycle.thy ===== *)
theory Server_Lifecycle
  imports Server_Registry
begin

text \<open>
  The goroutines of the server that share registrations, interleaved at the granularity of the
  code's locks, and the invariant of the registries over every reachable state: routes belong to
  registered clients and carry their tunnels' policy, a live registration is the registered one, a
  teardown that comes late does not touch its successor.
\<close>

section \<open>Goroutines\<close>

datatype server_task =
    Reaper handle            \<comment> \<open>\<^verbatim>\<open>reapUnattachedRegistration\<close>\<close>
  | Monitor handle           \<comment> \<open>\<^verbatim>\<open>monitorServerClientActivity\<close>\<close>
  | MuxClaim handle link     \<comment> \<open>\<^verbatim>\<open>serveServerMuxCarrier\<close>, before its claim\<close>
  | MuxServing handle link
  | MuxForget handle
  | MuxCancel handle
  | QuicClaim handle link    \<comment> \<open>\<^verbatim>\<open>handleQUICServerConnection\<close>, before its claim\<close>
  | QuicServing handle link
  | QuicEnding handle link bool
  | CloseForget handle       \<comment> \<open>\<^verbatim>\<open>closeServerClientConnections\<close>, step by step\<close>
  | CloseMux handle
  | CloseCancel handle
  | CloseCount handle
  | CountUp                  \<comment> \<open>the last step of a successful registration\<close>

definition close_displaced :: "link option \<Rightarrow> server \<Rightarrow> server" where
  "close_displaced old s = (case old of Some l \<Rightarrow> s\<lparr>sv_closed := l # sv_closed s\<rparr> | None \<Rightarrow> s)"

text \<open>One step of a goroutine: what becomes of it, and the server's new state.\<close>

inductive goroutine :: "server_task \<Rightarrow> server \<Rightarrow> server_task list \<Rightarrow> server \<Rightarrow> bool" where
  reaper_done: "sc_cancelled (client_at s h) \<Longrightarrow> goroutine (Reaper h) s [] s"
| reaper_fires: "reapUnattachedRegistration h s = (reap, s') \<Longrightarrow>
    goroutine (Reaper h) s (if reap then [CloseForget h] else []) s'"
| monitor_done: "sc_cancelled (client_at s h) \<Longrightarrow> goroutine (Monitor h) s [] s"
| monitor_tick: "monitorServerClientActivity now h s = (gave_up, s') \<Longrightarrow>
    goroutine (Monitor h) s (if gave_up then [CloseForget h] else [Monitor h]) s'"
| mux_claimed: "claimServerAttach h (publish_mux l) s = (Some old, s') \<Longrightarrow>
    goroutine (MuxClaim h l) s [MuxServing h l] (close_displaced old s')"
| mux_expired: "claimServerAttach h (publish_mux l) s = (None, s') \<Longrightarrow> goroutine (MuxClaim h l) s [] s'"
| mux_ended: "l \<in> set (sv_closed s) \<Longrightarrow> releaseServerAttach h (unpublish_mux l) s = (current, s') \<Longrightarrow>
    goroutine (MuxServing h l) s (if current then [MuxForget h] else []) s'"
| mux_forget: "forgetServerClient h s = (forgotten, s') \<Longrightarrow>
    goroutine (MuxForget h) s (if forgotten then [MuxCancel h] else [CloseCount h]) s'"
| mux_cancel: "goroutine (MuxCancel h) s [CloseCount h] (cancel_ctx h s)"
| quic_claimed: "claimServerAttach h (publish_quic l) s = (Some old, s') \<Longrightarrow>
    goroutine (QuicClaim h l) s [QuicServing h l] (close_displaced old s')"
| quic_expired: "claimServerAttach h (publish_quic l) s = (None, s') \<Longrightarrow> goroutine (QuicClaim h l) s [] s'"
| quic_ended: "goroutine (QuicServing h l) s [QuicEnding h l peerGone] s"
| quic_release: "releaseServerAttach h (unpublish_quic l) s = (current, s') \<Longrightarrow>
    goroutine (QuicEnding h l peerGone) s (if peerGone \<and> current then [CloseForget h] else []) s'"
| close_forget: "goroutine (CloseForget h) s [CloseMux h] (snd (forgetServerClient h s))"
| close_mux: "goroutine (CloseMux h) s [CloseCancel h] (close_mux h s)"
| close_cancel: "goroutine (CloseCancel h) s [CloseCount h] (cancel_ctx h s)"
| close_count: "goroutine (CloseCount h) s [] (count_out h s)"
| count_up: "goroutine CountUp s [] (s\<lparr>sv_active := sv_active s + 1\<rparr>)"

inductive_cases goroutineE: "goroutine t s ts s'"

text \<open>What the random sources return: \<^verbatim>\<open>uuid.New().String()\<close> has 36 characters, the token 32 bytes.\<close>

definition env_ok :: "registration_env \<Rightarrow> bool" where
  "env_ok env \<longleftrightarrow> length (re_client_uuid env) = 36 \<and> (\<forall>i. length (re_tunnel_uuid env i) = 36) \<and> length (re_random env) = 32"

type_synonym system = "server \<times> server_task list"

inductive system_step :: "system \<Rightarrow> system \<Rightarrow> bool" where
  sys_goroutine: "goroutine t s ts s' \<Longrightarrow> system_step (s, as @ t # bs) (s', as @ ts @ bs)"
| sys_register: "env_ok env \<Longrightarrow> check_registration cf who env req0 = Inr (clientID, req) \<Longrightarrow>
    admit env clientID req s = (Inr h, s') \<Longrightarrow> system_step (s, ts) (s', ts @ [Monitor h, Reaper h, CountUp])"
| sys_refused: "env_ok env \<Longrightarrow> check_registration cf who env req0 = Inr (clientID, req) \<Longrightarrow>
    admit env clientID req s = (Inl name, s') \<Longrightarrow> system_step (s, ts) (s', ts)"
| sys_carrier: "gm_get (sv_clients s) clientID = Some h \<Longrightarrow> validSessionToken (client_at s h) token \<Longrightarrow>
    system_step (s, ts) (s, ts @ [MuxClaim h l])"
| sys_quic: "gm_get (sv_clients s) clientID = Some h \<Longrightarrow> validSessionToken (client_at s h) token \<Longrightarrow>
    system_step (s, ts) (s, ts @ [QuicClaim h l])"
| sys_link_closed: "system_step (s, ts) (s\<lparr>sv_closed := l # sv_closed s\<rparr>, ts)"
| sys_activity: "gm_get (sv_clients s) clientID = Some h \<Longrightarrow>
    system_step (s, ts) (modify h (\<lambda>c. c\<lparr>sc_activity := now\<rparr>) s, ts)"
| sys_signal: "gm_get (sv_clients s) clientID = Some h \<Longrightarrow>
    system_step (s, ts) (modify h (\<lambda>c. c\<lparr>sc_signal := conn\<rparr>) s, ts)"
| sys_shutdown: "gm_get (sv_clients s) clientID = Some h \<Longrightarrow> system_step (s, ts) (cancel_ctx h s, ts)"

definition initial_tasks :: "server \<Rightarrow> server_task list" where
  "initial_tasks s = concat (map (\<lambda>h. [Reaper h, Monitor h]) [0..<length (sv_heap s)])"

inductive reachable :: "system \<Rightarrow> bool" where
  started: "gm_ok saved \<Longrightarrow> reachable (loadServerState saved, initial_tasks (loadServerState saved))"
| step: "reachable x \<Longrightarrow> system_step x y \<Longrightarrow> reachable y"

section \<open>The registries\<close>

lemma DeleteOwned_get:
  "gm_get (snd (DeleteOwned name cid m)) n =
     (if n = name \<and> (\<exists>r. gm_get m n = Some r \<and> tr_client r = cid) then None else gm_get m n)"
  by (auto simp: DeleteOwned_def split: option.splits)

lemma DeleteOwned_ok [simp]: "gm_ok m \<Longrightarrow> gm_ok (snd (DeleteOwned name cid m))"
  by (auto simp: DeleteOwned_def split: option.splits)

lemma drop_routes_simps [simp]:
  "drop_routes cid [] m = m" "drop_routes cid (t # ts) m = drop_routes cid ts (snd (DeleteOwned (tn_name t) cid m))"
  by (simp_all add: drop_routes_def)

lemma drop_routes_ok [simp]: "gm_ok m \<Longrightarrow> gm_ok (drop_routes cid ts m)"
  by (induction ts arbitrary: m) auto

lemma drop_routes_get:
  "gm_get (drop_routes cid ts m) n =
     (if n \<in> tn_name ` set ts \<and> (\<exists>r. gm_get m n = Some r \<and> tr_client r = cid) then None else gm_get m n)"
  by (induction ts arbitrary: m) (auto simp: DeleteOwned_get)

lemma put_routes_simps [simp]:
  "put_routes cid hs [] m = m" "put_routes cid hs (t # ts) m = put_routes cid hs ts (gm_put (tn_name t) (route_of cid hs t) m)"
  by (simp_all add: put_routes_def)

lemma put_routes_ok [simp]: "gm_ok m \<Longrightarrow> gm_ok (put_routes cid hs ts m)"
  by (induction ts arbitrary: m) auto

lemma put_routes_other: "n \<notin> tn_name ` set ts \<Longrightarrow> gm_get (put_routes cid hs ts m) n = gm_get m n"
  by (induction ts arbitrary: m) auto

lemma put_routes_own:
  "n \<in> tn_name ` set ts \<Longrightarrow> \<exists>t \<in> set ts. tn_name t = n \<and> gm_get (put_routes cid hs ts m) n = Some (route_of cid hs t)"
proof (induction ts arbitrary: m)
  case (Cons t ts)
  then show ?case by (cases "n \<in> tn_name ` set ts") (auto simp: put_routes_other)
qed simp

lemma assign_tunnels_free:
  "assign_tunnels m cid uuid i ts = Inr out \<Longrightarrow> t \<in> set out \<Longrightarrow>
     (\<forall>r. gm_get m (tn_name t) = Some r \<longrightarrow> tr_client r = cid)"
  by (induction ts arbitrary: i out) (auto simp: Let_def split: if_splits sum.splits option.splits)

lemma assign_tunnels_named:
  "assign_tunnels m cid uuid i ts = Inr out \<Longrightarrow> \<forall>i. length (uuid i) = 36 \<Longrightarrow>
     length out = length ts \<and> (\<forall>t \<in> set out. tn_name t \<noteq> [])"
proof (induction ts arbitrary: i out)
  case (Cons t ts)
  then show ?case by (auto simp: Let_def split: if_splits sum.splits dest!: arg_cong [of _ _ length])
qed simp

lemma tunnel_map_of_snoc [simp]: "tunnel_map_of (ts @ [t]) = gm_put (tn_name t) (tn_target t) (tunnel_map_of ts)"
  by (simp add: tunnel_map_of_def)

lemma tunnel_map_keys: "gm_get (tunnel_map_of ts) n \<noteq> None \<longleftrightarrow> n \<in> tn_name ` set ts"
  by (induction ts rule: rev_induct) (auto simp: tunnel_map_of_def)

section \<open>The invariant\<close>

definition expired :: "server_client \<Rightarrow> bool" where "expired c \<longleftrightarrow> sc_cancelled c \<or> sc_reaped c"

text \<open>A client restored from the state file has no credential, no tunnels and never a connection; a
  registered one has a credential, named tunnels and their map.\<close>

definition client_ok :: "server_client \<Rightarrow> bool" where
  "client_ok c \<longleftrightarrow>
     (if sc_token c = [] then sc_tunnels c = [] \<and> sc_mux c = None \<and> sc_quic c = None
      else sc_tunnels c \<noteq> [] \<and> (\<forall>t \<in> set (sc_tunnels c). tn_name t \<noteq> []) \<and> sc_tunnel_map c = tunnel_map_of (sc_tunnels c)) \<and>
     (sc_mux c \<noteq> None \<or> sc_quic c \<noteq> None \<longrightarrow> sc_attached c) \<and>
     (\<forall>info. sc_p2p c = Some info \<longrightarrow> pi_peer info = sc_key c)"

definition registry_ok :: "server \<Rightarrow> bool" where
  "registry_ok s \<longleftrightarrow> gm_ok (sv_clients s) \<and> gm_ok (sv_routes s) \<and>
     (\<forall>k h. gm_get (sv_clients s) k = Some h \<longrightarrow> h < length (sv_heap s) \<and> sc_key (client_at s h) = k) \<and>
     (\<forall>h < length (sv_heap s). client_ok (client_at s h))"

definition route_justified :: "server \<Rightarrow> string \<Rightarrow> tunnel_route \<Rightarrow> bool" where
  "route_justified s n r \<longleftrightarrow>
     (\<exists>h. gm_get (sv_clients s) (tr_client r) = Some h \<and>
          (\<exists>t \<in> set (sc_tunnels (client_at s h)). tn_name t = n \<and> r = route_of (tr_client r) (sc_headers (client_at s h)) t))"

definition routes_ok :: "server \<Rightarrow> bool" where
  "routes_ok s \<longleftrightarrow> (\<forall>n r. gm_get (sv_routes s) n = Some r \<longrightarrow> route_justified s n r)"

definition live_ok :: "server \<Rightarrow> bool" where
  "live_ok s \<longleftrightarrow> (\<forall>h < length (sv_heap s). \<not> expired (client_at s h) \<longrightarrow> gm_get (sv_clients s) (sc_key (client_at s h)) = Some h)"

text \<open>A client that has a tunnel named like itself holds that name's route.\<close>

definition self_ok :: "server \<Rightarrow> bool" where
  "self_ok s \<longleftrightarrow> (\<forall>n h. gm_get (sv_clients s) n = Some h \<and> n \<in> tn_name ` set (sc_tunnels (client_at s h)) \<longrightarrow>
     (\<exists>r. gm_get (sv_routes s) n = Some r \<and> tr_client r = n))"

definition server_inv :: "server \<Rightarrow> bool" where
  "server_inv s \<longleftrightarrow> registry_ok s \<and> routes_ok s \<and> live_ok s \<and> self_ok s"

text \<open>What a change of a client object may do: its registration data stay, expiry is for good, and an expired
  object gets no connection it did not have.\<close>

definition evolves :: "server_client \<Rightarrow> server_client \<Rightarrow> bool" where
  "evolves c c' \<longleftrightarrow> sc_key c' = sc_key c \<and> sc_tunnels c' = sc_tunnels c \<and> sc_headers c' = sc_headers c \<and>
     sc_token c' = sc_token c \<and> sc_tunnel_map c' = sc_tunnel_map c \<and> (expired c \<longrightarrow> expired c') \<and> (client_ok c \<longrightarrow> client_ok c') \<and>
     (expired c \<longrightarrow> (sc_mux c' = None \<or> sc_mux c' = sc_mux c) \<and> (sc_quic c' = None \<or> sc_quic c' = sc_quic c))"

lemma evolves_refl [simp, intro]: "evolves c c"
  by (simp add: evolves_def)

definition same_registries :: "server \<Rightarrow> server \<Rightarrow> bool" where
  "same_registries s s' \<longleftrightarrow> sv_clients s' = sv_clients s \<and> sv_routes s' = sv_routes s \<and>
     length (sv_heap s') = length (sv_heap s) \<and> (\<forall>h < length (sv_heap s). evolves (client_at s h) (client_at s' h))"

lemma same_registries_inv:
  assumes same: "same_registries s s'" and inv: "server_inv s"
  shows "server_inv s'"
proof -
  note eqs = same [unfolded same_registries_def]
  have ev: "sc_key (client_at s' h) = sc_key (client_at s h)" "sc_tunnels (client_at s' h) = sc_tunnels (client_at s h)"
    "sc_headers (client_at s' h) = sc_headers (client_at s h)" "expired (client_at s h) \<Longrightarrow> expired (client_at s' h)"
    "client_ok (client_at s h) \<Longrightarrow> client_ok (client_at s' h)" if "h < length (sv_heap s)" for h
    using eqs that by (auto simp: evolves_def)
  from inv have reg: "registry_ok s" and ro: "routes_ok s" and li: "live_ok s" and se: "self_ok s" by (auto simp: server_inv_def)
  have dom: "h < length (sv_heap s)" if "gm_get (sv_clients s) k = Some h" for k h using reg that by (auto simp: registry_ok_def)
  have "registry_ok s'" using reg eqs ev by (simp add: registry_ok_def)
  moreover have "routes_ok s'" unfolding routes_ok_def route_justified_def
  proof (intro allI impI)
    fix n r assume "gm_get (sv_routes s') n = Some r"
    then have "route_justified s n r" using ro eqs by (simp add: routes_ok_def)
    then obtain h t where h: "gm_get (sv_clients s) (tr_client r) = Some h" and t: "t \<in> set (sc_tunnels (client_at s h))"
      "tn_name t = n" "r = route_of (tr_client r) (sc_headers (client_at s h)) t"
      unfolding route_justified_def by blast
    with ev(2,3) [OF dom [OF h]] eqs
    show "\<exists>h. gm_get (sv_clients s') (tr_client r) = Some h \<and>
        (\<exists>t \<in> set (sc_tunnels (client_at s' h)). tn_name t = n \<and> r = route_of (tr_client r) (sc_headers (client_at s' h)) t)"
      by auto
  qed
  moreover have "live_ok s'" using li eqs ev(1,4) by (auto simp: live_ok_def)
  moreover have "self_ok s'" using se eqs ev(2) dom by (auto simp: self_ok_def)
  ultimately show ?thesis by (simp add: server_inv_def)
qed

lemma modify_same:
  "evolves (client_at s h) (f (client_at s h)) \<Longrightarrow> same_registries s (modify h f s)"
  by (cases "h < length (sv_heap s)") (auto simp: same_registries_def modify_def nth_list_update list_update_beyond)

lemma same_refl [simp, intro]: "same_registries s s"
  by (simp add: same_registries_def)

lemma same_closed [simp]: "same_registries s (s'\<lparr>sv_closed := ls\<rparr>) = same_registries s s'"
  "same_registries s (s'\<lparr>sv_active := n\<rparr>) = same_registries s s'"
  by (simp_all add: same_registries_def)

lemma close_displaced_same [simp]: "same_registries s (close_displaced old s') = same_registries s s'"
  by (simp add: close_displaced_def split: option.splits)

lemma count_out_same [simp]: "same_registries s (count_out h s)"
  by (auto simp: count_out_def evolves_def expired_def client_ok_def intro!: modify_same)

lemma cancel_same [simp]: "same_registries s (cancel_ctx h s)"
  unfolding cancel_ctx_def by (auto simp: evolves_def expired_def client_ok_def intro!: modify_same)

lemma close_mux_same [simp]: "same_registries s (close_mux h s)"
  by (auto simp: close_mux_def evolves_def expired_def client_ok_def intro!: modify_same split: option.splits)

lemma reap_same: "same_registries s (snd (reapUnattachedRegistration h s))"
  by (auto simp: reapUnattachedRegistration_def Let_def evolves_def expired_def client_ok_def intro!: modify_same)

lemma monitor_same: "same_registries s (snd (monitorServerClientActivity now h s))"
  by (auto simp: monitorServerClientActivity_def Let_def)

lemma release_same:
  "same_registries s (snd (releaseServerAttach h (unpublish_mux l) s))"
  "same_registries s (snd (releaseServerAttach h (unpublish_quic l) s))"
  by (auto simp: releaseServerAttach_def unpublish_mux_def unpublish_quic_def Let_def evolves_def expired_def client_ok_def
      intro!: modify_same)

lemma claim_same:
  "sc_token (client_at s h) \<noteq> [] \<Longrightarrow> same_registries s (snd (claimServerAttach h (publish_mux l) s))"
  "sc_token (client_at s h) \<noteq> [] \<Longrightarrow> same_registries s (snd (claimServerAttach h (publish_quic l) s))"
  by (auto simp: claimServerAttach_def publish_mux_def publish_quic_def Let_def evolves_def expired_def client_ok_def
      intro!: modify_same split: option.splits)

section \<open>Removing and adding registrations\<close>

text \<open>The registries with one client and its routes taken out, the common core of
  \<^verbatim>\<open>forgetServerClient\<close> and of a re-registration.\<close>

definition unregister :: "string \<Rightarrow> handle \<Rightarrow> server \<Rightarrow> server" where
  "unregister k h s = s\<lparr>sv_routes := drop_routes k (sc_tunnels (client_at s h)) (sv_routes s), sv_clients := gm_del k (sv_clients s)\<rparr>"

lemma unregister_routes:
  assumes "server_inv s" "gm_get (sv_clients s) k = Some h"
  shows "gm_get (sv_routes (unregister k h s)) n = Some r \<longleftrightarrow> gm_get (sv_routes s) n = Some r \<and> tr_client r \<noteq> k"
proof -
  have "n \<in> tn_name ` set (sc_tunnels (client_at s h))" if "gm_get (sv_routes s) n = Some r" "tr_client r = k" for r
  proof -
    from assms(1) that(1) have "route_justified s n r" by (simp add: server_inv_def routes_ok_def)
    with assms(2) that(2) show ?thesis unfolding route_justified_def by auto
  qed
  then show ?thesis by (auto simp: unregister_def drop_routes_get)
qed

lemma unregister_inv:
  assumes inv: "server_inv s" and h: "gm_get (sv_clients s) k = Some h" and ex: "expired (client_at s h)"
  shows "server_inv (unregister k h s)"
proof -
  note routes = unregister_routes [OF inv h]
  from inv have reg: "registry_ok s" and ro: "routes_ok s" and li: "live_ok s" and se: "self_ok s" by (auto simp: server_inv_def)
  have "registry_ok (unregister k h s)" using reg by (simp add: registry_ok_def unregister_def)
  moreover have "routes_ok (unregister k h s)"
    using ro routes by (auto simp: routes_ok_def route_justified_def) (auto simp: unregister_def)
  moreover have "live_ok (unregister k h s)"
    using li h ex by (auto simp: live_ok_def unregister_def)
  moreover have "self_ok (unregister k h s)"
    unfolding self_ok_def routes
  proof (intro allI impI)
    fix n j
    assume "gm_get (sv_clients (unregister k h s)) n = Some j \<and> n \<in> tn_name ` set (sc_tunnels (client_at (unregister k h s) j))"
    then have "n \<noteq> k" and "gm_get (sv_clients s) n = Some j \<and> n \<in> tn_name ` set (sc_tunnels (client_at s j))"
      by (auto simp: unregister_def split: if_splits)
    with se obtain r where "gm_get (sv_routes s) n = Some r" "tr_client r = n" unfolding self_ok_def by blast
    with \<open>n \<noteq> k\<close> show "\<exists>r. (gm_get (sv_routes s) n = Some r \<and> tr_client r \<noteq> k) \<and> tr_client r = n" by blast
  qed
  ultimately show ?thesis by (simp add: server_inv_def)
qed

lemma forget_cases:
  "forgetServerClient h s = (False, s) \<or>
   (gm_get (sv_clients s) (sc_key (client_at s h)) = Some h \<and>
    forgetServerClient h s = (True, unregister (sc_key (client_at s h)) h s))"
  by (auto simp: forgetServerClient_def unregister_def Let_def split: option.splits)

lemma forget_inv: "server_inv s \<Longrightarrow> expired (client_at s h) \<Longrightarrow> server_inv (snd (forgetServerClient h s))"
  using forget_cases [of h s] unregister_inv by auto

lemma replace_existing_eq:
  assumes h: "gm_get (sv_clients s) k = Some h" and len: "h < length (sv_heap s)"
  shows "\<exists>s'. same_registries s s' \<and> sc_cancelled (client_at s' h) \<and> replace_existing k s = unregister k h s'"
proof -
  let ?s = "count_out h (close_displaced (sc_mux (client_at s h)) (cancel_ctx h s))"
  have same: "same_registries s ?s"
    using len by (cases "sc_mux (client_at s h)")
      (auto simp: count_out_def cancel_ctx_def close_displaced_def modify_def same_registries_def evolves_def expired_def
        client_ok_def nth_list_update)
  moreover have "sc_cancelled (client_at ?s h)"
    using len by (cases "sc_mux (client_at s h)")
      (auto simp: count_out_def cancel_ctx_def close_displaced_def modify_def)
  moreover have "replace_existing k s = unregister k h ?s"
    using h len by (cases "sc_mux (client_at s h)")
      (auto simp: replace_existing_def unregister_def count_out_def cancel_ctx_def close_displaced_def modify_def Let_def
        intro!: server.equality)
  ultimately show ?thesis by blast
qed

lemma replace_existing_inv:
  assumes inv: "server_inv s"
  shows "server_inv (replace_existing k s) \<and>
    (\<forall>j. gm_get (sv_clients (replace_existing k s)) j = (if j = k then None else gm_get (sv_clients s) j)) \<and>
    (\<forall>n r. gm_get (sv_routes (replace_existing k s)) n = Some r \<longleftrightarrow> gm_get (sv_routes s) n = Some r \<and> tr_client r \<noteq> k) \<and>
    (\<forall>h. gm_get (sv_clients s) k = Some h \<longrightarrow>
       h < length (sv_heap (replace_existing k s)) \<and> sc_cancelled (client_at (replace_existing k s) h))"
proof (cases "gm_get (sv_clients s) k")
  case None
  then have "replace_existing k s = s" by (simp add: replace_existing_def)
  moreover have "tr_client r \<noteq> k" if "gm_get (sv_routes s) n = Some r" for n r
  proof -
    from inv that have "route_justified s n r" by (simp add: server_inv_def routes_ok_def)
    with None show ?thesis by (auto simp: route_justified_def)
  qed
  ultimately show ?thesis using inv None by auto
next
  case (Some h)
  with inv have len: "h < length (sv_heap s)" by (auto simp: server_inv_def registry_ok_def)
  from replace_existing_eq [OF Some this] obtain s' where s': "same_registries s s'" "sc_cancelled (client_at s' h)"
    "replace_existing k s = unregister k h s'" by blast
  from same_registries_inv [OF s'(1) inv] have inv': "server_inv s'" .
  from s'(1) Some have h': "gm_get (sv_clients s') k = Some h" by (simp add: same_registries_def)
  from s'(2) have ex: "expired (client_at s' h)" by (simp add: expired_def)
  show ?thesis unfolding s'(3)
  proof (intro conjI allI impI)
    show "server_inv (unregister k h s')" by (rule unregister_inv [OF inv' h' ex])
    show "gm_get (sv_routes (unregister k h s')) n = Some r \<longleftrightarrow> gm_get (sv_routes s) n = Some r \<and> tr_client r \<noteq> k" for n r
      using unregister_routes [OF inv' h', of n r] s'(1) by (simp add: same_registries_def)
  qed (use s' Some len in \<open>auto simp: unregister_def same_registries_def\<close>)
qed

text \<open>What the admission adds: the new object, its ID and its routes.\<close>

definition enroll :: "string \<Rightarrow> server_client \<Rightarrow> server \<Rightarrow> server" where
  "enroll k c s = s\<lparr>sv_heap := sv_heap s @ [c], sv_clients := gm_put k (length (sv_heap s)) (sv_clients s),
     sv_routes := put_routes k (sc_headers c) (sc_tunnels c) (sv_routes s)\<rparr>"

lemma enroll_get [simp]:
  "h < length (sv_heap s) \<Longrightarrow> client_at (enroll k c s) h = client_at s h"
  "client_at (enroll k c s) (length (sv_heap s)) = c" "length (sv_heap (enroll k c s)) = Suc (length (sv_heap s))"
  "gm_get (sv_clients (enroll k c s)) j = (if j = k then Some (length (sv_heap s)) else gm_get (sv_clients s) j)"
  by (simp_all add: enroll_def nth_append)

lemma enroll_inv:
  assumes inv: "server_inv s" and new: "gm_get (sv_clients s) k = None" and key: "sc_key c = k" and ok: "client_ok c"
    and free: "\<And>n r. gm_get (sv_routes s) n = Some r \<Longrightarrow> tr_client r \<noteq> k"
    and avail: "\<And>t r. t \<in> set (sc_tunnels c) \<Longrightarrow> gm_get (sv_routes s) (tn_name t) = Some r \<Longrightarrow> tn_name t = k"
  shows "server_inv (enroll k c s)"
proof -
  let ?s = "enroll k c s"
  from inv have reg: "registry_ok s" and ro: "routes_ok s" and li: "live_ok s" and se: "self_ok s" by (auto simp: server_inv_def)
  have dom: "h < length (sv_heap s)" if "gm_get (sv_clients s) j = Some h" for j h using reg that by (auto simp: registry_ok_def)
  have routes: "gm_get (sv_routes ?s) n = gm_get (sv_routes s) n" if "n \<notin> tn_name ` set (sc_tunnels c)" for n
    using that by (simp add: enroll_def put_routes_other)
  have own: "\<exists>t \<in> set (sc_tunnels c). tn_name t = n \<and> gm_get (sv_routes ?s) n = Some (route_of k (sc_headers c) t)"
    if "n \<in> tn_name ` set (sc_tunnels c)" for n
    using put_routes_own [OF that] by (simp add: enroll_def)
  have "registry_ok ?s" using reg key ok dom
    by (auto simp: registry_ok_def less_Suc_eq) (auto simp: enroll_def)
  moreover have "routes_ok ?s" unfolding routes_ok_def
  proof (intro allI impI)
    fix n r assume r: "gm_get (sv_routes ?s) n = Some r"
    show "route_justified ?s n r"
    proof (cases "n \<in> tn_name ` set (sc_tunnels c)")
      case True
      from own [OF this] r show ?thesis by (auto simp: route_justified_def route_of_def)
    next
      case False
      with r routes have old: "gm_get (sv_routes s) n = Some r" by simp
      with ro have "route_justified s n r" by (simp add: routes_ok_def)
      then obtain h where h: "gm_get (sv_clients s) (tr_client r) = Some h"
        "\<exists>t \<in> set (sc_tunnels (client_at s h)). tn_name t = n \<and> r = route_of (tr_client r) (sc_headers (client_at s h)) t"
        unfolding route_justified_def by blast
      then show ?thesis unfolding route_justified_def using free [OF old] dom [OF h(1)] by (intro exI [of _ h]) simp
    qed
  qed
  moreover have "live_ok ?s" using li key new by (auto simp: live_ok_def less_Suc_eq)
  moreover have "self_ok ?s" unfolding self_ok_def
  proof (intro allI impI)
    fix n h assume a: "gm_get (sv_clients ?s) n = Some h \<and> n \<in> tn_name ` set (sc_tunnels (client_at ?s h))"
    show "\<exists>r. gm_get (sv_routes ?s) n = Some r \<and> tr_client r = n"
    proof (cases "n = k")
      case True
      with a own [of k] show ?thesis by (auto simp: route_of_def)
    next
      case False
      with a have n: "gm_get (sv_clients s) n = Some h" by simp
      with a dom have "n \<in> tn_name ` set (sc_tunnels (client_at s h))" by simp
      with n se obtain r where r: "gm_get (sv_routes s) n = Some r" "tr_client r = n" unfolding self_ok_def by blast
      have "n \<notin> tn_name ` set (sc_tunnels c)" using avail r(1) False by blast
      with r routes show ?thesis by auto
    qed
  qed
  ultimately show ?thesis by (simp add: server_inv_def)
qed

lemma hex_byte_nonempty [simp]: "hex_byte b \<noteq> []"
  by (simp add: hex_byte_def)

lemma generateServerToken_nonempty: "length random = 32 \<Longrightarrow> generateServerToken random \<noteq> []"
  by (cases random) (auto simp: generateServerToken_def)

lemma check_registration_named:
  "env_ok env \<Longrightarrow> check_registration cf who env req0 = Inr (clientID, req) \<Longrightarrow> clientID \<noteq> []"
  by (auto simp: check_registration_def env_ok_def Let_def split: if_splits sum.splits option.splits)

definition p2p_bound :: "string \<Rightarrow> registration_request \<Rightarrow> bool" where
  "p2p_bound k req \<longleftrightarrow> (\<forall>info. rr_p2p req = Some info \<longrightarrow> pi_peer info = k)"

lemma check_registration_bound: "check_registration cf who env req0 = Inr (clientID, req) \<Longrightarrow> p2p_bound clientID req"
  by (auto simp: check_registration_def p2p_bound_def bindRegistrationP2PIdentity_def Let_def
      split: if_splits sum.splits option.splits)

text \<open>A successful admission is a re-registration's clean-up followed by an enrolment; a refused one is
  the clean-up alone.\<close>

lemma admit_cases:
  assumes "env_ok env" "k \<noteq> []"
  shows "(\<exists>name. admit env k req s = (Inl name, replace_existing k s)) \<or>
    (\<exists>ts. admit env k req s = (Inr (length (sv_heap (replace_existing k s))), enroll k (new_client env k req ts) (replace_existing k s)) \<and>
       ts \<noteq> [] \<and> (\<forall>t \<in> set ts. tn_name t \<noteq> []) \<and>
       (\<forall>t r. t \<in> set ts \<longrightarrow> gm_get (sv_routes (replace_existing k s)) (tn_name t) = Some r \<longrightarrow> tn_name t = k \<or> tr_client r = k))"
proof (cases "rr_tunnels req = []")
  case True
  with assms show ?thesis
    by (intro disjI2 exI [of _ "[legacy_tunnel k]"]) (simp add: admit_def Let_def enroll_def new_client_def legacy_tunnel_def)
next
  case False
  let ?a = "assign_tunnels (sv_routes (replace_existing k s)) k (re_tunnel_uuid env) 0 (rr_tunnels req)"
  show ?thesis
  proof (cases ?a)
    case (Inl name)
    with False show ?thesis by (simp add: admit_def Let_def)
  next
    case (Inr ts)
    have "length ts = length (rr_tunnels req)" "\<forall>t \<in> set ts. tn_name t \<noteq> []"
      using assign_tunnels_named [OF Inr] assms by (auto simp: env_ok_def)
    moreover have "tr_client r = k" if "t \<in> set ts" "gm_get (sv_routes (replace_existing k s)) (tn_name t) = Some r" for t r
      using assign_tunnels_free [OF Inr that(1)] that(2) by blast
    ultimately show ?thesis using False Inr by (auto simp: admit_def Let_def enroll_def new_client_def)
  qed
qed

lemma admit_inv:
  assumes inv: "server_inv s" and env: "env_ok env" and k: "k \<noteq> []" and peer: "p2p_bound k req"
  shows "server_inv (snd (admit env k req s))"
proof -
  note rep = replace_existing_inv [OF inv, of k]
  from admit_cases [OF env k, of req s] show ?thesis
  proof (elim disjE exE conjE)
    fix name assume "admit env k req s = (Inl name, replace_existing k s)"
    with rep show ?thesis by simp
  next
    fix ts
    assume eq: "admit env k req s = (Inr (length (sv_heap (replace_existing k s))), enroll k (new_client env k req ts) (replace_existing k s))"
      and ts: "ts \<noteq> []" "\<forall>t \<in> set ts. tn_name t \<noteq> []"
      and free: "\<forall>t r. t \<in> set ts \<longrightarrow> gm_get (sv_routes (replace_existing k s)) (tn_name t) = Some r \<longrightarrow> tn_name t = k \<or> tr_client r = k"
    have "server_inv (enroll k (new_client env k req ts) (replace_existing k s))"
    proof (rule enroll_inv)
      show "client_ok (new_client env k req ts)"
        using ts env peer generateServerToken_nonempty by (simp add: client_ok_def new_client_def env_ok_def p2p_bound_def)
      show "tn_name t = k" if "t \<in> set (sc_tunnels (new_client env k req ts))"
        "gm_get (sv_routes (replace_existing k s)) (tn_name t) = Some r" for t r
        using that free rep by (auto simp: new_client_def)
    qed (use rep in \<open>auto simp: new_client_def\<close>)
    with eq show ?thesis by simp
  qed
qed

section \<open>Every reachable state\<close>

fun task_ok :: "server \<Rightarrow> server_task \<Rightarrow> bool" where
  "task_ok s (MuxClaim h l) \<longleftrightarrow> h < length (sv_heap s) \<and> sc_token (client_at s h) \<noteq> []"
| "task_ok s (QuicClaim h l) \<longleftrightarrow> h < length (sv_heap s) \<and> sc_token (client_at s h) \<noteq> []"
| "task_ok s (Reaper h) \<longleftrightarrow> h < length (sv_heap s)"
| "task_ok s (Monitor h) \<longleftrightarrow> h < length (sv_heap s)"
| "task_ok s (MuxServing h l) \<longleftrightarrow> h < length (sv_heap s)"
| "task_ok s (QuicServing h l) \<longleftrightarrow> h < length (sv_heap s)"
| "task_ok s (QuicEnding h l g) \<longleftrightarrow> h < length (sv_heap s)"
| "task_ok s (MuxForget h) \<longleftrightarrow> h < length (sv_heap s) \<and> expired (client_at s h)"
| "task_ok s (MuxCancel h) \<longleftrightarrow> h < length (sv_heap s) \<and> expired (client_at s h)"
| "task_ok s (CloseForget h) \<longleftrightarrow> h < length (sv_heap s) \<and> expired (client_at s h)"
| "task_ok s (CloseMux h) \<longleftrightarrow> h < length (sv_heap s) \<and> expired (client_at s h)"
| "task_ok s (CloseCancel h) \<longleftrightarrow> h < length (sv_heap s) \<and> expired (client_at s h)"
| "task_ok s (CloseCount h) \<longleftrightarrow> h < length (sv_heap s) \<and> expired (client_at s h)"
| "task_ok s CountUp \<longleftrightarrow> True"

text \<open>The heap only grows and its objects only evolve, so tasks stay sound.\<close>

definition heap_grows :: "server \<Rightarrow> server \<Rightarrow> bool" where
  "heap_grows s s' \<longleftrightarrow> length (sv_heap s) \<le> length (sv_heap s') \<and>
     (\<forall>h < length (sv_heap s). evolves (client_at s h) (client_at s' h))"

lemma heap_grows_refl [simp]: "heap_grows s s"
  by (simp add: heap_grows_def)

lemma heap_growsD:
  "heap_grows s s' \<Longrightarrow> h < length (sv_heap s) \<Longrightarrow> h < length (sv_heap s') \<and>
     sc_token (client_at s' h) = sc_token (client_at s h) \<and> (expired (client_at s h) \<longrightarrow> expired (client_at s' h))"
  by (auto simp: heap_grows_def evolves_def)

lemma task_ok_grows: "heap_grows s s' \<Longrightarrow> task_ok s t \<Longrightarrow> task_ok s' t"
  by (cases t) (auto dest: heap_growsD)

lemma same_grows: "same_registries s s' \<Longrightarrow> heap_grows s s'"
  by (simp add: same_registries_def heap_grows_def)

lemma unregister_grows [simp]: "heap_grows s (unregister k h s') = heap_grows s s'"
  by (simp add: heap_grows_def unregister_def)

lemma forget_grows: "heap_grows s (snd (forgetServerClient h s))"
  using forget_cases [of h s] by (auto simp: heap_grows_def unregister_def)

lemma replace_grows: "server_inv s \<Longrightarrow> heap_grows s (replace_existing k s)"
proof (cases "gm_get (sv_clients s) k")
  case (Some h)
  moreover assume "server_inv s"
  ultimately have "h < length (sv_heap s)" by (auto simp: server_inv_def registry_ok_def)
  from replace_existing_eq [OF Some this] show ?thesis by (auto dest: same_grows)
qed (simp add: replace_existing_def heap_grows_def)

lemma enroll_grows: "heap_grows s s' \<Longrightarrow> heap_grows s (enroll k c s')"
  by (auto simp: heap_grows_def)

lemma admit_grows: "server_inv s \<Longrightarrow> env_ok env \<Longrightarrow> k \<noteq> [] \<Longrightarrow> heap_grows s (snd (admit env k req s))"
  using admit_cases [of env k req s] replace_grows [of s k] enroll_grows by auto

lemma inv_by_same: "same_registries s s' \<Longrightarrow> server_inv s \<Longrightarrow> server_inv s' \<and> heap_grows s s'"
  using same_registries_inv same_grows by blast

lemma goroutine_server:
  assumes "goroutine t s ts s'" "server_inv s" "task_ok s t"
  shows "server_inv s' \<and> heap_grows s s'"
  using assms
proof cases
  case (reaper_fires h reap)
  with reap_same [of s h] assms show ?thesis by (auto intro!: inv_by_same)
next
  case (monitor_tick now h gave_up)
  with monitor_same [of s now h] assms show ?thesis by (auto intro!: inv_by_same)
next
  case (mux_claimed h l old s'')
  with claim_same(1) [of s h l] assms show ?thesis by (auto intro!: inv_by_same)
next
  case (mux_expired h l)
  with claim_same(1) [of s h l] assms show ?thesis by (auto intro!: inv_by_same)
next
  case (mux_ended l h current)
  with release_same(1) [of s h l] assms show ?thesis by (auto intro!: inv_by_same)
next
  case (quic_claimed h l old s'')
  with claim_same(2) [of s h l] assms show ?thesis by (auto intro!: inv_by_same)
next
  case (quic_expired h l)
  with claim_same(2) [of s h l] assms show ?thesis by (auto intro!: inv_by_same)
next
  case (quic_release h l current peerGone)
  with release_same(2) [of s h l] assms show ?thesis by (auto intro!: inv_by_same)
next
  case (mux_forget h forgotten)
  with forget_inv [of s h] forget_grows [of s h] assms show ?thesis by simp
next
  case (close_forget h)
  with forget_inv [of s h] forget_grows [of s h] assms show ?thesis by simp
qed (use assms in \<open>auto intro!: inv_by_same\<close>)

lemma goroutine_tasks:
  assumes "goroutine t s ts s'" "task_ok s t" "heap_grows s s'"
  shows "list_all (task_ok s') ts"
  using assms
proof cases
  case (reaper_fires h reap)
  then show ?thesis using assms by (auto simp: reapUnattachedRegistration_def modify_def Let_def expired_def)
next
  case (monitor_tick now h gave_up)
  then show ?thesis using assms
    by (auto simp: monitorServerClientActivity_def cancel_ctx_def modify_def Let_def expired_def split: if_splits)
next
  case (mux_claimed h l old s'')
  then show ?thesis using assms by (auto simp: heap_grows_def)
next
  case (quic_claimed h l old s'')
  then show ?thesis using assms by (auto simp: heap_grows_def)
next
  case (mux_ended l h current)
  then show ?thesis using assms
    by (auto simp: releaseServerAttach_def unpublish_mux_def modify_def Let_def expired_def split: if_splits)
next
  case (quic_release h l current peerGone)
  then show ?thesis using assms
    by (auto simp: releaseServerAttach_def unpublish_quic_def modify_def Let_def expired_def split: if_splits)
next
  case (mux_forget h forgotten)
  then show ?thesis using assms by (auto dest: heap_growsD)
next
  case (close_forget h)
  then show ?thesis using assms by (auto dest: heap_growsD)
qed (use assms in \<open>auto dest: heap_growsD\<close>)

definition system_inv :: "system \<Rightarrow> bool" where
  "system_inv x \<longleftrightarrow> server_inv (fst x) \<and> list_all (task_ok (fst x)) (snd x)"

lemma tasks_grow: "heap_grows s s' \<Longrightarrow> list_all (task_ok s) ts \<Longrightarrow> list_all (task_ok s') ts"
  by (auto simp: list_all_iff intro: task_ok_grows)

lemma admit_handle: "env_ok env \<Longrightarrow> k \<noteq> [] \<Longrightarrow> admit env k req s = (Inr h, s') \<Longrightarrow> h < length (sv_heap s')"
  using admit_cases [of env k req s] by auto

lemma lookup_sound: "server_inv s \<Longrightarrow> gm_get (sv_clients s) k = Some h \<Longrightarrow> h < length (sv_heap s)"
  by (auto simp: server_inv_def registry_ok_def)

lemma system_step_inv: "system_step x y \<Longrightarrow> system_inv x \<Longrightarrow> system_inv y"
proof (induction rule: system_step.induct)
  case (sys_goroutine t s ts s' as bs)
  then have inv: "server_inv s" and t: "task_ok s t" and rest: "list_all (task_ok s) (as @ bs)" by (auto simp: system_inv_def)
  from goroutine_server [OF sys_goroutine(1) inv t] have s': "server_inv s'" and g: "heap_grows s s'" by auto
  with goroutine_tasks [OF sys_goroutine(1) t g] tasks_grow [OF g rest] show ?case by (simp add: system_inv_def)
next
  case (sys_register env cf who req0 clientID req s h s' ts)
  then have k: "clientID \<noteq> []" using check_registration_named by blast
  from sys_register(4) have inv: "server_inv s" "list_all (task_ok s) ts" by (auto simp: system_inv_def)
  with admit_inv [OF inv(1) sys_register(1) k check_registration_bound [OF sys_register(2)]] admit_grows [OF inv(1) sys_register(1) k, of req]
    tasks_grow admit_handle [OF sys_register(1) k sys_register(3)] sys_register(3) show ?case
    by (auto simp: system_inv_def)
next
  case (sys_refused env cf who req0 clientID req s name s' ts)
  then have k: "clientID \<noteq> []" using check_registration_named by blast
  from sys_refused(4) have inv: "server_inv s" "list_all (task_ok s) ts" by (auto simp: system_inv_def)
  with admit_inv [OF inv(1) sys_refused(1) k check_registration_bound [OF sys_refused(2)]] admit_grows [OF inv(1) sys_refused(1) k, of req]
    tasks_grow sys_refused(3) show ?case by (auto simp: system_inv_def)
next
  case (sys_link_closed s ts l)
  then show ?case using inv_by_same [of s "s\<lparr>sv_closed := l # sv_closed s\<rparr>"] tasks_grow by (auto simp: system_inv_def)
next
  case (sys_activity s clientID h ts now)
  have "same_registries s (modify h (\<lambda>c. c\<lparr>sc_activity := now\<rparr>) s)"
    by (rule modify_same) (simp add: evolves_def expired_def client_ok_def)
  from inv_by_same [OF this] sys_activity tasks_grow show ?case by (auto simp: system_inv_def)
next
  case (sys_signal s clientID h ts conn)
  have "same_registries s (modify h (\<lambda>c. c\<lparr>sc_signal := conn\<rparr>) s)"
    by (rule modify_same) (simp add: evolves_def expired_def client_ok_def)
  from inv_by_same [OF this] sys_signal tasks_grow show ?case by (auto simp: system_inv_def)
next
  case (sys_shutdown s clientID h ts)
  with inv_by_same [OF cancel_same, of s h] tasks_grow [of s "cancel_ctx h s" ts] show ?case by (simp add: system_inv_def)
qed (auto simp: system_inv_def validSessionToken_def dest: lookup_sound)

lemma system_step_grows:
  assumes "system_step (s, ts) (s', ts')" and "system_inv (s, ts)"
  shows "heap_grows s s'"
  using assms
proof cases
  case (sys_goroutine t us as bs)
  with assms(2) goroutine_server [of t s us s'] show ?thesis by (auto simp: system_inv_def)
next
  case (sys_register env cf who req0 clientID req h)
  with assms(2) admit_grows [of s env clientID req] check_registration_named show ?thesis by (auto simp: system_inv_def)
next
  case (sys_refused env cf who req0 clientID req name)
  with assms(2) admit_grows [of s env clientID req] check_registration_named show ?thesis by (auto simp: system_inv_def)
qed (auto intro!: same_grows modify_same simp: evolves_def expired_def client_ok_def)

lemma restore_inv:
  assumes "server_inv s" "sv_routes s = []" "gm_get (sv_clients s) (fst kd) = None"
  shows "server_inv (restore_one s kd) \<and> sv_routes (restore_one s kd) = [] \<and>
    fst ` set (sv_clients (restore_one s kd)) \<subseteq> insert (fst kd) (fst ` set (sv_clients s))"
proof -
  let ?c = "restored_client (fst kd) (snd kd)"
  have "server_inv (enroll (fst kd) ?c s)"
    by (rule enroll_inv) (use assms in \<open>auto simp: restored_client_def client_ok_def\<close>)
  then have "server_inv ((enroll (fst kd) ?c s)\<lparr>sv_active := sv_active s + 1\<rparr>)"
    using inv_by_same [of "enroll (fst kd) ?c s" "(enroll (fst kd) ?c s)\<lparr>sv_active := sv_active s + 1\<rparr>"] by simp
  moreover have "restore_one s kd = (if sd_type (snd kd) = ''non-tls'' then s else (enroll (fst kd) ?c s)\<lparr>sv_active := sv_active s + 1\<rparr>)"
    using assms(2) by (auto simp: restore_one_def enroll_def restored_client_def intro!: server.equality)
  ultimately show ?thesis using assms
    by (auto simp: enroll_def restored_client_def server_inv_def registry_ok_def set_gm_put)
qed

lemma restore_all:
  "server_inv s \<Longrightarrow> sv_routes s = [] \<Longrightarrow> gm_ok saved \<Longrightarrow> fst ` set saved \<inter> fst ` set (sv_clients s) = {} \<Longrightarrow>
     server_inv (foldl restore_one s saved)"
proof (induction saved arbitrary: s)
  case (Cons kd saved)
  have "gm_get (sv_clients s) (fst kd) = None" using Cons.prems(4) by (auto simp: map_of_eq_None_iff)
  note one = restore_inv [OF Cons.prems(1,2) this]
  have new: "fst kd \<notin> fst ` set saved" and ok: "gm_ok saved" using Cons.prems(3) by (auto simp: gm_ok_def)
  have "fst ` set saved \<inter> fst ` set (sv_clients s) = {}" using Cons.prems(4) by auto
  moreover have "fst ` set (sv_clients (restore_one s kd)) \<subseteq> insert (fst kd) (fst ` set (sv_clients s))" using one by simp
  ultimately have "fst ` set saved \<inter> fst ` set (sv_clients (restore_one s kd)) = {}"
    using new by (meson disjoint_insert(1) disjoint_iff subset_iff)
  with one ok Cons.IH show ?case by simp
qed simp

lemma load_inv: "gm_ok saved \<Longrightarrow> server_inv (loadServerState saved)"
  unfolding loadServerState_def
  by (rule restore_all) (auto simp: empty_server_def server_inv_def registry_ok_def routes_ok_def live_ok_def self_ok_def)

lemma reachable_inv: "reachable x \<Longrightarrow> system_inv x"
proof (induction rule: reachable.induct)
  case (started saved)
  then show ?case by (auto simp: system_inv_def load_inv initial_tasks_def list_all_iff)
qed (rule system_step_inv)

section \<open>Properties\<close>

lemma reachable_server: "reachable (s, ts) \<Longrightarrow> server_inv s"
  using reachable_inv [of "(s, ts)"] by (simp add: system_inv_def)

text \<open>A concrete run: one registration of a protected tunnel on a fresh server.\<close>

definition example_env :: registration_env where
  "example_env = \<lparr>re_client_uuid = replicate 36 (CHR ''a''), re_tunnel_uuid = (\<lambda>i. replicate 36 (CHR ''b'')),
     re_random = replicate 32 0, re_now = 0\<rparr>"

definition example_tunnel :: tunnel_config where
  "example_tunnel = (legacy_tunnel ''app'')\<lparr>tn_target := ''localhost:80'', tn_basic_auth := ''u:p''\<rparr>"

definition example_registration :: registration_request where
  "example_registration = \<lparr>rr_type = ''tls'', rr_client = ''alice'', rr_tunnels = [example_tunnel], rr_reverse = [],
     rr_headers = [], rr_compress = False, rr_p2p = None\<rparr>"

definition example_server :: server where
  "example_server = enroll ''alice'' (new_client example_env ''alice'' example_registration [example_tunnel]) empty_server"

lemma example_check: "check_registration example_config None example_env example_registration = Inr (''alice'', example_registration)"
  by (simp add: check_registration_def example_registration_def requirePrincipalClient_def bindRegistrationP2PIdentity_def
      validateReverseConfigs_def example_config_def Let_def)

lemma example_admit: "admit example_env ''alice'' example_registration empty_server = (Inr 0, example_server)"
  by (simp add: admit_def replace_existing_def empty_server_def example_server_def enroll_def new_client_def
      example_registration_def example_tunnel_def legacy_tunnel_def Let_def)

lemma example_reachable: "reachable (example_server, [Monitor 0, Reaper 0, CountUp])"
proof -
  have "reachable (loadServerState [], initial_tasks (loadServerState []))" by (rule started) simp
  then have "reachable (empty_server, [])" by (simp add: loadServerState_def initial_tasks_def empty_server_def)
  moreover have "env_ok example_env" by (simp add: env_ok_def example_env_def)
  ultimately show ?thesis using reachable.step sys_register [OF _ example_check example_admit, of "[]"] by fastforce
qed

text \<open>C2. Routes are sound under every interleaving: whatever registrations, re-registrations, refused
  registrations, reaped and torn-down clients, attached and lost connections have happened, a
  public name is routed only to a client that is registered now and lists a tunnel of that name, and the
  route carries exactly that tunnel's target, Basic Auth, capability and options and that client's
  headers.\<close>

theorem route_belongs_to_registration:
  assumes "reachable (s, ts)" and "gm_get (sv_routes s) n = Some r"
  shows "\<exists>h t. gm_get (sv_clients s) (tr_client r) = Some h \<and> h < length (sv_heap s) \<and>
    t \<in> set (sc_tunnels (client_at s h)) \<and> tn_name t = n \<and>
    r = route_of (sc_key (client_at s h)) (sc_headers (client_at s h)) t"
proof -
  from reachable_server [OF assms(1)] have inv: "registry_ok s" and "routes_ok s" by (auto simp: server_inv_def)
  with assms(2) have "route_justified s n r" by (simp add: routes_ok_def)
  then obtain h t where "gm_get (sv_clients s) (tr_client r) = Some h" "t \<in> set (sc_tunnels (client_at s h))" "tn_name t = n"
    "r = route_of (tr_client r) (sc_headers (client_at s h)) t" unfolding route_justified_def by blast
  with inv show ?thesis unfolding registry_ok_def by metis
qed

theorem route_belongs_to_registration_witness:
  "\<exists>h t. gm_get (sv_clients example_server) ''alice'' = Some h \<and> t \<in> set (sc_tunnels (client_at example_server h)) \<and>
     tn_name t = ''app'' \<and> tn_basic_auth t = ''u:p''"
proof -
  have "gm_get (sv_routes example_server) ''app'' = Some (route_of ''alice'' [] example_tunnel)"
    by (simp add: example_server_def enroll_def new_client_def example_tunnel_def legacy_tunnel_def example_registration_def
        empty_server_def)
  from route_belongs_to_registration [OF example_reachable this] show ?thesis
    by (auto simp: route_of_def example_tunnel_def)
qed

text \<open>C3. A stale teardown never touches a successor, and no late connection revives a dead
  registration: in every reachable state a registration that is neither cancelled nor expired is the one
  its ID is registered to; every data connection published on a registration was admitted with its
  session credential, so a client restored from the state file never has one; every teardown
  still under way works on an expired registration; and no step of the system publishes a new data connection
  on an expired registration.\<close>

theorem live_registration_is_current:
  assumes "reachable (s, ts)" and "h < length (sv_heap s)"
  shows "(\<not> sc_cancelled (client_at s h) \<and> \<not> sc_reaped (client_at s h) \<longrightarrow>
            gm_get (sv_clients s) (sc_key (client_at s h)) = Some h) \<and>
    (sc_mux (client_at s h) \<noteq> None \<or> sc_quic (client_at s h) \<noteq> None \<longrightarrow>
            sc_token (client_at s h) \<noteq> [] \<and> sc_attached (client_at s h)) \<and>
    (CloseForget h \<in> set ts \<or> MuxForget h \<in> set ts \<longrightarrow> sc_cancelled (client_at s h) \<or> sc_reaped (client_at s h)) \<and>
    (\<forall>s' ts'. system_step (s, ts) (s', ts') \<and> (sc_cancelled (client_at s h) \<or> sc_reaped (client_at s h)) \<longrightarrow>
       (sc_mux (client_at s' h) = None \<or> sc_mux (client_at s' h) = sc_mux (client_at s h)) \<and>
       (sc_quic (client_at s' h) = None \<or> sc_quic (client_at s' h) = sc_quic (client_at s h)))"
proof -
  have late: "(sc_mux (client_at s' h) = None \<or> sc_mux (client_at s' h) = sc_mux (client_at s h)) \<and>
      (sc_quic (client_at s' h) = None \<or> sc_quic (client_at s' h) = sc_quic (client_at s h))"
    if "system_step (s, ts) (s', ts')" "expired (client_at s h)" for s' ts'
    using system_step_grows [OF that(1) reachable_inv [OF assms(1)]] assms(2) that(2) by (simp add: heap_grows_def evolves_def)
  from reachable_inv [OF assms(1)] have inv: "registry_ok s" "live_ok s" and tasks: "\<forall>t \<in> set ts. task_ok s t"
    by (auto simp: system_inv_def server_inv_def list_all_iff)
  from inv(2) assms(2) have "\<not> sc_cancelled (client_at s h) \<and> \<not> sc_reaped (client_at s h) \<longrightarrow>
      gm_get (sv_clients s) (sc_key (client_at s h)) = Some h" by (auto simp: live_ok_def expired_def)
  moreover from inv(1) assms(2) have "client_ok (client_at s h)" by (simp add: registry_ok_def)
  then have "sc_mux (client_at s h) \<noteq> None \<or> sc_quic (client_at s h) \<noteq> None \<longrightarrow>
      sc_token (client_at s h) \<noteq> [] \<and> sc_attached (client_at s h)" by (auto simp: client_ok_def split: if_splits)
  moreover from tasks have "CloseForget h \<in> set ts \<or> MuxForget h \<in> set ts \<longrightarrow> expired (client_at s h)"
    by (metis task_ok.simps(8) task_ok.simps(10))
  moreover note late
  ultimately show ?thesis unfolding expired_def by blast
qed

theorem live_registration_is_current_witness:
  "gm_get (sv_clients example_server) ''alice'' = Some 0"
  using live_registration_is_current [OF example_reachable, of 0]
  by (simp add: example_server_def enroll_def new_client_def empty_server_def)

lemma admitted:
  assumes inv: "server_inv s" and env: "env_ok env" and k: "k \<noteq> []" and ok: "admit env k req s = (Inr h, s')"
  shows "gm_get (sv_clients s') k = Some h \<and> h < length (sv_heap s') \<and> (\<exists>ts. client_at s' h = new_client env k req ts) \<and>
    (\<forall>t \<in> set (sc_tunnels (client_at s' h)). \<exists>r. gm_get (sv_routes s') (tn_name t) = Some r \<and> tr_client r = k) \<and>
    (\<forall>j. j \<noteq> k \<longrightarrow> gm_get (sv_clients s') j = gm_get (sv_clients s) j) \<and>
    (\<forall>n r. gm_get (sv_routes s) n = Some r \<and> tr_client r \<noteq> k \<and> n \<noteq> k \<longrightarrow> gm_get (sv_routes s') n = Some r) \<and>
    (\<forall>old. gm_get (sv_clients s) k = Some old \<longrightarrow> sc_cancelled (client_at s' old))"
proof -
  let ?s = "replace_existing k s"
  note rep = replace_existing_inv [OF inv, of k]
  from admit_cases [OF env k, of req s] ok obtain ts where h: "h = length (sv_heap ?s)"
    and s': "s' = enroll k (new_client env k req ts) ?s"
    and free: "\<And>t r. t \<in> set ts \<Longrightarrow> gm_get (sv_routes ?s) (tn_name t) = Some r \<Longrightarrow> tn_name t = k \<or> tr_client r = k"
    by fastforce
  have tn: "sc_tunnels (new_client env k req ts) = ts" "sc_headers (new_client env k req ts) = rr_headers req"
    by (simp_all add: new_client_def)
  have own: "\<exists>r. gm_get (sv_routes s') (tn_name t) = Some r \<and> tr_client r = k" if "t \<in> set ts" for t
  proof -
    have "tn_name t \<in> tn_name ` set ts" using that by simp
    from put_routes_own [OF this, of k "rr_headers req" "sv_routes ?s"] show ?thesis by (auto simp: s' enroll_def tn route_of_def)
  qed
  have keep: "gm_get (sv_routes s') n = Some r" if "gm_get (sv_routes s) n = Some r" "tr_client r \<noteq> k" "n \<noteq> k" for n r
  proof -
    have r: "gm_get (sv_routes ?s) n = Some r" using rep that by blast
    then have "n \<notin> tn_name ` set ts" using free that by blast
    with r show ?thesis by (simp add: s' enroll_def tn put_routes_other)
  qed
  have old: "sc_cancelled (client_at s' old)" if "gm_get (sv_clients s) k = Some old" for old
    using rep that by (simp add: s')
  show ?thesis using own keep old rep by (auto simp: s' h tn)
qed

text \<open>C17. What a successful registration does, whatever the server's state: the answered client ID is
  registered to a new, live object holding the answered session token, and every name in it is routed to
  that client; an earlier registration of the ID is cancelled; every other client stays registered
  and keeps its routes, except a route named like the new client's ID (which a registration without
  tunnels takes over).\<close>

theorem registration_takes_effect:
  assumes reach: "reachable (s, ts)" and env: "env_ok env"
    and ok: "registerServerClientHandler cf who env r body s = (Inr resp, s')"
  shows "(\<exists>h. gm_get (sv_clients s') (rs_udid resp) = Some h \<and> sc_token (client_at s' h) = rs_token resp \<and>
        \<not> sc_cancelled (client_at s' h) \<and> \<not> sc_reaped (client_at s' h) \<and>
        (\<forall>t \<in> set (sc_tunnels (client_at s' h)). \<exists>r. gm_get (sv_routes s') (tn_name t) = Some r \<and> tr_client r = rs_udid resp)) \<and>
    (\<forall>old. gm_get (sv_clients s) (rs_udid resp) = Some old \<longrightarrow> sc_cancelled (client_at s' old)) \<and>
    (\<forall>j. j \<noteq> rs_udid resp \<longrightarrow> gm_get (sv_clients s') j = gm_get (sv_clients s) j) \<and>
    (\<forall>n r. gm_get (sv_routes s) n = Some r \<and> tr_client r \<noteq> rs_udid resp \<and> n \<noteq> rs_udid resp \<longrightarrow> gm_get (sv_routes s') n = Some r)"
proof -
  from ok obtain req0 k req h s1 where chk: "check_registration cf who env req0 = Inr (k, req)"
    and adm: "admit env k req s = (Inr h, s1)" and resp: "resp = registration_response_of cf req (client_at s1 h)"
    and s': "s' = s1\<lparr>sv_active := sv_active s1 + 1\<rparr>"
    by (auto simp: registerServerClientHandler_def split: option.splits sum.splits prod.splits)
  note a = admitted [OF reachable_server [OF reach] env check_registration_named [OF env chk] adm]
  then obtain us where new: "client_at s1 h = new_client env k req us" by blast
  then have "rs_udid resp = k" "rs_token resp = sc_token (client_at s1 h)" "\<not> sc_cancelled (client_at s1 h)" "\<not> sc_reaped (client_at s1 h)"
    by (simp_all add: resp registration_response_of_def new_client_def)
  with a show ?thesis unfolding s' by simp
qed

definition example_post :: http_request where
  "example_post = example_request\<lparr>rq_header := [(''Content-Type'', [''application/json''])]\<rparr>"

theorem registration_takes_effect_witness:
  "\<exists>resp s'. registerServerClientHandler example_config None example_env example_post (Some example_registration) empty_server = (Inr resp, s') \<and>
     (\<exists>h. gm_get (sv_clients s') (rs_udid resp) = Some h \<and> sc_token (client_at s' h) = rs_token resp)"
proof -
  have "reachable (loadServerState [], initial_tasks (loadServerState []))" by (rule started) simp
  then have start: "reachable (empty_server, [])" by (simp add: loadServerState_def initial_tasks_def empty_server_def)
  have env: "env_ok example_env" by (simp add: env_ok_def example_env_def)
  have run: "registerServerClientHandler example_config None example_env example_post (Some example_registration) empty_server =
    (Inr (registration_response_of example_config example_registration (client_at example_server 0)),
     example_server\<lparr>sv_active := sv_active example_server + 1\<rparr>)"
    by (simp add: registerServerClientHandler_def decode_registration_def example_post_def header_get_def header_values_def
        example_check example_admit)
  from registration_takes_effect [OF start env run] run show ?thesis by blast
qed

section \<open>Two registrations that hurt others\<close>

text \<open>A registration without tunnels claims the client's ID as a subdomain without the conflict check
  the tunnel loop makes: bob takes over the route of alice's tunnel named \<^verbatim>\<open>bob\<close>, while alice stays
  registered and still lists it.\<close>

definition bare_registration :: "string \<Rightarrow> registration_request" where
  "bare_registration k = example_registration\<lparr>rr_client := k, rr_tunnels := []\<rparr>"

definition alice_with :: "string \<Rightarrow> server" where
  "alice_with n = enroll ''alice'' (new_client example_env ''alice'' example_registration [example_tunnel\<lparr>tn_name := n\<rparr>]) empty_server"

lemma bare_registration_takes_foreign_route:
  "\<exists>s'. admit example_env ''bob'' (bare_registration ''bob'') (alice_with ''bob'') = (Inr 1, s') \<and>
     gm_get (sv_clients s') ''alice'' = Some 0 \<and> ''bob'' \<in> tn_name ` set (sc_tunnels (client_at s' 0)) \<and>
     map_option tr_client (gm_get (sv_routes (alice_with ''bob'')) ''bob'') = Some ''alice'' \<and>
     map_option tr_client (gm_get (sv_routes s') ''bob'') = Some ''bob''"
  by (simp add: admit_def replace_existing_def bare_registration_def alice_with_def enroll_def new_client_def example_registration_def
      empty_server_def Let_def route_of_def legacy_tunnel_def)

text \<open>A refused re-registration has already removed the client's running registration: bob, who holds
  \<^verbatim>\<open>b\<close>, asks for alice's \<^verbatim>\<open>app\<close> in addition, is answered 409, and is no longer registered.\<close>

lemma refused_registration_drops_the_old_one:
  "fst (admit example_env ''bob'' (example_registration\<lparr>rr_client := ''bob''\<rparr>)
     (enroll ''bob'' (new_client example_env ''bob'' example_registration [example_tunnel\<lparr>tn_name := ''b''\<rparr>]) (alice_with ''app''))) = Inl ''app'' \<and>
   gm_get (sv_clients (snd (admit example_env ''bob'' (example_registration\<lparr>rr_client := ''bob''\<rparr>)
     (enroll ''bob'' (new_client example_env ''bob'' example_registration [example_tunnel\<lparr>tn_name := ''b''\<rparr>]) (alice_with ''app''))))) ''bob'' = None"
  by (simp add: admit_def replace_existing_def alice_with_def enroll_def new_client_def example_registration_def example_tunnel_def
      empty_server_def Let_def route_of_def legacy_tunnel_def count_out_def cancel_ctx_def modify_def DeleteOwned_def)

end
