(* ===== verification/Signal_Relay.thy ===== *)
theory Signal_Relay
  imports Server_Lifecycle
begin

text \<open>
  The server's part in peer-to-peer signalling (\<^verbatim>\<open>server.go\<close>, from
  \<^verbatim>\<open>handleP2PWebSocket\<close> on): relaying messages between the signalling sockets of
  registered clients, the HTTP signalling endpoint, and the listing, discovery and ownership endpoints.
  A delivery is the client a message is written to and the message.
\<close>

type_synonym delivery = "string \<times> signal_message"

definition sendP2PSignalToClient :: "server \<Rightarrow> string \<Rightarrow> signal_message \<Rightarrow> delivery list" where
  "sendP2PSignalToClient s clientID m =
     (case gm_get (sv_clients s) clientID of
        None \<Rightarrow> []
      | Some h \<Rightarrow> if sc_signal (client_at s h) = None then [] else [(clientID, m)])"

definition registered_info :: "server \<Rightarrow> string \<Rightarrow> peer_info option" where
  "registered_info s k = (case gm_get (sv_clients s) k of Some h \<Rightarrow> sc_p2p (client_at s h) | None \<Rightarrow> None)"

definition handleP2PSignalRelay :: "server \<Rightarrow> string \<Rightarrow> signal_message \<Rightarrow> delivery list" where
  "handleP2PSignalRelay s fromClientID signal0 =
     (let signal = signal0\<lparr>sm_from := fromClientID\<rparr> in
      if sm_type signal = ''p2p_discover'' then
        (if gm_get (sv_clients s) (sm_to signal) = None then
           sendP2PSignalToClient s fromClientID (NewFallbackSignal ''server'' fromClientID (sm_session signal) ''peer not found'')
         else if registered_info s (sm_to signal) = None then
           sendP2PSignalToClient s fromClientID (NewFallbackSignal ''server'' fromClientID (sm_session signal) ''peer has no P2P'')
         else
           sendP2PSignalToClient s fromClientID (NewPeerInfoSignal (sm_to signal) (registered_info s (sm_to signal))) @
           (if registered_info s fromClientID \<noteq> None
            then sendP2PSignalToClient s (sm_to signal) (NewPeerInfoSignal fromClientID (registered_info s fromClientID))
            else []))
      else if sm_type signal \<in> {''p2p_punch'', SignalTypeICEOffer, SignalTypeICEAnswer, SignalTypeICECandidate, ''p2p_ready'', ''p2p_fallback''} then
        sendP2PSignalToClient s (sm_to signal) signal
      else [])"

section \<open>Sockets and endpoints\<close>

text \<open>The admission of a signalling socket: the client it speaks for, or a status.\<close>

definition handleP2PWebSocket :: "control_principal option \<Rightarrow> server \<Rightarrow> http_request \<Rightarrow> status + string" where
  "handleP2PWebSocket who s r =
     (let clientID = header_get (rq_query r) ''client_id'' in
      if clientID = [] then Inl 400
      else (case requirePrincipalClient who clientID of
              Inl e \<Rightarrow> Inl e
            | Inr clientID \<Rightarrow> if gm_get (sv_clients s) clientID = None then Inl 404 else Inr clientID))"

text \<open>One message read from an admitted socket; one that does not decode is skipped.\<close>

definition signal_socket_message ::
  "(bytes \<Rightarrow> signal_message option) \<Rightarrow> (string \<Rightarrow> bool) \<Rightarrow> server \<Rightarrow> string \<Rightarrow> bytes \<Rightarrow> delivery list" where
  "signal_socket_message unmarshal addr_ok s clientID message =
     (case DecodeSignal unmarshal addr_ok message of
        Inl _ \<Rightarrow> []
      | Inr m \<Rightarrow> handleP2PSignalRelay s clientID m)"

datatype signaling_answer = Status status | Message signal_message

definition handleP2PSignaling :: "control_principal option \<Rightarrow> server \<Rightarrow> http_request \<Rightarrow> signal_message option \<Rightarrow> signaling_answer" where
  "handleP2PSignaling who s r body =
     (if rq_method r \<noteq> ''POST'' then Status 405
      else (case body of
              None \<Rightarrow> Status 400
            | Some signal0 \<Rightarrow>
                (case requirePrincipalClient who (sm_from signal0) of
                   Inl e \<Rightarrow> Status e
                 | Inr fromPeer \<Rightarrow>
                     let signal = signal0\<lparr>sm_from := fromPeer\<rparr> in
                     if sm_type signal = ''p2p_discover'' then
                       (if registered_info s (sm_to signal) = None
                        then Message (NewFallbackSignal ''server'' fromPeer [] ''peer not found or P2P not enabled'')
                        else Message (NewPeerInfoSignal (sm_to signal) (registered_info s (sm_to signal))))
                     else if sm_type signal = ''p2p_punch'' then
                       (if gm_get (sv_clients s) (sm_to signal) = None then Status 404 else Status 200)
                     else Status 400)))"

record listed_client =
  lc_client :: string
  lc_tunnels :: "string list"
  lc_enabled :: bool
  lc_info :: "peer_info option"
  lc_signal :: bool

definition publicPeerInfo :: "peer_info option \<Rightarrow> peer_info option" where
  "publicPeerInfo info = map_option (\<lambda>i. i\<lparr>pi_token := []\<rparr>) info"

definition handleP2PClients :: "server \<Rightarrow> listed_client list" where
  "handleP2PClients s = map (\<lambda>(k, h). let c = client_at s h in
     \<lparr>lc_client = k, lc_tunnels = map tn_name (sc_tunnels c), lc_enabled = (sc_p2p c \<noteq> None), lc_info = publicPeerInfo (sc_p2p c),
      lc_signal = (sc_signal c \<noteq> None)\<rparr>) (sv_clients s)"

definition signal_connected :: "server \<Rightarrow> string \<Rightarrow> bool" where
  "signal_connected s k = (case gm_get (sv_clients s) k of Some h \<Rightarrow> sc_signal (client_at s h) \<noteq> None | None \<Rightarrow> False)"

definition handleP2PDiscoverTrigger :: "server \<Rightarrow> http_request \<Rightarrow> status \<times> delivery list" where
  "handleP2PDiscoverTrigger s r =
     (let a = header_get (rq_query r) ''from''; b = header_get (rq_query r) ''to'' in
      if a = [] \<or> b = [] then (400, [])
      else if gm_get (sv_clients s) a = None \<or> gm_get (sv_clients s) b = None then (404, [])
      else if registered_info s a = None \<or> registered_info s b = None then (400, [])
      else if \<not> signal_connected s a \<or> \<not> signal_connected s b then (400, [])
      else (200, sendP2PSignalToClient s a (NewPeerInfoSignal b (registered_info s b)) @
                 sendP2PSignalToClient s b (NewPeerInfoSignal a (registered_info s a))))"

text \<open>The owner of a tunnel and whether it takes part in P2P.\<close>

definition handleP2PTunnelOwner :: "server \<Rightarrow> http_request \<Rightarrow> status + string \<times> bool" where
  "handleP2PTunnelOwner s r =
     (let tunnelName = header_get (rq_query r) ''tunnel'' in
      if tunnelName = [] then Inl 400
      else (case gm_get (sv_routes s) tunnelName of
              None \<Rightarrow> Inl 404
            | Some route \<Rightarrow> Inr (tr_client route, registered_info s (tr_client route) \<noteq> None)))"

section \<open>What peers may rely on\<close>

lemma sent_to: "(k, m) \<in> set (sendP2PSignalToClient s clientID signal) \<Longrightarrow> k = clientID \<and> m = signal"
  by (auto simp: sendP2PSignalToClient_def split: option.splits if_splits)

lemma registered_info_bound: "server_inv s \<Longrightarrow> registered_info s k = Some i \<Longrightarrow> pi_peer i = k"
proof -
  assume inv: "server_inv s" and "registered_info s k = Some i"
  then obtain h where h: "gm_get (sv_clients s) k = Some h" "sc_p2p (client_at s h) = Some i"
    by (auto simp: registered_info_def split: option.splits)
  with inv have "sc_key (client_at s h) = k" "client_ok (client_at s h)" by (auto simp: server_inv_def registry_ok_def)
  with h(2) show ?thesis by (simp add: client_ok_def)
qed

text \<open>A message of the server's own making: peer information of a registered client under its own name.\<close>

definition own_info :: "server \<Rightarrow> string \<Rightarrow> signal_message \<Rightarrow> bool" where
  "own_info s k m \<longleftrightarrow> sm_type m = ''p2p_peer_info'' \<and> sm_from m = k \<and>
     (\<exists>i. sm_peer_info m = Some i \<and> registered_info s k = Some i \<and> pi_peer i = k)"

lemma own_infoI: "server_inv s \<Longrightarrow> registered_info s k \<noteq> None \<Longrightarrow> own_info s k (NewPeerInfoSignal k (registered_info s k))"
  using registered_info_bound [of s k] by (auto simp: own_info_def NewPeerInfoSignal_def)

text \<open>C9. Signalling cannot be spoofed through the server: in every reachable state, whatever a client sends
  over its signalling socket, each message the server writes in reply is either the sender's own
  message with the sender field overwritten by the client the socket was authenticated for and
  delivered to the peer it names, or a fallback notice from the server to the sender, or the
  registered peer information of one of the two clients, delivered to the other; and that peer
  information names the client it is sent for.\<close>

theorem relayed_signals_are_authentic:
  assumes reach: "reachable (s, ts)" and del: "(k, m) \<in> set (signal_socket_message unmarshal addr_ok s clientID message)"
  shows "\<exists>signal. DecodeSignal unmarshal addr_ok message = Inr signal \<and>
    (k = sm_to signal \<and> m = signal\<lparr>sm_from := clientID\<rparr> \<or>
     k = clientID \<and> sm_from m = ''server'' \<and> sm_type m = ''p2p_fallback'' \<or>
     k = clientID \<and> own_info s (sm_to signal) m \<or>
     k = sm_to signal \<and> own_info s clientID m)"
proof -
  from del obtain signal where dec: "DecodeSignal unmarshal addr_ok message = Inr signal"
    and rel: "(k, m) \<in> set (handleP2PSignalRelay s clientID signal)"
    by (cases "DecodeSignal unmarshal addr_ok message") (auto simp: signal_socket_message_def)
  have info: "own_info s j (NewPeerInfoSignal j (registered_info s j))" if "registered_info s j \<noteq> None" for j
    by (rule own_infoI [OF reachable_server [OF reach] that])
  from rel consider "(k, m) \<in> set (sendP2PSignalToClient s (sm_to signal) (signal\<lparr>sm_from := clientID\<rparr>))"
    | reason where "(k, m) \<in> set (sendP2PSignalToClient s clientID (NewFallbackSignal ''server'' clientID (sm_session signal) reason))"
    | "registered_info s (sm_to signal) \<noteq> None"
      "(k, m) \<in> set (sendP2PSignalToClient s clientID (NewPeerInfoSignal (sm_to signal) (registered_info s (sm_to signal))))"
    | "registered_info s clientID \<noteq> None"
      "(k, m) \<in> set (sendP2PSignalToClient s (sm_to signal) (NewPeerInfoSignal clientID (registered_info s clientID)))"
    by (auto simp: handleP2PSignalRelay_def Let_def split: if_splits)
  then show ?thesis
  proof cases
    case 1
    with sent_to dec show ?thesis by blast
  next
    case (2 reason)
    with sent_to have "k = clientID \<and> m = NewFallbackSignal ''server'' clientID (sm_session signal) reason" by blast
    with dec show ?thesis by (auto simp: NewFallbackSignal_def)
  next
    case 3
    with sent_to info dec show ?thesis by blast
  next
    case 4
    with sent_to info dec show ?thesis by blast
  qed
qed

definition signal_server :: server where
  "signal_server = modify 0 (\<lambda>c. c\<lparr>sc_signal := Some 3\<rparr>) example_server"

lemma signal_server_reachable: "reachable (signal_server, [Monitor 0, Reaper 0, CountUp])"
proof -
  have "gm_get (sv_clients example_server) ''alice'' = Some 0" by (simp add: example_server_def enroll_def empty_server_def)
  from reachable.step [OF example_reachable sys_signal [OF this]] show ?thesis by (simp add: signal_server_def)
qed

theorem relayed_signals_are_authentic_witness:
  "(''alice'', NewPunchSignal ''alice'' ''alice'' ''s'') \<in>
     set (signal_socket_message (\<lambda>_. Some (NewPunchSignal ''mallory'' ''alice'' ''s'')) (\<lambda>_. True) signal_server ''alice'' [1]) \<and>
   (\<exists>signal. DecodeSignal (\<lambda>_. Some (NewPunchSignal ''mallory'' ''alice'' ''s'')) (\<lambda>_. True) [1] = Inr signal)"
proof -
  let ?u = "\<lambda>_. Some (NewPunchSignal ''mallory'' ''alice'' ''s'')"
  have "DecodeSignal ?u (\<lambda>_. True) [1] = Inr (NewPunchSignal ''mallory'' ''alice'' ''s'')"
    by (simp add: DecodeSignal_def NewPunchSignal_def MaxSignalMessageSize_def MaxICECandidates_def validSignalType_def isICESignal_def)
  moreover have "gm_get (sv_clients signal_server) ''alice'' = Some 0" "sc_signal (client_at signal_server 0) = Some 3"
    by (simp_all add: signal_server_def example_server_def enroll_def empty_server_def modify_def)
  ultimately have del: "(''alice'', NewPunchSignal ''alice'' ''alice'' ''s'') \<in> set (signal_socket_message ?u (\<lambda>_. True) signal_server ''alice'' [1])"
    by (simp add: signal_socket_message_def handleP2PSignalRelay_def sendP2PSignalToClient_def NewPunchSignal_def)
  from relayed_signals_are_authentic [OF signal_server_reachable del] del show ?thesis by blast
qed

lemma listed_tokens_blank: "c \<in> set (handleP2PClients s) \<Longrightarrow> lc_info c = Some i \<Longrightarrow> pi_token i = []"
  by (auto simp: handleP2PClients_def publicPeerInfo_def Let_def)

text \<open>A socket speaks for the client its credential names.\<close>

lemma signal_socket_identity:
  "handleP2PWebSocket (Some p) s r = Inr k \<Longrightarrow> \<not> cp_legacy p \<Longrightarrow> k = cp_client p"
  by (auto simp: handleP2PWebSocket_def Let_def split: if_splits sum.splits dest: requirePrincipalClient_sound)

end
