(* ===== verification/Streams.thy ===== *)
theory Streams
  imports Server_Registry
begin

text \<open>
  The wire formats of the streams between server and client, both ends: the tunnel name that
  opens a visitor stream (\<^verbatim>\<open>handleHijackedProxyConnection\<close>, \<^verbatim>\<open>openIngressStream\<close>)
  and how the client reads it (\<^verbatim>\<open>handleMuxStream\<close>, \<^verbatim>\<open>handleQUICStream\<close>), reverse
  forwards, visitor UDP streams and frames (\<^verbatim>\<open>visitor_streams.go\<close>), the streams a client opens
  for SOCKS and UDP (\<^verbatim>\<open>handleClientInitiatedStream\<close>), and the message that associates a QUIC
  connection with a registration (\<^verbatim>\<open>auto_transport.go\<close>). A stream is the bytes its
  reader will get; \<^verbatim>\<open>io.ReadFull\<close> fails when they end early.
\<close>

definition ReadFull :: "nat \<Rightarrow> bytes \<Rightarrow> (bytes \<times> bytes) option" where
  "ReadFull n s = (if n \<le> length s then Some (take n s, drop n s) else None)"

lemma ReadFull_append [simp]: "length p = n \<Longrightarrow> ReadFull n (p @ s) = Some (p, s)"
  by (simp add: ReadFull_def)

lemma ReadFull_one [simp]: "ReadFull (Suc 0) (b # s) = Some ([b], s)"
  by (simp add: ReadFull_def)

text \<open>A length byte and that many bytes.\<close>

definition counted :: "bytes \<Rightarrow> bytes" where
  "counted p = (word_of_nat (length p) :: byte) # p"

lemma unat_length_byte [simp]: "length p \<le> 255 \<Longrightarrow> unat (word_of_nat (length p) :: byte) = length p"
  by (simp add: unat_word_ariths unsigned_of_nat take_bit_nat_eq_self)

section \<open>Visitor streams, server side\<close>

definition tunnel_header :: "server_client \<Rightarrow> string \<Rightarrow> bytes" where
  "tunnel_header c tunnelName =
     (if sc_tunnel_map c \<noteq> [] \<and> tunnelName \<noteq> [] then counted (take 255 (bytes_of tunnelName)) else [])"

text \<open>\<^verbatim>\<open>openIngressStream\<close> writes its header in every case; \<open>None\<close> is the error.\<close>

definition ingress_header :: "server_client \<Rightarrow> string \<Rightarrow> bytes option" where
  "ingress_header c name =
     (if length name > 255 then None
      else Some (counted (bytes_of (if sc_tunnel_map c = [] then [] else name))))"

definition reverse_header :: "string \<Rightarrow> bytes" where
  "reverse_header localTarget = 0xFD # counted (take 255 (bytes_of localTarget))"

definition visitor_udp_header :: "string \<Rightarrow> bytes option" where
  "visitor_udp_header name = (if name = [] \<or> length name > 255 then None else Some (0xFC # counted (bytes_of name)))"

section \<open>Visitor streams, client side\<close>

record client_tunnel =
  ct_name :: string
  ct_target :: string
  ct_webtransport :: bool
  ct_datagrams :: bool

record client_streams =
  cs_local_port :: string
  cs_tunnel_map :: "(string, string) gomap"
  cs_tunnels :: "client_tunnel list"

text \<open>What the client does with a stream: nothing, relay the rest to a local target, or exchange UDP
  frames with one.\<close>

datatype client_action = Dropped | RelayLocal string bytes | RelayReverse string bytes | RelayUDP string bytes

definition handleVisitorUDPStream :: "client_streams \<Rightarrow> bytes \<Rightarrow> client_action" where
  "handleVisitorUDPStream st s =
     (case ReadFull 1 s of
        None \<Rightarrow> Dropped
      | Some (lengthByte, s) \<Rightarrow>
          (case ReadFull (unat (hd lengthByte)) s of
             None \<Rightarrow> Dropped
           | Some (nameBytes, s) \<Rightarrow>
               let name = string_of nameBytes in
               (case gm_get (cs_tunnel_map st) name of
                  None \<Rightarrow> Dropped
                | Some target \<Rightarrow>
                    if list_ex (\<lambda>t. (ct_name t = name \<or> ct_name t = [] \<and> ct_target t = target) \<and> ct_datagrams t \<and> ct_webtransport t)
                         (cs_tunnels st)
                    then RelayUDP target s else Dropped)))"

text \<open>The part of both handlers after the markers.\<close>

definition named_tunnel :: "client_streams \<Rightarrow> byte \<Rightarrow> bytes \<Rightarrow> client_action" where
  "named_tunnel st b s =
     (if cs_tunnel_map st \<noteq> [] \<and> 0 < unat b \<and> unat b < 256 then
        (case ReadFull (unat b) s of
           None \<Rightarrow> Dropped
         | Some (nameBytes, s) \<Rightarrow>
             (case gm_get (cs_tunnel_map st) (string_of nameBytes) of
                None \<Rightarrow> Dropped
              | Some target \<Rightarrow> if target = [] then Dropped else RelayLocal target s))
      else if cs_local_port st = [] then Dropped
      else RelayLocal (cs_local_port st) s)"

definition handleMuxStream :: "client_streams \<Rightarrow> bytes \<Rightarrow> client_action" where
  "handleMuxStream st s =
     (case ReadFull 1 s of
        None \<Rightarrow> Dropped
      | Some (lenBuf, s) \<Rightarrow>
          if hd lenBuf = 0xFC then handleVisitorUDPStream st s
          else if hd lenBuf = 0xFD then
            (case ReadFull 1 s of
               None \<Rightarrow> Dropped
             | Some (targetLen, s) \<Rightarrow>
                 if unat (hd targetLen) = 0 then Dropped
                 else (case ReadFull (unat (hd targetLen)) s of
                         None \<Rightarrow> Dropped
                       | Some (target, s) \<Rightarrow> RelayReverse (string_of target) s))
          else named_tunnel st (hd lenBuf) s)"

definition handleQUICReverseForward :: "bytes \<Rightarrow> client_action" where
  "handleQUICReverseForward s =
     (case ReadFull 1 s of
        None \<Rightarrow> Dropped
      | Some (targetLen, s) \<Rightarrow>
          (case ReadFull (unat (hd targetLen)) s of
             None \<Rightarrow> Dropped
           | Some (target, s) \<Rightarrow> RelayReverse (string_of target) s))"

definition handleQUICStream :: "client_streams \<Rightarrow> bytes \<Rightarrow> client_action" where
  "handleQUICStream st s =
     (case ReadFull 1 s of
        None \<Rightarrow> Dropped
      | Some (lenBuf, s) \<Rightarrow>
          if hd lenBuf = 0xFC then handleVisitorUDPStream st s
          else if hd lenBuf = 0xFD then handleQUICReverseForward s
          else named_tunnel st (hd lenBuf) s)"

section \<open>UDP frames\<close>

definition writeUDPFrame :: "bytes \<Rightarrow> bytes option" where
  "writeUDPFrame p = (if length p > 1200 then None else Some (put16 (word_of_nat (length p)) @ p))"

definition readUDPFrame :: "bytes \<Rightarrow> (bytes \<times> bytes) option" where
  "readUDPFrame s =
     (case ReadFull 2 s of
        None \<Rightarrow> None
      | Some (h, s) \<Rightarrow>
          let n = unat (get16 h) in
          if n > 1200 then None else ReadFull n s)"

section \<open>Streams a client opens\<close>

definition dynamic_header :: "string \<Rightarrow> bytes option" where
  "dynamic_header target = (if length target = 0 \<or> length target > 255 then None else Some (0xFF # counted (bytes_of target)))"

definition udp_request :: "string \<Rightarrow> bytes \<Rightarrow> bytes option" where
  "udp_request remoteAddr data =
     (if length remoteAddr > 255 then None
      else Some (0xFE # counted (bytes_of remoteAddr) @ put16 (word_of_nat (length data)) @ data))"

text \<open>What the server does with such a stream: dial a TCP target and relay the rest, or send one datagram.\<close>

datatype egress_action = NoEgress | EgressTCP string bytes | EgressUDP string bytes

definition handleClientInitiatedStream :: "bytes \<Rightarrow> egress_action" where
  "handleClientInitiatedStream s =
     (case ReadFull 2 s of
        None \<Rightarrow> NoEgress
      | Some (header, s) \<Rightarrow>
          if header ! 0 = 0xFF then
            (if unat (header ! 1) = 0 \<or> unat (header ! 1) > 255 then NoEgress
             else (case ReadFull (unat (header ! 1)) s of
                     None \<Rightarrow> NoEgress
                   | Some (target, s) \<Rightarrow> EgressTCP (string_of target) s))
          else if header ! 0 = 0xFE then
            (if unat (header ! 1) = 0 \<or> unat (header ! 1) > 255 then NoEgress
             else (case ReadFull (unat (header ! 1)) s of
                     None \<Rightarrow> NoEgress
                   | Some (addr, s) \<Rightarrow>
                       (case ReadFull 2 s of
                          None \<Rightarrow> NoEgress
                        | Some (lenBuf, s) \<Rightarrow>
                            (case ReadFull (unat (get16 lenBuf)) s of
                               None \<Rightarrow> NoEgress
                             | Some (packet, s) \<Rightarrow> EgressUDP (string_of addr) packet))))
          else NoEgress)"

text \<open>The server's answer to a datagram, and how the client reads it.\<close>

definition udp_response :: "bytes \<Rightarrow> bytes" where
  "udp_response datagram = put16 (word_of_nat (length datagram)) @ datagram"

definition read_udp_response :: "bytes \<Rightarrow> bytes option" where
  "read_udp_response s =
     (case ReadFull 2 s of
        None \<Rightarrow> None
      | Some (h, s) \<Rightarrow> map_option fst (ReadFull (unat (get16 h)) s))"

section \<open>The two ends agree\<close>

lemma counted_read [simp]:
  "length p \<le> 255 \<Longrightarrow> ReadFull (Suc 0) (counted p @ s) = Some ([word_of_nat (length p)], p @ s)"
  by (simp add: counted_def)

lemma marker_lengths:
  "length p \<le> 255 \<Longrightarrow> (word_of_nat (length p) = (0xFC :: byte)) = (length p = 252)"
  "length p \<le> 255 \<Longrightarrow> (word_of_nat (length p) = (0xFD :: byte)) = (length p = 253)"
  by (auto simp: word_unat_eq_iff)

lemma unat_put_length [simp]: "length p < 65536 \<Longrightarrow> unat (word_of_nat (length p) :: u16) = length p"
  by (simp add: unsigned_of_nat take_bit_nat_eq_self)

lemma put16_counted [simp]: "length p < 65536 \<Longrightarrow> unat (get16 (put16 (word_of_nat (length p)))) = length p"
  by simp

lemma named_tunnel_found:
  "gm_get (cs_tunnel_map st) name = Some target \<Longrightarrow> target \<noteq> [] \<Longrightarrow> name \<noteq> [] \<Longrightarrow> length name \<le> 255 \<Longrightarrow>
     named_tunnel st (word_of_nat (length name)) (bytes_of name @ data) = RelayLocal target data"
  using unat_length_byte [of "bytes_of name"] by (auto simp: named_tunnel_def)

lemma first_byte_not_marker:
  "length (name :: string) \<le> 255 \<Longrightarrow> length name \<noteq> 252 \<Longrightarrow> length name \<noteq> 253 \<Longrightarrow>
     (word_of_nat (length name) :: byte) \<noteq> 0xFC \<and> (word_of_nat (length name) :: byte) \<noteq> 0xFD"
  using marker_lengths [of "bytes_of name"] by auto

definition example_streams :: client_streams where
  "example_streams = \<lparr>cs_local_port = [], cs_tunnel_map = [(''app'', ''localhost:80'')], cs_tunnels = []\<rparr>"

text \<open>C23. A visitor's stream reaches the tunnel it was opened for: for every tunnel name of one to 255
  bytes other than 252 and 253, the header the server writes (on the hijacked and on the
  HTTP/2 path alike) followed by any data makes the client, over yamux and over QUIC,
  relay exactly that data to the target its map gives the name.\<close>

theorem tunnel_stream_reaches_target:
  assumes "sc_tunnel_map c \<noteq> []" and "name \<noteq> []" and "length name \<le> 255" and "length name \<noteq> 252" and "length name \<noteq> 253"
    and "gm_get (cs_tunnel_map st) name = Some target" and "target \<noteq> []"
  shows "ingress_header c name = Some (tunnel_header c name) \<and>
    handleMuxStream st (tunnel_header c name @ data) = RelayLocal target data \<and>
    handleQUICStream st (tunnel_header c name @ data) = RelayLocal target data"
proof -
  have h: "tunnel_header c name = counted (bytes_of name)" using assms(1-3) by (simp add: tunnel_header_def)
  have "ingress_header c name = Some (tunnel_header c name)" using assms(1,3) h by (simp add: ingress_header_def)
  then show ?thesis using first_byte_not_marker [OF assms(3-5)] named_tunnel_found [OF assms(6,7,2,3)]
      counted_read [of "bytes_of name" data] assms(3) unfolding h
    by (simp add: handleMuxStream_def handleQUICStream_def)
qed

theorem tunnel_stream_reaches_target_witness:
  "handleMuxStream example_streams (tunnel_header ((restored_client [] \<lparr>sd_udid = [], sd_activity = 0, sd_type = [], sd_registered = True\<rparr>)
     \<lparr>sc_tunnel_map := [(''app'', ''localhost:80'')]\<rparr>) ''app'' @ [71, 69, 84]) = RelayLocal ''localhost:80'' [71, 69, 84]"
  using tunnel_stream_reaches_target [of "(restored_client [] \<lparr>sd_udid = [], sd_activity = 0, sd_type = [], sd_registered = True\<rparr>)
     \<lparr>sc_tunnel_map := [(''app'', ''localhost:80'')]\<rparr>" "''app''" example_streams "''localhost:80''" "[71, 69, 84]"]
  by (simp add: example_streams_def)

lemma dynamic_stream_read: "dynamic_header target = Some h \<Longrightarrow> handleClientInitiatedStream (h @ data) = EgressTCP target data"
proof -
  assume "dynamic_header target = Some h"
  then have h: "h = 0xFF # counted (bytes_of target)" and len: "0 < length target" "length target \<le> 255"
    by (auto simp: dynamic_header_def split: if_splits)
  have two: "ReadFull 2 (h @ data) = Some ([0xFF, word_of_nat (length target)], bytes_of target @ data)"
    by (simp add: h counted_def ReadFull_def)
  show ?thesis using len unat_length_byte [of "bytes_of target"] by (simp add: handleClientInitiatedStream_def two)
qed

text \<open>The two lengths left out collide with the stream markers: a name of 253 bytes is read as a
  reverse forward to a target spelled by the name itself, one of 252 bytes as a UDP stream.\<close>

lemma name_of_253_bytes_is_a_reverse_forward:
  assumes "length name = 253" and "sc_tunnel_map c \<noteq> []" and "unat (bytes_of name ! 0) = k" and "0 < k" and "k < 253"
  shows "handleMuxStream st (tunnel_header c name @ data) =
    RelayReverse (string_of (take k (tl (bytes_of name)))) (drop k (tl (bytes_of name)) @ data)"
proof -
  obtain b bs where b: "bytes_of name = b # bs" using assms(1) by (cases "bytes_of name") (auto dest: arg_cong [of _ _ length])
  have len: "length bs = 252" using assms(1) b length_bytes_of [of name] by simp
  have "tunnel_header c name = 0xFD # b # bs"
    using assms(1,2) b len by (auto simp: tunnel_header_def counted_def)
  with assms(3-5) b len show ?thesis by (simp add: handleMuxStream_def ReadFull_def)
qed

text \<open>The streams a client opens are understood by the server and back: a SOCKS or stdio
  target, a UDP request with its datagram, the answer to it, and the frames of visitor UDP
  streams are read exactly as they were written, whatever follows on the stream.\<close>

theorem client_streams_roundtrip:
  "(dynamic_header target = Some h \<longrightarrow> handleClientInitiatedStream (h @ data) = EgressTCP target data) \<and>
   (udp_request addr packet = Some u \<and> addr \<noteq> [] \<and> length packet < 65536 \<longrightarrow>
      handleClientInitiatedStream (u @ data) = EgressUDP addr packet) \<and>
   (length datagram < 65536 \<longrightarrow> read_udp_response (udp_response datagram @ data) = Some datagram) \<and>
   (writeUDPFrame frame = Some f \<longrightarrow> readUDPFrame (f @ data) = Some (frame, data))"
proof (intro conjI impI)
  assume "dynamic_header target = Some h"
  then show "handleClientInitiatedStream (h @ data) = EgressTCP target data" by (rule dynamic_stream_read)
next
  assume a: "udp_request addr packet = Some u \<and> addr \<noteq> [] \<and> length packet < 65536"
  then have u: "u = 0xFE # counted (bytes_of addr) @ put16 (word_of_nat (length packet)) @ packet" and len: "length addr \<le> 255"
    by (auto simp: udp_request_def split: if_splits)
  have two: "ReadFull 2 (u @ data) =
      Some ([0xFE, word_of_nat (length addr)], bytes_of addr @ put16 (word_of_nat (length packet)) @ packet @ data)"
    by (simp add: u counted_def ReadFull_def)
  show "handleClientInitiatedStream (u @ data) = EgressUDP addr packet"
    using a len unat_length_byte [of "bytes_of addr"] by (simp add: handleClientInitiatedStream_def two)
next
  assume "length datagram < 65536"
  then show "read_udp_response (udp_response datagram @ data) = Some datagram"
    by (simp add: read_udp_response_def udp_response_def)
next
  assume "writeUDPFrame frame = Some f"
  then show "readUDPFrame (f @ data) = Some (frame, data)"
    by (auto simp: writeUDPFrame_def readUDPFrame_def split: if_splits)
qed

theorem client_streams_roundtrip_witness:
  "handleClientInitiatedStream ((0xFF # counted (bytes_of ''db:5432'')) @ [1]) = EgressTCP ''db:5432'' [1] \<and>
   readUDPFrame ([0, 2, 7, 9] @ [3]) = Some ([7, 9], [3])"
proof -
  have "dynamic_header ''db:5432'' = Some (0xFF # counted (bytes_of ''db:5432''))" by (simp add: dynamic_header_def)
  moreover have "writeUDPFrame [7, 9] = Some [0, 2, 7, 9]" by code_simp
  ultimately show ?thesis
    using client_streams_roundtrip [of "''db:5432''" "0xFF # counted (bytes_of ''db:5432'')" "[1]" "[]" "[]" "[]" "[]" "[7, 9]" "[0, 2, 7, 9]"]
      client_streams_roundtrip [of "''db:5432''" "0xFF # counted (bytes_of ''db:5432'')" "[3]" "[]" "[]" "[]" "[]" "[7, 9]" "[0, 2, 7, 9]"]
    by simp
qed

section \<open>Associating a QUIC connection\<close>

text \<open>\<^verbatim>\<open>string(b)\<close> of a byte is the UTF-8 form of that code point: two bytes from 128 on.\<close>

definition string_of_byte :: "char \<Rightarrow> string" where
  "string_of_byte b =
     (let n = (of_char b :: nat) in if n < 128 then [b] else [char_of (192 + n div 64), char_of (128 + n mod 64)])"

definition association_message :: "string \<Rightarrow> string \<Rightarrow> string" where
  "association_message clientID token = ''XROK2:'' @ clientID @ '':'' @ token @ [LF]"

fun association_prefix :: "string \<Rightarrow> string \<Rightarrow> (string \<times> string) option" where
  "association_prefix message [] = (if length message < 6 \<and> has_prefix message ''XROK2:'' then None else Some (message, []))"
| "association_prefix message (b # rest) =
     (if length message < 6 \<and> has_prefix message ''XROK2:'' then association_prefix (message @ string_of_byte b) rest
      else Some (message, b # rest))"

fun association_line :: "string \<Rightarrow> string \<Rightarrow> string option" where
  "association_line message [] = (if length message < 1024 then None else Some message)"
| "association_line message (b # rest) =
     (if length message < 1024 then
        (if b = LF then Some (message @ string_of_byte b) else association_line (message @ string_of_byte b) rest)
      else Some message)"

text \<open>\<open>Inl v2\<close> is an error, with the version flag that accompanies it.\<close>

definition association_fields :: "bool \<Rightarrow> string \<Rightarrow> bool + string \<times> string \<times> bool" where
  "association_fields v2 message =
     (case cut_at (CHR '':'') message of
        None \<Rightarrow> Inl v2
      | Some (tag, rest) \<Rightarrow>
          (case cut_at (CHR '':'') rest of
             None \<Rightarrow> Inl v2
           | Some (clientID, token) \<Rightarrow>
               if clientID = [] \<or> token = [] \<or> \<not> v2 \<and> tag \<noteq> ''XROK'' then Inl v2 else Inr (clientID, token, v2)))"

definition parseQUICAssociation :: "string \<Rightarrow> string \<Rightarrow> bool + string \<times> string \<times> bool" where
  "parseQUICAssociation first remaining =
     (case association_prefix first remaining of
        None \<Rightarrow> Inl True
      | Some (message, remaining) \<Rightarrow>
          let v2 = has_prefix ''XROK2:'' message in
          if \<not> v2 then association_fields False message
          else (case (if LF \<in> set message then Some message else association_line message remaining) of
                  None \<Rightarrow> Inl True
                | Some message \<Rightarrow>
                    if message = [] \<or> last message \<noteq> LF \<or> length message > 1024 then Inl True
                    else association_fields True (butlast message)))"

definition ascii :: "string \<Rightarrow> bool" where "ascii s \<longleftrightarrow> (\<forall>c \<in> set s. (of_char c :: nat) < 128)"

lemma string_of_byte_ascii [simp]: "(of_char b :: nat) < 128 \<Longrightarrow> string_of_byte b = [b]"
  by (simp add: string_of_byte_def)

lemma has_prefix_iff: "has_prefix p s \<longleftrightarrow> (\<exists>t. s = p @ t)"
  unfolding has_prefix_def by (metis append_eq_conv_conj)

lemma association_prefix_ascii:
  assumes "ascii rest" and "m @ rest = ''XROK2:'' @ w"
  shows "\<exists>m' rest'. association_prefix m rest = Some (m', rest') \<and> m' @ rest' = ''XROK2:'' @ w \<and> length m' \<ge> 6 \<and> ascii rest'"
  using assms
proof (induction m rest rule: association_prefix.induct)
  case (1 m)
  then show ?case by (auto simp: ascii_def)
next
  case (2 m b rest)
  show ?case
  proof (cases "length m < 6 \<and> has_prefix m ''XROK2:''")
    case True
    with 2 show ?thesis by (simp add: ascii_def)
  next
    case False
    have "has_prefix m ''XROK2:''" if "length m < 6"
    proof -
      have "take (length m) (''XROK2:'' @ w) = m" by (metis "2.prems"(2) append_eq_conv_conj)
      moreover have "take (length m) (''XROK2:'' @ w) = take (length m) ''XROK2:''"
        using that by (subst take_append) simp
      ultimately show ?thesis by (simp add: has_prefix_def)
    qed
    with False have "6 \<le> length m" by (meson not_less)
    with False 2 show ?thesis by (intro exI [of _ m] exI [of _ "b # rest"]) simp
  qed
qed

lemma association_line_ascii:
  "ascii l \<Longrightarrow> LF \<notin> set l \<Longrightarrow> length m + length l < 1024 \<Longrightarrow> association_line m (l @ LF # rest) = Some (m @ l @ [LF])"
  by (induction l arbitrary: m) (auto simp: ascii_def)

lemma association_fields_ok:
  "clientID \<noteq> [] \<Longrightarrow> token \<noteq> [] \<Longrightarrow> CHR '':'' \<notin> set clientID \<Longrightarrow>
     association_fields True (''XROK2:'' @ clientID @ '':'' @ token) = Inr (clientID, token, True)"
  by (simp add: association_fields_def)

text \<open>A QUIC connection is associated with the registration the client named, however the
  network cuts the message up: for an ASCII client ID without colon or line feed and an ASCII token
  without line feed, both non-empty and within the size limit, every division of the client's
  message into what the first read returns and what is read afterwards parses to that ID and token.\<close>

theorem quic_association_any_split:
  assumes "first @ rest = association_message clientID token" and "ascii (clientID @ token)"
    and "clientID \<noteq> []" and "token \<noteq> []" and "CHR '':'' \<notin> set clientID" and "LF \<notin> set clientID" and "LF \<notin> set token"
    and "length (association_message clientID token) \<le> 1024"
  shows "parseQUICAssociation first rest = Inr (clientID, token, True)"
proof -
  let ?body = "''XROK2:'' @ clientID @ '':'' @ token"
  have msg: "association_message clientID token = ?body @ [LF]" by (simp add: association_message_def)
  have as: "ascii (?body @ [LF])" and nl: "LF \<notin> set ?body" using assms(2,6,7) by (auto simp: ascii_def)
  have "ascii rest" using as assms(1) unfolding msg ascii_def by (metis UnCI set_append)
  moreover have "first @ rest = ''XROK2:'' @ clientID @ '':'' @ token @ [LF]" using assms(1) by (simp add: association_message_def)
  ultimately obtain m l where ml: "association_prefix first rest = Some (m, l)" "m @ l = ?body @ [LF]" "6 \<le> length m" "ascii l"
    using association_prefix_ascii [of rest first "clientID @ '':'' @ token @ [LF]"] by auto
  have v2: "has_prefix ''XROK2:'' m"
  proof -
    have "take 6 m = take 6 (?body @ [LF])" using ml(2,3) by (metis take_append diff_is_0_eq take0 append_Nil2)
    then show ?thesis by (simp add: has_prefix_def eval_nat_numeral)
  qed
  have whole: "(if LF \<in> set m then Some m else association_line m l) = Some (?body @ [LF])"
  proof (cases "l = []")
    case True
    with ml(2) show ?thesis by (metis append_Nil2 in_set_conv_decomp)
  next
    case False
    then obtain l' where l': "l = l' @ [LF]" and m: "m @ l' = ?body"
      using ml(2) by (metis append_assoc append_same_eq butlast_append butlast_snoc append_butlast_last_id last_appendR last_snoc)
    then have "LF \<notin> set m" "LF \<notin> set l'" using nl by (metis UnCI set_append)+
    moreover have "length m + length l' < 1024" using assms(8) m unfolding msg by (metis length_append length_append_singleton Suc_le_lessD)
    moreover have "ascii l'" using ml(4) l' by (simp add: ascii_def)
    ultimately have "association_line m (l' @ [LF]) = Some (m @ l' @ [LF])" by (simp add: association_line_ascii)
    with \<open>LF \<notin> set m\<close> show ?thesis unfolding l' by (simp add: m [symmetric] del: append.simps)
  qed
  have "parseQUICAssociation first rest =
      (if length (?body @ [LF]) > 1024 then Inl True else association_fields True ?body)"
    unfolding parseQUICAssociation_def ml(1) option.case prod.case Let_def whole
    using v2 by (simp del: append.simps append_assoc)
  also have "\<dots> = association_fields True ?body" using assms(8) unfolding msg by simp
  also have "\<dots> = Inr (clientID, token, True)" by (rule association_fields_ok [OF assms(3-5)])
  finally show ?thesis .
qed

theorem quic_association_any_split_witness:
  "parseQUICAssociation ''XRO'' ([CHR ''K'', CHR ''2''] @ '':a:t'' @ [LF]) = Inr (''a'', ''t'', True)"
  using quic_association_any_split [of "''XRO''" "[CHR ''K'', CHR ''2''] @ '':a:t'' @ [LF]" "''a''" "''t''"]
  by (simp add: association_message_def ascii_def)

text \<open>A client ID with a byte above 127 is changed when that byte is read after the first read: the byte is
  appended as the UTF-8 form of a code point. The same message in one read parses correctly.\<close>

lemma association_changes_non_ascii:
  "parseQUICAssociation ''XROK2:'' ([CHR 0xE9] @ '':t'' @ [LF]) = Inr ([CHR 0xC3, CHR 0xA9], ''t'', True) \<and>
   parseQUICAssociation (''XROK2:'' @ [CHR 0xE9] @ '':t'' @ [LF]) [] = Inr ([CHR 0xE9], ''t'', True)"
  by code_simp

end
