(* ===== verification/Jwt_Policy.thy ===== *)
theory Jwt_Policy
  imports Http
begin

text \<open>
  \<^verbatim>\<open>jwt_policy.go\<close>: the HS256 tokens that open a tunnel guarded by a capability, and the
  OIDC verifier with its cache of the issuer's keys. HMAC-SHA256, SHA-256 with PKCS1v15, the JSON
  decoder and the HTTP client are arguments.
\<close>

section \<open>Unpadded base64url\<close>

definition base64url_value :: "char \<Rightarrow> nat option" where
  "base64url_value c = index_in c base64url_alphabet"

fun raw_quanta :: "nat list \<Rightarrow> string option" where
  "raw_quanta [] = Some []"
| "raw_quanta [i] = None"
| "raw_quanta [i, j] = Some [octet (i * 4 + j div 16)]"
| "raw_quanta [i, j, k] = Some [octet (i * 4 + j div 16), octet (j * 16 + k div 4)]"
| "raw_quanta (i # j # k # l # s) =
     map_option (\<lambda>r. octet (i * 4 + j div 16) # octet (j * 16 + k div 4) # octet (k * 64 + l) # r) (raw_quanta s)"

definition raw_url_decode :: "string \<Rightarrow> string option" where
  "raw_url_decode s =
     (let vs = map base64url_value (filter (\<lambda>c. c \<noteq> CR \<and> c \<noteq> LF) s) in
      if None \<in> set vs then None else raw_quanta (map the vs))"

section \<open>Claims\<close>

datatype audience = AudString string | AudList "string option list" \<comment> \<open>\<open>None\<close>: an element that is not a string\<close> | AudOther

record claims =
  cl_exp :: int
  cl_nbf :: int
  cl_iss :: string
  cl_aud :: audience

record token_header =
  th_alg :: string
  th_kid :: string

record token_codec =
  decode_header :: "string \<Rightarrow> token_header option"
  decode_claims :: "string \<Rightarrow> claims option"

definition maxJWTSize :: nat where "maxJWTSize = 16 * 1024"

definition audience_ok :: "string \<Rightarrow> audience \<Rightarrow> bool" where
  "audience_ok want aud =
     (want = [] \<or>
      (case aud of
         AudString a \<Rightarrow> a = want
       | AudList vs \<Rightarrow> list_ex (\<lambda>v. v = Some want) vs
       | AudOther \<Rightarrow> False))"

definition time_ok :: "int \<Rightarrow> claims \<Rightarrow> bool" where
  "time_ok ts c \<longleftrightarrow> \<not> (cl_exp c = 0 \<or> ts \<ge> cl_exp c \<or> cl_nbf c > 0 \<and> ts < cl_nbf c)"

definition unix :: "time \<Rightarrow> int" where "unix now = now div second"

section \<open>HS256 capabilities\<close>

definition verifyJWTCapability ::
  "token_codec \<Rightarrow> (string \<Rightarrow> string \<Rightarrow> string) \<Rightarrow> string \<Rightarrow> string \<Rightarrow> string \<Rightarrow> time \<Rightarrow> bool" where
  "verifyJWTCapability codec hmac token secret audience now =
     (if length token = 0 \<or> length token > maxJWTSize then False
      else
        (case split_on (CHR ''.'') token of
           [p0, p1, p2] \<Rightarrow>
             if secret = [] then False
             else (case Option.bind (raw_url_decode p0) (decode_header codec) of
                     None \<Rightarrow> False
                   | Some h \<Rightarrow>
                       if th_alg h \<noteq> ''HS256'' then False
                       else if raw_url_decode p2 \<noteq> Some (hmac secret (p0 @ ''.'' @ p1)) then False
                       else (case Option.bind (raw_url_decode p1) (decode_claims codec) of
                               None \<Rightarrow> False
                             | Some c \<Rightarrow> time_ok (unix now) c \<and> audience_ok audience (cl_aud c)))
         | _ \<Rightarrow> False))"

section \<open>The OIDC verifier\<close>

















section \<open>The key cache\<close>























end
