(* ===== verification/Visitor_Proxy.thy ===== *)
theory Visitor_Proxy
  imports Streams Jwt_Policy
begin

text \<open>
  The way of a visitor's request through the server: the unified handler of
  \<^verbatim>\<open>waitForProxyConnectionTLS\<close> (control plane or tunnel, capability check), the
  HTTP/1 path (\<^verbatim>\<open>handleHijackedProxyConnection\<close> with Basic Auth, header injection, the rebuilt
  request and protocol upgrades) and the admission of the HTTP/2 path
  (\<^verbatim>\<open>serveHTTP2Tunnel\<close>, whose request rewriting is \<^verbatim>\<open>net/http/httputil\<close>'s).
\<close>

section \<open>Basic Auth and header injection\<close>

definition is_authorization :: "string \<Rightarrow> bool" where
  "is_authorization l = has_prefix ''authorization:'' (to_lower l)"

definition verifyBasicAuth :: "string \<Rightarrow> string \<Rightarrow> bool" where
  "verifyBasicAuth requestData expectedAuth =
     (if expectedAuth = [] then True
      else (case List.find is_authorization (split_crlf requestData) of
              None \<Rightarrow> False
            | Some l \<Rightarrow>
                let authHeader = trim_space (drop 14 l) in
                has_prefix ''Basic '' authHeader \<and> base64_decode (drop 6 authHeader) = Some expectedAuth))"

definition header_key :: "string \<Rightarrow> string" where "header_key k = to_lower (trim_space k)"

definition blocked_line :: "(string, string) gomap \<Rightarrow> string \<Rightarrow> bool" where
  "blocked_line headers l =
     (case cut_at (CHR '':'') l of
        None \<Rightarrow> False
      | Some (name, _) \<Rightarrow> header_key name \<in> (header_key \<circ> fst) ` set headers)"

text \<open>The loop over the lines after the first: header lines up to the first blank one are filtered.\<close>

fun filter_head :: "(string, string) gomap \<Rightarrow> string list \<Rightarrow> string list" where
  "filter_head headers [] = []"
| "filter_head headers (l # ls) =
     (if l = [] then l # ls
      else if blocked_line headers l then filter_head headers ls
      else l # filter_head headers ls)"

definition header_lines :: "(string, string) gomap \<Rightarrow> string list" where
  "header_lines headers = map (\<lambda>(k, v). k @ '': '' @ v) headers"

text \<open>The lines go in after the first CRLF of the filtered text; when it has none,
  \<^verbatim>\<open>strings.Index\<close> is -1 and they go in after the first byte.\<close>

definition insert_after_first_line :: "string list \<Rightarrow> string \<Rightarrow> string" where
  "insert_after_first_line ls text =
     (let headerStr = concat (map (\<lambda>l. l @ CRLF) ls); first = hd (split_crlf text) in
      if tl (split_crlf text) = [] then take 1 text @ headerStr @ drop 1 text
      else first @ CRLF @ headerStr @ drop (length first + 2) text)"

definition injectHeaders :: "string \<Rightarrow> (string, string) gomap \<Rightarrow> string" where
  "injectHeaders requestData headers =
     (if headers = [] then requestData
      else (case split_crlf requestData of
              first # rest \<Rightarrow>
                if rest = [] then requestData
                else insert_after_first_line (header_lines headers) (join_crlf (first # filter_head headers rest))
            | [] \<Rightarrow> requestData))"

section \<open>The rebuilt request\<close>

definition isUpgradeRequest :: "http_request \<Rightarrow> bool" where
  "isUpgradeRequest r =
     (if header_get (rq_header r) ''Upgrade'' = [] \<or> rq_length r \<noteq> 0 \<or> length (rq_transfer r) > 0 then False
      else list_ex (\<lambda>v. list_ex (\<lambda>token. equal_fold (trim_space token) ''upgrade'') (split_on (CHR '','') v))
             (header_values (rq_header r) ''Connection''))"

definition dropped_header :: "string \<Rightarrow> bool" where
  "dropped_header key \<longleftrightarrow> equal_fold key ''Connection'' \<or> equal_fold key ''Proxy-Connection'' \<or>
     key = ''X-Forwarded-For'' \<or> key = ''X-Real-Ip'' \<or> key = ''X-Forwarded-Proto'' \<or> key = ''X-Forwarded-Host''"

fun join_comma :: "string list \<Rightarrow> string" where
  "join_comma [] = []"
| "join_comma [v] = v"
| "join_comma (v # w # vs) = v @ '', '' @ join_comma (w # vs)"

definition forwarded_for :: "http_request \<Rightarrow> string \<Rightarrow> string" where
  "forwarded_for r clientIP =
     (let prior = header_values (rq_header r) ''X-Forwarded-For'' in
      if length prior > 0 then join_comma prior @ '', '' @ clientIP else clientIP)"

definition request_lines :: "http_request \<Rightarrow> string \<Rightarrow> string list" where
  "request_lines r clientIP =
     [rq_method r @ '' '' @ rq_uri r @ '' '' @ rq_proto r] @
     (if rq_host r \<noteq> [] then [''Host: '' @ rq_host r] else []) @
     concat (map (\<lambda>(key, values). if dropped_header key then [] else map (\<lambda>v. key @ '': '' @ v) values) (rq_header r)) @
     [''X-Forwarded-For: '' @ forwarded_for r clientIP, ''X-Real-IP: '' @ clientIP, ''X-Forwarded-Proto: https''] @
     (if rq_host r \<noteq> [] then [''X-Forwarded-Host: '' @ rq_host r] else []) @
     [if isUpgradeRequest r then ''Connection: Upgrade'' else ''Connection: close'']"

definition request_head :: "http_request \<Rightarrow> string \<Rightarrow> string" where
  "request_head r clientIP = join_crlf (request_lines r clientIP) @ CRLF @ CRLF"

section \<open>Protocol upgrades\<close>

record upstream_response =
  ur_status :: nat
  ur_head :: string
  ur_final :: string \<comment> \<open>as written with \<^verbatim>\<open>Connection: close\<close>\<close>

definition maxInformationalResponses :: nat where "maxInformationalResponses = 8"

text \<open>The loop of \<^verbatim>\<open>relayUpgradeResponse\<close>, \<open>n\<close> responses left: what the visitor is sent, and whether the
  socket becomes a pipe. \<open>writable\<close> tells which of the writes to the visitor succeed.\<close>

fun relay_responses :: "(nat \<Rightarrow> bool) \<Rightarrow> nat \<Rightarrow> nat \<Rightarrow> string \<Rightarrow> upstream_response list \<Rightarrow> string \<times> bool" where
  "relay_responses writable i 0 early rs = ([], False)"
| "relay_responses writable i (Suc n) early [] = ([], False)"
| "relay_responses writable i (Suc n) early (r # rs) =
     (if ur_status r = 101 then
        (if \<not> writable i then ([], False)
         else if \<not> writable (Suc i) then (ur_head r, False)
         else (ur_head r @ early, True))
      else if 100 \<le> ur_status r \<and> ur_status r < 200 then
        (if \<not> writable i then ([], False)
         else (let (w, ok) = relay_responses writable (Suc i) n early rs in (ur_head r @ w, ok)))
      else (if writable i then ur_final r else [], False))"

definition relayUpgradeResponse :: "(nat \<Rightarrow> bool) \<Rightarrow> string \<Rightarrow> upstream_response list \<Rightarrow> string \<times> bool" where
  "relayUpgradeResponse writable early rs = relay_responses writable 0 (Suc maxInformationalResponses) early rs"

text \<open>What reaches the visitor and the upstream, and whether the pipe opens.\<close>

definition completeUpgrade :: "(nat \<Rightarrow> bool) \<Rightarrow> bool \<Rightarrow> string \<Rightarrow> upstream_response list \<Rightarrow> string \<Rightarrow> string \<times> string \<times> bool" where
  "completeUpgrade writable upstream_ok early rs afterUpgrade =
     (let (w, ok) = relayUpgradeResponse writable early rs in
      if \<not> ok then (w, [], False)
      else if length afterUpgrade > 0 then (if upstream_ok then (w, afterUpgrade, True) else (w, [], False))
      else (w, [], True))"

section \<open>The HTTP/1 path\<close>

definition unauthorized_response :: string where
  "unauthorized_response = join_crlf [''HTTP/1.1 401 Unauthorized'', ''WWW-Authenticate: Basic realm='' @ [CHR 0x22] @ ''Protected'' @ [CHR 0x22],
     ''Content-Type: text/plain'', ''Content-Length: 12'', ''Connection: close'', [], ''Unauthorized'']"

text \<open>What the handler does: answers the visitor itself, or opens a stream to the client with a header
  and the request, holding back what an upgrade may still carry, or finds no connection.\<close>

datatype proxy_action = Answer string | ToClient bytes string string bool | NoConnection

definition visitor_ip :: "string \<Rightarrow> string" where
  "visitor_ip remote = (case SplitHostPort remote of Some (host, _) \<Rightarrow> host | None \<Rightarrow> remote)"

definition connected :: "link list \<Rightarrow> server_client \<Rightarrow> bool" where
  "connected closed c \<longleftrightarrow> (case sc_mux c of Some l \<Rightarrow> l \<notin> set closed | None \<Rightarrow> False) \<or> sc_quic c \<noteq> None"

definition handleHijackedProxyConnection ::
  "link list \<Rightarrow> server_client \<Rightarrow> http_request \<Rightarrow> string \<Rightarrow> string \<Rightarrow> string \<Rightarrow> (string, string) gomap \<Rightarrow> proxy_action" where
  "handleHijackedProxyConnection closed c r buffered tunnelName basicAuth customHeaders =
     (let clientIP = visitor_ip (rq_remote r);
          upgrade = isUpgradeRequest r;
          initialData = request_head r clientIP @ (if upgrade then [] else buffered);
          afterUpgrade = (if upgrade then buffered else [])
      in if basicAuth \<noteq> [] \<and> \<not> verifyBasicAuth initialData basicAuth then Answer unauthorized_response
         else let initialData = (if length customHeaders > 0 then injectHeaders initialData customHeaders else initialData) in
              if connected closed c then ToClient (tunnel_header c tunnelName) initialData afterUpgrade upgrade
              else NoConnection)"

section \<open>The HTTP/2 path\<close>

text \<open>\<^verbatim>\<open>r.BasicAuth()\<close>: the scheme is compared without case, the credentials must contain a colon.\<close>

definition request_basic_auth :: "http_request \<Rightarrow> string option" where
  "request_basic_auth r =
     (let auth = header_get (rq_header r) ''Authorization'' in
      if length auth < 6 \<or> \<not> equal_fold (take 6 auth) ''Basic '' then None
      else (case base64_decode (drop 6 auth) of
              None \<Rightarrow> None
            | Some cs \<Rightarrow> if CHR '':'' \<in> set cs then Some cs else None))"

definition isGRPCRequest :: "http_request \<Rightarrow> bool" where
  "isGRPCRequest r =
     (let ct = trim_space (hd (split_on (CHR '';'') (to_lower (header_get (rq_header r) ''Content-Type'')))) in
      ct = ''application/grpc'' \<or> has_prefix ''application/grpc+'' ct)"

text \<open>The error handler of the reverse proxy: a gRPC caller gets status 14 in the trailer of a 200 response.\<close>

definition tunnel_unavailable :: "http_request \<Rightarrow> proxy_action" where
  "tunnel_unavailable r = Answer (if isGRPCRequest r then ''200, Grpc-Status: 14'' else ''502'')"

definition serveHTTP2Tunnel :: "link list \<Rightarrow> server_client \<Rightarrow> http_request \<Rightarrow> string \<Rightarrow> string \<Rightarrow> proxy_action" where
  "serveHTTP2Tunnel closed c r name basicAuth =
     (if basicAuth \<noteq> [] \<and> request_basic_auth r \<noteq> Some basicAuth then Answer ''401''
      else if \<not> connected closed c then tunnel_unavailable r
      else (case ingress_header c name of
              None \<Rightarrow> tunnel_unavailable r
            | Some h \<Rightarrow> ToClient h [] [] False))"

section \<open>The unified handler\<close>

datatype endpoint =
    EpRegister | EpGone | EpTunnel | EpSignal | EpSignalSocket | EpClients | EpDiscover | EpOwner
  | EpHealth | EpReady | EpStats | EpStatus | EpMetrics | EpNotFound

definition control_endpoint :: "string \<Rightarrow> endpoint" where
  "control_endpoint path =
     (if path = ''/register_client'' then EpRegister
      else if path = ''/client_ws'' \<or> path = ''/mux'' \<or> path = ''/ws'' then EpGone
      else if path = ''/v2/tunnel'' \<or> path = ''/v2/tunnel/ws'' then EpTunnel
      else if path = ''/p2p/signal'' then EpSignal
      else if path = ''/p2p/ws'' then EpSignalSocket
      else if path = ''/p2p/clients'' then EpClients
      else if path = ''/p2p/discover'' then EpDiscover
      else if path = ''/p2p/tunnel-owner'' then EpOwner
      else if path = ''/health'' then EpHealth
      else if path = ''/ready'' then EpReady
      else if path = ''/stats'' then EpStats
      else if path = ''/status'' then EpStatus
      else if path = ''/metrics'' then EpMetrics
      else EpNotFound)"

fun endpoint_scope :: "endpoint \<Rightarrow> string option" where
  "endpoint_scope EpRegister = Some scopeClient"
| "endpoint_scope EpSignal = Some scopeP2PSignal"
| "endpoint_scope EpSignalSocket = Some scopeP2PSignal"
| "endpoint_scope EpClients = Some scopeP2PRead"
| "endpoint_scope EpDiscover = Some scopeP2PAdmin"
| "endpoint_scope EpOwner = Some scopeP2PRead"
| "endpoint_scope EpStatus = Some scopeAdmin"
| "endpoint_scope EpMetrics = Some scopeAdmin"
| "endpoint_scope e = None"

definition request_host :: "http_request \<Rightarrow> string" where
  "request_host r = (case SplitHostPort (rq_host r) of Some (h, _) \<Rightarrow> h | None \<Rightarrow> rq_host r)"

definition trim_brackets :: "string \<Rightarrow> string" where
  "trim_brackets s = (let p = (\<lambda>c. c = CHR ''['' \<or> c = CHR '']'') in rev (dropWhile p (rev (dropWhile p s))))"

datatype decision = Refused status | Control endpoint "control_principal option" | Tunnel handle string string "(string, string) gomap"

definition control_plane :: "control_config \<Rightarrow> http_request \<Rightarrow> decision" where
  "control_plane cf r =
     (if \<not> controlClientCertAccepted cf r then Refused 403
      else (case endpoint_scope (control_endpoint (rq_path r)) of
              None \<Rightarrow> Control (control_endpoint (rq_path r)) None
            | Some scope \<Rightarrow>
                (case serverAuthScopeMiddleware cf scope r of
                   Inl e \<Rightarrow> Refused e
                 | Inr p \<Rightarrow> Control (control_endpoint (rq_path r)) (Some p))))"

definition provided_capability :: "http_request \<Rightarrow> string" where
  "provided_capability r =
     (let provided = header_get (rq_header r) ''X-Xrok-Capability'' in
      if provided = [] then trim_prefix ''Bearer '' (header_get (rq_header r) ''Authorization'') else provided)"

definition capability_ok :: "token_codec \<Rightarrow> (string \<Rightarrow> string \<Rightarrow> string) \<Rightarrow> time \<Rightarrow> tunnel_route \<Rightarrow> http_request \<Rightarrow> bool" where
  "capability_ok codec hmac now route r =
     (let provided = provided_capability r in
      if tr_capability route = [] then True
      else provided = tr_capability route \<or>
           length (filter (\<lambda>c. c = CHR ''.'') provided) = 2 \<and>
             verifyJWTCapability codec hmac provided (tr_capability route) (tr_audience route) now)"

definition unified_handler ::
  "control_config \<Rightarrow> token_codec \<Rightarrow> (string \<Rightarrow> string \<Rightarrow> string) \<Rightarrow> time \<Rightarrow> server \<Rightarrow> http_request \<Rightarrow> decision" where
  "unified_handler cf codec hmac now s r =
     (let host = request_host r in
      if host = cf_domain cf \<or> ParseIP (trim_brackets host) then control_plane cf r
      else
        (let subdomain = extractServerClientIDFromHost host in
         if subdomain = [] then Refused 400
         else
           (case resolveServerTunnel s subdomain of
              (None, _, _) \<Rightarrow> Refused 502
            | (Some h, None, tunnelName) \<Rightarrow> Tunnel h tunnelName [] []
            | (Some h, Some route, tunnelName) \<Rightarrow>
                if capability_ok codec hmac now route r then Tunnel h tunnelName (tr_basic_auth route) (tr_headers route)
                else Refused 403)))"

text \<open>A tunnel request served to the end of its admission.\<close>

definition serve_visitor ::
  "control_config \<Rightarrow> token_codec \<Rightarrow> (string \<Rightarrow> string \<Rightarrow> string) \<Rightarrow> time \<Rightarrow> server \<Rightarrow> http_request \<Rightarrow> string \<Rightarrow> (handle \<times> proxy_action) option" where
  "serve_visitor cf codec hmac now s r buffered =
     (case unified_handler cf codec hmac now s r of
        Tunnel h tunnelName basicAuth headers \<Rightarrow>
          Some (h, if rq_proto_major r = 2 then serveHTTP2Tunnel (sv_closed s) (client_at s h) r tunnelName basicAuth
                   else handleHijackedProxyConnection (sv_closed s) (client_at s h) r buffered tunnelName basicAuth headers)
      | _ \<Rightarrow> None)"

section \<open>Policy headers\<close>

lemma filter_head_append:
  "\<forall>l \<in> set hs. l \<noteq> [] \<Longrightarrow> filter_head headers (hs @ [] # ls) = filter (\<lambda>l. \<not> blocked_line headers l) hs @ [] # ls"
  by (induction hs) auto

lemma split_head:
  "hs \<noteq> [] \<Longrightarrow> \<forall>l \<in> set hs. CR \<notin> set l \<Longrightarrow> split_crlf (join_crlf hs @ CRLF @ CRLF @ body) = hs @ [] # split_crlf body"
proof (induction hs rule: join_crlf.induct)
  case (2 l)
  then show ?case using split_crlf_append [of l "CRLF @ body"] split_crlf_append [of "[]" body] by simp
next
  case (3 l m ls)
  then show ?case using split_crlf_append [of l "join_crlf (m # ls) @ CRLF @ CRLF @ body"] by simp
qed simp

lemma join_crlf_append: "ls \<noteq> [] \<Longrightarrow> ks \<noteq> [] \<Longrightarrow> join_crlf (ls @ ks) = join_crlf ls @ CRLF @ join_crlf ks"
  by (induction ls rule: join_crlf.induct) (auto simp: join_crlf_cons)

lemma join_head: "hs \<noteq> [] \<Longrightarrow> join_crlf (hs @ [] # split_crlf body) = join_crlf hs @ CRLF @ CRLF @ body"
  by (simp add: join_crlf_append join_crlf_cons join_split_crlf)

lemma insert_after_first_line_head:
  assumes "CR \<notin> set first" and "hs \<noteq> []"
  shows "insert_after_first_line ls (join_crlf (first # hs)) = join_crlf (first # ls @ hs)"
proof -
  have eq: "join_crlf (first # hs) = first @ CRLF @ join_crlf hs" using assms(2) by (rule join_crlf_cons)
  have "split_crlf (first @ CRLF @ join_crlf hs) = first # split_crlf (join_crlf hs)"
    using split_crlf_append [OF assms(1)] by simp
  then have "insert_after_first_line ls (join_crlf (first # hs)) = first @ CRLF @ concat (map (\<lambda>l. l @ CRLF) ls) @ join_crlf hs"
    unfolding eq by (simp add: insert_after_first_line_def Let_def)
  moreover have "concat (map (\<lambda>l. l @ CRLF) ls) @ join_crlf hs = join_crlf (ls @ hs)"
    using assms(2) by (induction ls) (simp_all add: join_crlf_cons)
  ultimately show ?thesis using assms(2) by (simp add: join_crlf_cons)
qed

lemma injectHeaders_effect:
  assumes "headers \<noteq> []" and "\<forall>l \<in> set (first # hs). CR \<notin> set l" and "\<forall>l \<in> set hs. l \<noteq> []"
  shows "injectHeaders (join_crlf (first # hs) @ CRLF @ CRLF @ body) headers =
    join_crlf (first # header_lines headers @ filter (\<lambda>l. \<not> blocked_line headers l) hs) @ CRLF @ CRLF @ body"
proof -
  let ?kept = "filter (\<lambda>l. \<not> blocked_line headers l) hs"
  have split: "split_crlf (join_crlf (first # hs) @ CRLF @ CRLF @ body) = first # hs @ [] # split_crlf body"
    using split_head [of "first # hs" body] assms(2) by simp
  have "injectHeaders (join_crlf (first # hs) @ CRLF @ CRLF @ body) headers =
      insert_after_first_line (header_lines headers) (join_crlf (first # ?kept @ [] # split_crlf body))"
    unfolding injectHeaders_def split using assms(1) filter_head_append [OF assms(3)] by simp
  also have "\<dots> = join_crlf ((first # header_lines headers @ ?kept) @ [] # split_crlf body)"
    using insert_after_first_line_head [of first "?kept @ [] # split_crlf body"] assms(2) by simp
  also have "\<dots> = join_crlf (first # header_lines headers @ ?kept) @ CRLF @ CRLF @ body" by (rule join_head) simp
  finally show ?thesis .
qed

lemma request_lines_nonblank: "\<forall>l \<in> set (tl (request_lines r ip)). l \<noteq> []"
  by (auto simp: request_lines_def)

lemma request_lines_cons: "request_lines r ip = hd (request_lines r ip) # tl (request_lines r ip)"
  by (simp add: request_lines_def)

text \<open>Policy headers override the visitor's: when a tunnel configures headers and the request reaches
  the client, what is written to the stream is the request line, then every configured header once with its
  configured value, then the visitor's and the server's other headers in order without any whose
  name equals a configured one up to case and surrounding blanks, then the body untouched
  (withheld for a protocol upgrade).\<close>

theorem policy_headers_override:
  assumes "handleHijackedProxyConnection closed c r buffered name basicAuth headers = ToClient h sent held upgrade"
    and "headers \<noteq> []" and "\<forall>l \<in> set (request_lines r (visitor_ip (rq_remote r))). CR \<notin> set l"
  shows "sent = join_crlf (hd (request_lines r (visitor_ip (rq_remote r))) # header_lines headers @
      filter (\<lambda>l. \<not> blocked_line headers l) (tl (request_lines r (visitor_ip (rq_remote r))))) @ CRLF @ CRLF @
      (if upgrade then [] else buffered) \<and>
    upgrade = isUpgradeRequest r \<and> held = (if upgrade then buffered else [])"
proof -
  let ?ls = "request_lines r (visitor_ip (rq_remote r))"
  from assms(1,2) have "sent = injectHeaders (request_head r (visitor_ip (rq_remote r)) @ (if upgrade then [] else buffered)) headers"
    and rest: "upgrade = isUpgradeRequest r \<and> held = (if upgrade then buffered else [])"
    by (auto simp: handleHijackedProxyConnection_def Let_def split: if_splits)
  moreover have "request_head r (visitor_ip (rq_remote r)) @ body = join_crlf (hd ?ls # tl ?ls) @ CRLF @ CRLF @ body" for body
    using request_lines_cons [of r "visitor_ip (rq_remote r)"] by (simp add: request_head_def)
  ultimately show ?thesis
    using injectHeaders_effect [OF assms(2), of "hd ?ls" "tl ?ls"] assms(3) request_lines_nonblank request_lines_cons
    by (metis (no_types, lifting))
qed

definition example_client :: server_client where
  "example_client = (restored_client ''alice'' \<lparr>sd_udid = ''alice'', sd_activity = 0, sd_type = ''tls'', sd_registered = True\<rparr>)
     \<lparr>sc_token := ''t'', sc_mux := Some 1, sc_tunnel_map := [(''app'', ''localhost:80'')]\<rparr>"

definition example_visit :: http_request where
  "example_visit = example_request\<lparr>rq_header := [(''X-Role'', [''admin''])], rq_host := ''app.x.io''\<rparr>"

lemma example_visit_lines:
  "request_lines example_visit ''10.0.0.1'' = [''GET /p2p/ws HTTP/1.1'', ''Host: app.x.io'', ''X-Role: admin'',
     ''X-Forwarded-For: 10.0.0.1'', ''X-Real-IP: 10.0.0.1'', ''X-Forwarded-Proto: https'', ''X-Forwarded-Host: app.x.io'', ''Connection: close'']"
  "visitor_ip (rq_remote example_visit) = ''10.0.0.1''"
  by (simp_all add: request_lines_def example_visit_def example_request_def dropped_header_def equal_fold_def to_lower_def to_lower_char_def
      forwarded_for_def header_values_def header_get_def isUpgradeRequest_def visitor_ip_def SplitHostPort_def split_last_def Let_def)

theorem policy_headers_override_witness:
  "\<exists>h sent held upgrade. handleHijackedProxyConnection [] example_client example_visit [] ''app'' [] [(''x-role'', ''guest'')] = ToClient h sent held upgrade \<and>
     sent = join_crlf (''GET /p2p/ws HTTP/1.1'' # ''x-role: guest'' # filter (\<lambda>l. \<not> blocked_line [(''x-role'', ''guest'')] l)
       (tl (request_lines example_visit ''10.0.0.1''))) @ CRLF @ CRLF"
proof -
  have "\<exists>h sent held upgrade. handleHijackedProxyConnection [] example_client example_visit [] ''app'' [] [(''x-role'', ''guest'')] =
      ToClient h sent held upgrade"
    by (simp add: handleHijackedProxyConnection_def Let_def connected_def example_client_def restored_client_def)
  then obtain h sent held upgrade where run: "handleHijackedProxyConnection [] example_client example_visit [] ''app'' [] [(''x-role'', ''guest'')] =
      ToClient h sent held upgrade" by blast
  from policy_headers_override [OF run] have "sent = join_crlf (hd (request_lines example_visit ''10.0.0.1'') # header_lines [(''x-role'', ''guest'')] @
      filter (\<lambda>l. \<not> blocked_line [(''x-role'', ''guest'')] l) (tl (request_lines example_visit ''10.0.0.1''))) @ CRLF @ CRLF"
    unfolding example_visit_lines by (simp add: header_lines_def)
  with run show ?thesis by (simp add: example_visit_lines header_lines_def)
qed

end
