(* ===== verification/Egress.thy ===== *)
theory Egress
  imports Streams
begin

text \<open>
  Where a client may send traffic: the server's egress policy (\<^verbatim>\<open>egress.go\<close>), applied to the
  resolved address of every SOCKS and UDP destination, and the client's SOCKS5 front end
  (\<^verbatim>\<open>socks5.go\<close>), whose targets travel to the server in the streams of theory \<open>Streams\<close>.
  An IP address is its 4 or 16 bytes.
\<close>

section \<open>Address classes\<close>

definition v4_in_v6_prefix :: bytes where "v4_in_v6_prefix = replicate 10 0 @ [0xFF, 0xFF]"

definition To4 :: "bytes \<Rightarrow> bytes option" where
  "To4 ip = (if length ip = 4 then Some ip
             else if length ip = 16 \<and> take 12 ip = v4_in_v6_prefix then Some (drop 12 ip)
             else None)"

definition IsLoopback :: "bytes \<Rightarrow> bool" where
  "IsLoopback ip = (case To4 ip of Some v \<Rightarrow> v ! 0 = 127 | None \<Rightarrow> ip = replicate 15 0 @ [1])"

definition IsPrivate :: "bytes \<Rightarrow> bool" where
  "IsPrivate ip = (case To4 ip of
     Some v \<Rightarrow> v ! 0 = 10 \<or> v ! 0 = 172 \<and> v ! 1 AND 0xF0 = 16 \<or> v ! 0 = 192 \<and> v ! 1 = 168
   | None \<Rightarrow> length ip = 16 \<and> ip ! 0 AND 0xFE = 0xFC)"

definition IsUnspecified :: "bytes \<Rightarrow> bool" where
  "IsUnspecified ip = (case To4 ip of Some v \<Rightarrow> v = replicate 4 0 | None \<Rightarrow> ip = replicate 16 0)"

definition IsLinkLocalUnicast :: "bytes \<Rightarrow> bool" where
  "IsLinkLocalUnicast ip = (case To4 ip of
     Some v \<Rightarrow> v ! 0 = 169 \<and> v ! 1 = 254
   | None \<Rightarrow> length ip = 16 \<and> ip ! 0 = 0xFE \<and> ip ! 1 AND 0xC0 = 0x80)"

definition IsLinkLocalMulticast :: "bytes \<Rightarrow> bool" where
  "IsLinkLocalMulticast ip = (case To4 ip of
     Some v \<Rightarrow> v ! 0 = 224 \<and> v ! 1 = 0 \<and> v ! 2 = 0
   | None \<Rightarrow> length ip = 16 \<and> ip ! 0 = 0xFF \<and> ip ! 1 AND 0x0F = 2)"

definition IsInterfaceLocalMulticast :: "bytes \<Rightarrow> bool" where
  "IsInterfaceLocalMulticast ip \<longleftrightarrow> length ip = 16 \<and> ip ! 0 = 0xFF \<and> ip ! 1 AND 0x0F = 1"

definition IsMulticast :: "bytes \<Rightarrow> bool" where
  "IsMulticast ip = (case To4 ip of Some v \<Rightarrow> v ! 0 AND 0xF0 = 0xE0 | None \<Rightarrow> length ip = 16 \<and> ip ! 0 = 0xFF)"

text \<open>\<^verbatim>\<open>IPNet.Contains\<close>: a network is its number and the length of its prefix.\<close>

definition mask_byte :: "nat \<Rightarrow> nat \<Rightarrow> byte" where
  "mask_byte len i = (if len \<ge> 8 * (i + 1) then 0xFF else if len \<le> 8 * i then 0 else push_bit (8 - (len - 8 * i)) 0xFF)"

definition Contains :: "bytes \<times> nat \<Rightarrow> bytes \<Rightarrow> bool" where
  "Contains net ip0 =
     (let ip = (case To4 ip0 of Some v \<Rightarrow> v | None \<Rightarrow> ip0) in
      length ip = length (fst net) \<and>
      list_all (\<lambda>i. fst net ! i AND mask_byte (snd net) i = ip ! i AND mask_byte (snd net) i) [0..<length ip])"

definition blocked_nets :: "(bytes \<times> nat) list" where
  "blocked_nets = [([100, 64, 0, 0], 10), ([0, 0, 0, 0], 8), ([192, 0, 0, 0], 24), ([198, 18, 0, 0], 15), ([240, 0, 0, 0], 4),
     ([0, 0x64, 0xFF, 0x9B, 0, 0, 0, 0, 0, 0, 0, 0, 0, 0, 0, 0], 96)]"

text \<open>\<open>is_local\<close> stands for the cached set of the host's interface addresses, by \<^verbatim>\<open>ip.String()\<close>, which is
  the same for both forms of an IPv4 address.\<close>

definition isBlockedEgressIP :: "(bytes \<Rightarrow> bool) \<Rightarrow> bytes \<Rightarrow> bool" where
  "isBlockedEgressIP is_local ip0 =
     (let ip = (case To4 ip0 of Some v \<Rightarrow> v | None \<Rightarrow> ip0) in
      if IsLoopback ip \<or> IsPrivate ip \<or> IsUnspecified ip \<or> IsLinkLocalUnicast ip \<or> IsLinkLocalMulticast ip \<or>
         IsInterfaceLocalMulticast ip \<or> IsMulticast ip then True
      else if list_ex (\<lambda>net. Contains net ip) blocked_nets then True
      else is_local ip)"

text \<open>The control function of the dialler, run on the resolved address; \<open>parse\<close> is \<^verbatim>\<open>net.ParseIP\<close>.\<close>

datatype egress_error = BadAddress | EgressBlocked

definition egressControl :: "(string \<Rightarrow> bytes option) \<Rightarrow> (bytes \<Rightarrow> bool) \<Rightarrow> string \<Rightarrow> egress_error option" where
  "egressControl parse is_local address =
     (case SplitHostPort address of
        None \<Rightarrow> Some BadAddress
      | Some (host, _) \<Rightarrow>
          (case parse host of
             None \<Rightarrow> Some EgressBlocked
           | Some ip \<Rightarrow> if isBlockedEgressIP is_local ip then Some EgressBlocked else None))"

section \<open>Accept loops\<close>

text \<open>The delay of \<^verbatim>\<open>acceptBackoff\<close> before the next accept; \<open>None\<close> stops the loop.\<close>

definition next_delay :: "time \<Rightarrow> time" where
  "next_delay delay = (if delay = 0 then 5 * millisecond else if 2 * delay > second then second else 2 * delay)"

definition backoff_retry :: "bool \<Rightarrow> bool \<Rightarrow> time \<Rightarrow> time option" where
  "backoff_retry listener_closed ctx_done delay = (if listener_closed \<or> ctx_done then None else Some (next_delay delay))"

section \<open>The blocked IPv4 ranges\<close>

lemma and_high_mask:
  fixes b :: byte
  assumes "k \<le> 8"
  shows "unat (b AND push_bit k (mask (8 - k))) = unat b div 2 ^ k * 2 ^ k"
proof -
  have "b AND push_bit k (mask (8 - k)) = push_bit k (drop_bit k b)"
    by (rule bit_word_eqI) (auto simp: bit_simps)
  moreover have "unat b div 2 ^ k * 2 ^ k < 256"
    by (rule order.strict_trans1 [OF div_times_less_eq_dividend unat_less_256])
  moreover have "unat (push_bit k (drop_bit k b)) = take_bit 8 (push_bit k (drop_bit k (unat b)))"
    using take_bit_nat_eq_self [of "unat b" 8] by (simp add: unsigned_push_bit_eq unsigned_drop_bit_eq)
  moreover have "push_bit k (drop_bit k (unat b)) = unat b div 2 ^ k * 2 ^ k"
    by (simp add: push_bit_eq_mult drop_bit_eq_div)
  ultimately show ?thesis using take_bit_nat_eq_self [of "unat b div 2 ^ k * 2 ^ k" 8] by (simp only:) simp
qed

lemma high_masks:
  "(0xF0 :: byte) = push_bit 4 (mask (8 - 4))" "(0xC0 :: byte) = push_bit 6 (mask (8 - 6))" "(0xFE :: byte) = push_bit 1 (mask (8 - 1))"
  "(0xFF :: byte) = push_bit 0 (mask (8 - 0))"
  by (simp_all add: mask_eq_exp_minus_1 push_bit_eq_mult)

lemma unat_masked:
  "unat ((b :: byte) AND 0xF0) = unat b div 16 * 16" "unat (b AND 0xC0) = unat b div 64 * 64" "unat (b AND 0xFE) = unat b div 2 * 2"
  "unat (b AND 0xFF) = unat b"
  unfolding high_masks by (subst and_high_mask, simp, simp)+

lemma masked_bytes:
  "(b AND 0xF0 = 16) = (unat (b :: byte) div 16 = 1)" "(b AND 0xF0 = 0xE0) = (unat b div 16 = 14)"
  "(0xF0 = b AND 0xF0) = (unat b div 16 = 15)" "(64 = b AND 0xC0) = (unat b div 64 = 1)"
  "(18 = b AND 0xFE) = (unat b div 2 = 9)"
  by (auto simp: word_unat_eq_iff unat_masked)

lemma masked_full [simp]: "(b :: byte) AND 0xFF = b"
  by (simp add: word_unat_eq_iff unat_masked)

text \<open>The special-purpose ranges, as numbers with a prefix length.\<close>

definition special_v4 :: "(bytes \<times> nat) list" where
  "special_v4 = [([0, 0, 0, 0], 8), ([10, 0, 0, 0], 8), ([100, 64, 0, 0], 10), ([127, 0, 0, 0], 8), ([169, 254, 0, 0], 16),
     ([172, 16, 0, 0], 12), ([192, 0, 0, 0], 24), ([192, 168, 0, 0], 16), ([198, 18, 0, 0], 15), ([224, 0, 0, 0], 4), ([240, 0, 0, 0], 4)]"

definition in_range :: "nat \<Rightarrow> bytes \<times> nat \<Rightarrow> bool" where
  "in_range n net \<longleftrightarrow> n div 2 ^ (32 - snd net) = be_decode (fst net) div 2 ^ (32 - snd net)"

lemma be_decode4: "be_decode [a, b, c, d] = ((unat a * 256 + unat b) * 256 + unat c) * 256 + unat d"
  by (simp add: be_decode_def)

lemma dotted_div:
  fixes A B C D :: nat
  assumes "B < 256" "C < 256" "D < 256"
  defines "n \<equiv> ((A * 256 + B) * 256 + C) * 256 + D"
  shows "n div 256 = (A * 256 + B) * 256 + C" "n div 65536 = A * 256 + B" "n div 131072 = A * 128 + B div 2"
    "n div 1048576 = A * 16 + B div 16" "n div 4194304 = A * 4 + B div 64" "n div 16777216 = A" "n div 268435456 = A div 16"
proof -
  show 1: "n div 256 = (A * 256 + B) * 256 + C" unfolding n_def using assms(3) by (rule pack_div)
  have "n div 65536 = n div 256 div 256" by (simp add: div_mult2_eq [symmetric])
  then show 2: "n div 65536 = A * 256 + B" unfolding 1 using assms(2) by (simp only: pack_div)
  have "n div 131072 = n div 65536 div 2" by (simp add: div_mult2_eq [symmetric])
  moreover have "(A * 256 + B) div 2 = A * 128 + B div 2" by presburger
  ultimately show "n div 131072 = A * 128 + B div 2" unfolding 2 by simp
  have "n div 1048576 = n div 65536 div 16" by (simp add: div_mult2_eq [symmetric])
  moreover have "(A * 256 + B) div 16 = A * 16 + B div 16" by presburger
  ultimately show "n div 1048576 = A * 16 + B div 16" unfolding 2 by simp
  have "n div 4194304 = n div 65536 div 64" by (simp add: div_mult2_eq [symmetric])
  moreover have "(A * 256 + B) div 64 = A * 4 + B div 64" by presburger
  ultimately show "n div 4194304 = A * 4 + B div 64" unfolding 2 by simp
  have "n div 16777216 = n div 65536 div 256" by (simp add: div_mult2_eq [symmetric])
  then show 3: "n div 16777216 = A" unfolding 2 using assms(1) by (simp only: pack_div)
  have "n div 268435456 = n div 16777216 div 16" by (simp add: div_mult2_eq [symmetric])
  then show "n div 268435456 = A div 16" unfolding 3 .
qed

lemma pack_eq: "(q :: nat) < m \<Longrightarrow> r < m \<Longrightarrow> (A * m + q = K * m + r) = (A = K \<and> q = r)"
  by (metis pack_div add_left_cancel)

lemma prefix_pairs:
  fixes A B C :: nat
  assumes "A < 256" "B < 256" "C < 256"
  shows "(A * 4 + B div 64 = 401) = (A = 100 \<and> B div 64 = 1)" "(A * 256 + B = 43518) = (A = 169 \<and> B = 254)"
    "(A * 16 + B div 16 = 2753) = (A = 172 \<and> B div 16 = 1)" "(A * 256 + B = 49320) = (A = 192 \<and> B = 168)"
    "(A * 128 + B div 2 = 25353) = (A = 198 \<and> B div 2 = 9)" "(65536 * A + B * 256 + C = 12582912) = (A = 192 \<and> B = 0 \<and> C = 0)"
proof -
  have d: "B div 64 < 4" "B div 16 < 16" "B div 2 < 128" using assms(2) by auto
  show "(A * 4 + B div 64 = 401) = (A = 100 \<and> B div 64 = 1)" using pack_eq [OF d(1), of 1 A 100] by simp
  show "(A * 256 + B = 43518) = (A = 169 \<and> B = 254)" using pack_eq [OF assms(2), of 254 A 169] by simp
  show "(A * 16 + B div 16 = 2753) = (A = 172 \<and> B div 16 = 1)" using pack_eq [OF d(2), of 1 A 172] by simp
  show "(A * 256 + B = 49320) = (A = 192 \<and> B = 168)" using pack_eq [OF assms(2), of 168 A 192] by simp
  show "(A * 128 + B div 2 = 25353) = (A = 198 \<and> B div 2 = 9)" using pack_eq [OF d(3), of 9 A 198] by simp
  show "(65536 * A + B * 256 + C = 12582912) = (A = 192 \<and> B = 0 \<and> C = 0)"
    using pack_eq [OF assms(3), of 0 "A * 256 + B" 49152] pack_eq [OF assms(2), of 0 A 192] by (simp add: algebra_simps)
qed

lemma special_dotted:
  "list_ex (in_range (be_decode [a, b, c, d])) special_v4 \<longleftrightarrow>
     (let A = unat a; B = unat b; C = unat c in
      A = 0 \<or> A = 10 \<or> A = 100 \<and> B div 64 = 1 \<or> A = 127 \<or> A = 169 \<and> B = 254 \<or> A = 172 \<and> B div 16 = 1 \<or>
      A = 192 \<and> B = 0 \<and> C = 0 \<or> A = 192 \<and> B = 168 \<or> A = 198 \<and> B div 2 = 9 \<or> A div 16 = 14 \<or> A div 16 = 15)"
proof -
  define n where "n = be_decode [a, b, c, d]"
  note divs = dotted_div [where A = "unat a", OF unat_less_256 [of b] unat_less_256 [of c] unat_less_256 [of d],
      folded be_decode4, folded n_def]
  note pairs = prefix_pairs [OF unat_less_256 [of a] unat_less_256 [of b] unat_less_256 [of c]]
  show ?thesis unfolding special_v4_def in_range_def Let_def n_def [symmetric]
    by (simp add: divs pairs be_decode4)
qed

lemma mask_bytes:
  "mask_byte 24 (Suc (Suc 0)) = 0xFF" "mask_byte 10 0 = 0xFF" "mask_byte 10 (Suc 0) = 0xC0" "mask_byte 8 0 = 0xFF" "mask_byte 24 0 = 0xFF" "mask_byte 24 (Suc 0) = 0xFF"
  "mask_byte 24 2 = 0xFF" "mask_byte 15 0 = 0xFF" "mask_byte 15 (Suc 0) = 0xFE" "mask_byte 4 0 = 0xF0"
  "len \<le> 8 * i \<Longrightarrow> mask_byte len i = 0"
  by (simp_all add: mask_byte_def)

lemma four: "[0..<4] = [0, Suc 0, 2, 3]"
  by (simp add: upt_rec)

lemma byte_is:
  "((b :: byte) = 0) = (unat b = 0)" "(b = 10) = (unat b = 10)" "(b = 100) = (unat b = 100)" "(b = 127) = (unat b = 127)"
  "(b = 168) = (unat b = 168)" "(b = 169) = (unat b = 169)" "(b = 172) = (unat b = 172)" "(b = 192) = (unat b = 192)"
  "(b = 198) = (unat b = 198)" "(b = 224) = (unat b = 224)" "(b = 254) = (unat b = 254)"
  by (simp_all add: word_unat_eq_iff)

lemma contains_dotted:
  "Contains ([100, 64, 0, 0], 10) [a, b, c, d] \<longleftrightarrow> unat a = 100 \<and> unat b div 64 = 1"
  "Contains ([0, 0, 0, 0], 8) [a, b, c, d] \<longleftrightarrow> unat a = 0"
  "Contains ([192, 0, 0, 0], 24) [a, b, c, d] \<longleftrightarrow> unat a = 192 \<and> unat b = 0 \<and> unat c = 0"
  "Contains ([198, 18, 0, 0], 15) [a, b, c, d] \<longleftrightarrow> unat a = 198 \<and> unat b div 2 = 9"
  "Contains ([240, 0, 0, 0], 4) [a, b, c, d] \<longleftrightarrow> unat a div 16 = 15"
  "Contains ([0, 0x64, 0xFF, 0x9B, 0, 0, 0, 0, 0, 0, 0, 0, 0, 0, 0, 0], 96) [a, b, c, d] \<longleftrightarrow> False"
  unfolding Contains_def To4_def Let_def
  by (simp_all add: four mask_bytes masked_bytes) (simp_all add: byte_is)

lemma rep4: "replicate 4 x = [x, x, x, x]"
  by (simp add: eval_nat_numeral)

lemma To4_dotted: "To4 [a, b, c, d] = Some [a, b, c, d]"
  by (simp add: To4_def)

lemma class_dotted:
  "IsLoopback [a, b, c, d] \<longleftrightarrow> unat a = 127"
  "IsPrivate [a, b, c, d] \<longleftrightarrow> unat a = 10 \<or> unat a = 172 \<and> unat b div 16 = 1 \<or> unat a = 192 \<and> unat b = 168"
  "IsUnspecified [a, b, c, d] \<longleftrightarrow> unat a = 0 \<and> unat b = 0 \<and> unat c = 0 \<and> unat d = 0"
  "IsLinkLocalUnicast [a, b, c, d] \<longleftrightarrow> unat a = 169 \<and> unat b = 254"
  "IsLinkLocalMulticast [a, b, c, d] \<longleftrightarrow> unat a = 224 \<and> unat b = 0 \<and> unat c = 0"
  "IsInterfaceLocalMulticast [a, b, c, d] \<longleftrightarrow> False"
  "IsMulticast [a, b, c, d] \<longleftrightarrow> unat a div 16 = 14"
  by (simp_all add: To4_dotted IsLoopback_def IsPrivate_def IsUnspecified_def IsLinkLocalUnicast_def IsLinkLocalMulticast_def
      IsInterfaceLocalMulticast_def IsMulticast_def masked_bytes(1) byte_is unat_masked rep4)

lemma blocked_dotted:
  "isBlockedEgressIP is_local [a, b, c, d] \<longleftrightarrow>
     (let A = unat a; B = unat b; C = unat c in
      A = 0 \<or> A = 10 \<or> A = 100 \<and> B div 64 = 1 \<or> A = 127 \<or> A = 169 \<and> B = 254 \<or> A = 172 \<and> B div 16 = 1 \<or>
      A = 192 \<and> B = 0 \<and> C = 0 \<or> A = 192 \<and> B = 168 \<or> A = 198 \<and> B div 2 = 9 \<or> A div 16 = 14 \<or> A div 16 = 15) \<or>
     is_local [a, b, c, d]"
proof -
  have "unat a div 16 = 14" if "unat a = 224" using that by simp
  then show ?thesis
    unfolding isBlockedEgressIP_def blocked_nets_def Let_def To4_dotted option.case list_ex_iff list.set
    by (simp only: contains_dotted class_dotted bex_simps simp_thms) argo
qed

text \<open>C30. The egress policy is exactly the list of special-purpose ranges: of the IPv4 addresses, the server refuses to
  dial the eleven special-purpose networks (this network, private, shared, loopback, link-local,
  protocol assignments, benchmarking, multicast, reserved) and the host's own addresses, and no
  others; and writing an address in its IPv6-mapped form changes nothing.\<close>

theorem egress_blocks_special_ranges:
  assumes "length ip = 4"
  shows "(isBlockedEgressIP is_local ip \<longleftrightarrow> list_ex (in_range (be_decode ip)) special_v4 \<or> is_local ip) \<and>
    isBlockedEgressIP is_local (v4_in_v6_prefix @ ip) = isBlockedEgressIP is_local ip"
proof
  from assms obtain a b c d where ip: "ip = [a, b, c, d]" by (auto simp: numeral_eq_Suc length_Suc_conv)
  show "isBlockedEgressIP is_local ip \<longleftrightarrow> list_ex (in_range (be_decode ip)) special_v4 \<or> is_local ip"
    unfolding ip blocked_dotted special_dotted ..
  have "To4 (v4_in_v6_prefix @ ip) = Some ip" "To4 ip = Some ip" using assms by (simp_all add: To4_def v4_in_v6_prefix_def)
  then show "isBlockedEgressIP is_local (v4_in_v6_prefix @ ip) = isBlockedEgressIP is_local ip"
    by (simp add: isBlockedEgressIP_def)
qed

theorem egress_blocks_special_ranges_witness:
  "isBlockedEgressIP (\<lambda>_. False) (v4_in_v6_prefix @ [169, 254, 169, 254]) \<and> \<not> isBlockedEgressIP (\<lambda>_. False) [8, 8, 8, 8]"
  using egress_blocks_special_ranges [of "[169, 254, 169, 254]" "\<lambda>_. False"] egress_blocks_special_ranges [of "[8, 8, 8, 8]" "\<lambda>_. False"]
  by (simp add: special_dotted Let_def)

section \<open>SOCKS5\<close>

text \<open>\<^verbatim>\<open>net.IP.String()\<close>: dotted, or eight hexadecimal groups with the first longest run of at least two zero
  groups written as \<^verbatim>\<open>::\<close>.\<close>

definition hex_group :: "nat \<Rightarrow> string" where
  "hex_group n =
     (let digits = [''0123456789abcdef'' ! (n div 4096 mod 16), ''0123456789abcdef'' ! (n div 256 mod 16),
                    ''0123456789abcdef'' ! (n div 16 mod 16), ''0123456789abcdef'' ! (n mod 16)];
          trimmed = dropWhile (\<lambda>c. c = CHR ''0'') digits
      in if trimmed = [] then ''0'' else trimmed)"

fun zero_run :: "nat list \<Rightarrow> nat" where
  "zero_run (0 # gs) = Suc (zero_run gs)"
| "zero_run _ = 0"

definition longest_run :: "nat list \<Rightarrow> nat \<times> nat" where
  "longest_run gs = foldl (\<lambda>(i, n) j. if zero_run (drop j gs) > n then (j, zero_run (drop j gs)) else (i, n)) (0, 1) [0..<length gs]"

definition ip6_string :: "bytes \<Rightarrow> string" where
  "ip6_string ip =
     (let gs = map (\<lambda>i. unat (ip ! (2 * i)) * 256 + unat (ip ! (2 * i + 1))) [0..<8]; (i, n) = longest_run gs in
      if n < 2 then join_with (CHR '':'') (map hex_group gs)
      else join_with (CHR '':'') (map hex_group (take i gs)) @ ''::'' @ join_with (CHR '':'') (map hex_group (drop (i + n) gs)))"

definition IP_String :: "bytes \<Rightarrow> string" where
  "IP_String ip = (case To4 ip of
     Some v \<Rightarrow> join_with (CHR ''.'') (map (\<lambda>b. format_nat (unat b)) v)
   | None \<Rightarrow> ip6_string ip)"

definition JoinHostPort :: "string \<Rightarrow> string \<Rightarrow> string" where
  "JoinHostPort host port = (if CHR '':'' \<in> set host then ''['' @ host @ '']:'' @ port else host @ '':'' @ port)"

definition sendReply :: "byte \<Rightarrow> (bytes \<times> u16) option \<Rightarrow> bytes" where
  "sendReply rep addr =
     (case addr of
        None \<Rightarrow> [5, rep, 0, 1, 0, 0, 0, 0, 0, 0]
      | Some (ip, port) \<Rightarrow>
          (case To4 ip of
             None \<Rightarrow> [5, rep, 0, 4] @ ip @ put16 port
           | Some v \<Rightarrow> [5, rep, 0, 1] @ v @ put16 port))"

text \<open>The address of a request: \<open>Inl None\<close> a failed read, \<open>Inl (Some r)\<close> a refusal with reply \<open>r\<close>.\<close>

definition socks_address :: "byte \<Rightarrow> bytes \<Rightarrow> byte option + string \<times> bytes" where
  "socks_address addrType s =
     (if addrType = 1 then (case ReadFull 4 s of None \<Rightarrow> Inl None | Some (ip, s) \<Rightarrow> Inr (IP_String ip, s))
      else if addrType = 4 then (case ReadFull 16 s of None \<Rightarrow> Inl None | Some (ip, s) \<Rightarrow> Inr (IP_String ip, s))
      else if addrType = 3 then
        (case ReadFull 1 s of
           None \<Rightarrow> Inl None
         | Some (n, s) \<Rightarrow> (case ReadFull (unat (hd n)) s of None \<Rightarrow> Inl None | Some (d, s) \<Rightarrow> Inr (string_of d, s)))
      else Inl (Some 8))"

text \<open>The handshake: what is written to the application, and the target dialled through the tunnel with the
  bytes that follow, if it gets that far. \<open>dial\<close> is the tunnel, \<open>local_addr\<close> the address the listener
  accepted on.\<close>

definition socks_request :: "(string \<Rightarrow> bool) \<Rightarrow> bytes \<times> u16 \<Rightarrow> bytes \<Rightarrow> bytes \<times> (string \<times> bytes) option" where
  "socks_request dial local_addr s =
     (case ReadFull 4 s of
        None \<Rightarrow> ([], None)
      | Some (q, s) \<Rightarrow>
          if q ! 0 \<noteq> 5 then ([], None)
          else if q ! 1 \<noteq> 1 then (sendReply 7 None, None)
          else (case socks_address (q ! 3) s of
                  Inl None \<Rightarrow> ([], None)
                | Inl (Some rep) \<Rightarrow> (sendReply rep None, None)
                | Inr (targetAddr, s) \<Rightarrow>
                    (case ReadFull 2 s of
                       None \<Rightarrow> ([], None)
                     | Some (p, s) \<Rightarrow>
                         let target = JoinHostPort targetAddr (format_nat (unat (get16 p))) in
                         if dial target then (sendReply 0 (Some local_addr), Some (target, s)) else (sendReply 4 None, None))))"

definition socks_handleConnection :: "(string \<Rightarrow> bool) \<Rightarrow> bytes \<times> u16 \<Rightarrow> bytes \<Rightarrow> bytes \<times> (string \<times> bytes) option" where
  "socks_handleConnection dial local_addr s =
     (case ReadFull 2 s of
        None \<Rightarrow> ([], None)
      | Some (g, s) \<Rightarrow>
          if g ! 0 \<noteq> 5 then ([], None)
          else if unat (g ! 1) = 0 \<or> unat (g ! 1) > 256 then ([], None)
          else (case ReadFull (unat (g ! 1)) s of
                  None \<Rightarrow> ([], None)
                | Some (_, s) \<Rightarrow> (let (w, t) = socks_request dial local_addr s in ([5, 0] @ w, t))))"

text \<open>From the application to the server's dialler: a SOCKS5 CONNECT to a domain name, with any non-empty list of
  authentication methods, is answered with success and makes the server dial that name and port, provided
  the target fits the one-byte length of the stream header.\<close>

lemma socks_connect_reaches_egress:
  assumes "methods \<noteq> []" and "length methods \<le> 255" and "length domain \<le> 255"
    and "target = JoinHostPort domain (format_nat (unat port))" and "dynamic_header target = Some h"
  shows "socks_handleConnection (\<lambda>t. dynamic_header t \<noteq> None) local_addr
      ([5, word_of_nat (length methods)] @ methods @ [5, 1, rsv, 3] @ counted (bytes_of domain) @ put16 port @ data) =
        ([5, 0] @ sendReply 0 (Some local_addr), Some (target, data)) \<and>
    handleClientInitiatedStream (h @ data) = EgressTCP target data"
proof
  let ?rest = "counted (bytes_of domain) @ put16 port @ data"
  have addr: "socks_address 3 ?rest = Inr (domain, put16 port @ data)"
    using assms(3) unat_length_byte [of "bytes_of domain"] counted_read [of "bytes_of domain" "put16 port @ data"]
    by (simp add: socks_address_def)
  have four: "ReadFull 4 ([5, 1, rsv, 3] @ ?rest) = Some ([5, 1, rsv, 3], ?rest)" by (rule ReadFull_append) simp
  have "socks_request (\<lambda>t. dynamic_header t \<noteq> None) local_addr ([5, 1, rsv, 3] @ ?rest) = (sendReply 0 (Some local_addr), Some (target, data))"
    unfolding socks_request_def four using addr assms(4,5) by (simp add: Let_def)
  moreover have "ReadFull 2 ([5, word_of_nat (length methods)] @ methods @ [5, 1, rsv, 3] @ ?rest) =
      Some ([5, word_of_nat (length methods)], methods @ [5, 1, rsv, 3] @ ?rest)" by (rule ReadFull_append) simp
  moreover have "unat (word_of_nat (length methods) :: byte) = length methods" using assms(2) by simp
  ultimately show "socks_handleConnection (\<lambda>t. dynamic_header t \<noteq> None) local_addr
      ([5, word_of_nat (length methods)] @ methods @ [5, 1, rsv, 3] @ ?rest) = ([5, 0] @ sendReply 0 (Some local_addr), Some (target, data))"
    unfolding socks_handleConnection_def using assms(1,2) by (simp del: append_Cons)
  show "handleClientInitiatedStream (h @ data) = EgressTCP target data"
    using dynamic_stream_read [OF assms(5)] .
qed

end
