(* ===== verification/Peer_Sessions.thy ===== *)
theory Peer_Sessions
  imports Prepared_ICE
begin

text \<open>
  The client's side of peer-to-peer sessions (\<^verbatim>\<open>cmd/client.go\<close>, from
  \<^verbatim>\<open>handleP2PSignal\<close> on): what it does with each signalling message, the goroutines that
  prepare an offer, run the connectivity checks and watch a session, and the tables of live sessions.
  Goroutines keep the negotiation store they started with when \<^verbatim>\<open>closeP2PState\<close>
  replaces it, so stores are objects of a heap; so are tunnels, which the tables and the
  goroutines share. A goroutine is a task that names what it does next; the sections between two tasks
  are atomic.
\<close>

section \<open>State\<close>

record peer_tunnel =
  tu_conn :: conn
  tu_peer :: string
  tu_target :: string
  tu_initiator :: bool
  tu_open :: bool

record p2p_client =
  pc_id :: string
  pc_targets :: "string list" \<comment> \<open>of \<^verbatim>\<open>state.Tunnels\<close>\<close>
  pc_stun :: string
  pc_manager :: manager
  pc_peers :: "(string, peer_info) gomap"
  pc_heap :: "negotiation_store list"
  pc_store :: nat \<comment> \<open>\<^verbatim>\<open>state.P2PNegotiations\<close>\<close>
  pc_active :: "(string, string) gomap"
  pc_connections :: "(string, conn) gomap"
  pc_tunnels :: "(string, nat) gomap"
  pc_made :: "peer_tunnel list"
  pc_socket :: bool
  pc_sent :: "signal_message list"

datatype purpose = ToOffer | ToAnswer peer_info "candidate list"

datatype p2p_task =
    Preparing nat string string purpose
  | Prepared nat string string purpose "candidate list"
  | Checking nat peer_info negotiation
  | Established nat string string conn
  | Installing nat string string conn nat
  | Monitoring nat string string

section \<open>Sessions\<close>

definition sendP2PSignal :: "signal_message \<Rightarrow> p2p_client \<Rightarrow> p2p_client" where
  "sendP2PSignal m c = (if pc_socket c then c\<lparr>pc_sent := pc_sent c @ [m]\<rparr> else c)"

definition close_peer_conn :: "conn \<Rightarrow> p2p_client \<Rightarrow> p2p_client" where
  "close_peer_conn d c = c\<lparr>pc_manager := close_conn d (pc_manager c)\<rparr>"

text \<open>Closing a tunnel closes its connection.\<close>

definition close_tunnel :: "nat \<Rightarrow> p2p_client \<Rightarrow> p2p_client" where
  "close_tunnel t c =
     close_peer_conn (tu_conn (pc_made c ! t)) (c\<lparr>pc_made := (pc_made c)[t := (pc_made c ! t)\<lparr>tu_open := False\<rparr>]\<rparr>)"

definition installP2PSession :: "string \<Rightarrow> string \<Rightarrow> conn \<Rightarrow> nat \<Rightarrow> p2p_client \<Rightarrow> p2p_client" where
  "installP2PSession peerID sessionID d t c =
     (let oldConn = gm_get (pc_connections c) peerID;
          oldTunnel = gm_get (pc_tunnels c) peerID;
          c = c\<lparr>pc_active := gm_put peerID sessionID (pc_active c), pc_connections := gm_put peerID d (pc_connections c),
                pc_tunnels := gm_put peerID t (pc_tunnels c)\<rparr>;
          c = (case oldTunnel of Some u \<Rightarrow> if u \<noteq> t then close_tunnel u c else c | None \<Rightarrow> c)
      in case oldConn of Some e \<Rightarrow> if e \<noteq> d then close_peer_conn e c else c | None \<Rightarrow> c)"

definition removeP2PSessionIfMatch :: "string \<Rightarrow> string \<Rightarrow> p2p_client \<Rightarrow> bool \<times> p2p_client" where
  "removeP2PSessionIfMatch peerID sessionID c =
     (case gm_get (pc_active c) peerID of
        None \<Rightarrow> (False, c)
      | Some active \<Rightarrow>
          if active = [] \<or> active \<noteq> sessionID then (False, c)
          else
            let d = gm_get (pc_connections c) peerID; tunnel = gm_get (pc_tunnels c) peerID;
                c = c\<lparr>pc_active := gm_del peerID (pc_active c), pc_connections := gm_del peerID (pc_connections c),
                      pc_tunnels := gm_del peerID (pc_tunnels c)\<rparr>;
                c = (case tunnel of Some t \<Rightarrow> close_tunnel t c | None \<Rightarrow> c)
            in (True, case d of Some e \<Rightarrow> close_peer_conn e c | None \<Rightarrow> c))"

definition closeP2PState :: "p2p_client \<Rightarrow> p2p_client" where
  "closeP2PState c =
     (let tunnels = map snd (pc_tunnels c); connections = map snd (pc_connections c);
          c = c\<lparr>pc_socket := False, pc_active := [], pc_peers := [], pc_store := length (pc_heap c),
                pc_heap := pc_heap c @ [NewNegotiationStore 128 (30 * second)], pc_tunnels := [], pc_connections := []\<rparr>;
          c = fold close_tunnel tunnels c;
          c = fold close_peer_conn connections c
      in c\<lparr>pc_manager := manager_Close (pc_manager c)\<rparr>)"

section \<open>Negotiations\<close>

definition store_at :: "p2p_client \<Rightarrow> nat \<Rightarrow> negotiation_store" where "store_at c k = pc_heap c ! k"

definition put_store :: "nat \<Rightarrow> negotiation_store \<Rightarrow> p2p_client \<Rightarrow> p2p_client" where
  "put_store k st c = c\<lparr>pc_heap := (pc_heap c)[k := st]\<rparr>"

definition cancel_prepared :: "string \<Rightarrow> p2p_client \<Rightarrow> p2p_client" where
  "cancel_prepared sessionID c = c\<lparr>pc_manager := CancelPreparedICE sessionID (pc_manager c)\<rparr>"

definition p2pPeer :: "p2p_client \<Rightarrow> string \<Rightarrow> peer_info option" where
  "p2pPeer c peerID = gm_get (pc_peers c) peerID"

text \<open>\<^verbatim>\<open>prepareClientICE\<close>: \<open>turn\<close> is the allocator made from the TURN configuration (\<open>Inl\<close> when the
  configuration is refused, \<open>Inr None\<close> when TURN is off), \<open>again\<close> what the second preparation meets.\<close>

definition prepareClientICE ::
  "(string \<Rightarrow> bool) \<Rightarrow> prepare_env \<Rightarrow> prepare_env \<Rightarrow> unit + allocation option \<Rightarrow> time \<Rightarrow> time \<Rightarrow> ctx \<Rightarrow> string \<Rightarrow> p2p_client \<Rightarrow>
   candidate list option \<times> p2p_client" where
  "prepareClientICE addr_ok env again turn now later cx sessionID c =
     (case turn of
        Inl _ \<Rightarrow> (None, c)
      | Inr allocator \<Rightarrow>
          (case PrepareICEWithRelay addr_ok env allocator now (Some cx) sessionID (pc_stun c) (pc_manager c) of
             (Inr cs, m) \<Rightarrow> (Some cs, c\<lparr>pc_manager := m\<rparr>)
           | (Inl e, m) \<Rightarrow>
               if allocator = None \<or> ctx_err cx later then (None, c\<lparr>pc_manager := m\<rparr>)
               else (case PrepareICE again later (Some cx) sessionID (pc_stun c) m of
                       (Inr cs, m) \<Rightarrow> (Some cs, c\<lparr>pc_manager := m\<rparr>)
                     | (Inl e, m) \<Rightarrow> (None, c\<lparr>pc_manager := m\<rparr>))))"

text \<open>\<^verbatim>\<open>startICEOffer\<close> up to its preparation, with the session ID it drew, and after it.\<close>

definition startICEOffer :: "string \<Rightarrow> peer_info \<Rightarrow> p2p_client \<Rightarrow> p2p_task list" where
  "startICEOffer sessionID peer c =
     (if sessionID = [] then [] else [Preparing (pc_store c) (pi_peer peer) sessionID ToOffer])"

definition offer_prepared ::
  "(string \<Rightarrow> bool) \<Rightarrow> time \<Rightarrow> nat \<Rightarrow> string \<Rightarrow> string \<Rightarrow> candidate list \<Rightarrow> p2p_client \<Rightarrow> p2p_task list \<times> p2p_client" where
  "offer_prepared ok now k peerID sessionID locals c =
     (case Start ok now peerID NegotiationControlling sessionID locals [] (store_at c k) of
        (Inl _, st) \<Rightarrow> ([], cancel_prepared sessionID (put_store k st c))
      | (Inr _, st) \<Rightarrow> ([], sendP2PSignal (NewICEOfferSignal (pc_id c) peerID sessionID locals) (put_store k st c)))"

definition begin_check :: "time \<Rightarrow> nat \<Rightarrow> peer_info \<Rightarrow> string \<Rightarrow> string \<Rightarrow> p2p_client \<Rightarrow> p2p_task list \<times> p2p_client" where
  "begin_check now k peer fromPeer sessionID c =
     (case BeginCheck now fromPeer sessionID (store_at c k) of
        (None, st) \<Rightarrow> ([], put_store k st c)
      | (Some n, st) \<Rightarrow> ([Checking k peer n], put_store k st c))"

definition answer_prepared ::
  "(string \<Rightarrow> bool) \<Rightarrow> time \<Rightarrow> nat \<Rightarrow> peer_info \<Rightarrow> string \<Rightarrow> string \<Rightarrow> candidate list \<Rightarrow> candidate list \<Rightarrow> p2p_client \<Rightarrow>
   p2p_task list \<times> p2p_client" where
  "answer_prepared ok now k peer fromPeer sessionID remotes locals c =
     (case Start ok now fromPeer NegotiationControlled sessionID locals remotes (store_at c k) of
        (Inl _, st) \<Rightarrow> ([], cancel_prepared sessionID (put_store k st c))
      | (Inr _, st) \<Rightarrow>
          begin_check now k peer fromPeer sessionID
            (sendP2PSignal (NewICEAnswerSignal (pc_id c) fromPeer sessionID locals) (put_store k st c)))"

text \<open>A preparation that failed: an offer is given up silently, an offerer is told to fall back.\<close>

definition preparation_failed :: "string \<Rightarrow> string \<Rightarrow> purpose \<Rightarrow> string \<Rightarrow> p2p_client \<Rightarrow> p2p_client" where
  "preparation_failed peerID sessionID why err c =
     (case why of
        ToOffer \<Rightarrow> c
      | ToAnswer _ _ \<Rightarrow> sendP2PSignal (NewFallbackSignal (pc_id c) peerID sessionID err) c)"

section \<open>Signals\<close>

definition handle_peer_info :: "string \<Rightarrow> signal_message \<Rightarrow> p2p_client \<Rightarrow> p2p_task list \<times> p2p_client" where
  "handle_peer_info new_session s c =
     (case sm_peer_info s of
        None \<Rightarrow> ([], c)
      | Some i \<Rightarrow>
          let peer = (if pi_peer i = [] then i\<lparr>pi_peer := sm_from s\<rparr> else i);
              c = c\<lparr>pc_peers := gm_put (pi_peer peer) peer (pc_peers c)\<rparr>
          in (if ShouldInitiateICE (pc_id c) (pi_peer peer) then startICEOffer new_session peer c else [], c))"

definition handle_offer :: "time \<Rightarrow> signal_message \<Rightarrow> p2p_client \<Rightarrow> p2p_task list \<times> p2p_client" where
  "handle_offer now s c =
     (let k = pc_store c in
      if sm_to s \<noteq> pc_id c \<or> ShouldInitiateICE (pc_id c) (sm_from s) then ([], c)
      else case p2pPeer c (sm_from s) of
        None \<Rightarrow> ([], c)
      | Some peer \<Rightarrow>
          (case store_Get now (sm_from s) (sm_session s) (store_at c k) of
             (Some existing, st) \<Rightarrow>
               ([], sendP2PSignal (NewICEAnswerSignal (pc_id c) (sm_from s) (sm_session s) (ng_local existing)) (put_store k st c))
           | (None, st) \<Rightarrow>
               ([Preparing k (sm_from s) (sm_session s) (ToAnswer peer (sm_candidates s))], put_store k st c)))"

definition handle_answer :: "(string \<Rightarrow> bool) \<Rightarrow> time \<Rightarrow> signal_message \<Rightarrow> p2p_client \<Rightarrow> p2p_task list \<times> p2p_client" where
  "handle_answer ok now s c =
     (let k = pc_store c in
      if sm_to s \<noteq> pc_id c \<or> \<not> ShouldInitiateICE (pc_id c) (sm_from s) then ([], c)
      else case p2pPeer c (sm_from s) of
        None \<Rightarrow> ([], c)
      | Some peer \<Rightarrow>
          (case AddRemote ok now (sm_from s) (sm_session s) (sm_candidates s) (store_at c k) of
             (Inl _, st) \<Rightarrow> ([], put_store k st c)
           | (Inr n, st) \<Rightarrow>
               if ng_role n \<noteq> NegotiationControlling then ([], put_store k st c)
               else begin_check now k peer (sm_from s) (sm_session s) (put_store k st c)))"

definition handleP2PSignal ::
  "(string \<Rightarrow> bool) \<Rightarrow> time \<Rightarrow> string \<Rightarrow> signal_message \<Rightarrow> p2p_client \<Rightarrow> p2p_task list \<times> p2p_client" where
  "handleP2PSignal ok now new_session s c =
     (let k = pc_store c in
      if sm_type s = ''p2p_peer_info'' then handle_peer_info new_session s c
      else if sm_type s = SignalTypeICEOffer then handle_offer now s c
      else if sm_type s = SignalTypeICEAnswer then handle_answer ok now s c
      else if sm_type s = SignalTypeICECandidate then
        (if sm_to s = pc_id c
         then ([], put_store k (snd (AddRemote ok now (sm_from s) (sm_session s) (sm_candidates s) (store_at c k))) c)
         else ([], c))
      else if sm_type s = ''p2p_fallback'' then
        (let c = snd (removeP2PSessionIfMatch (sm_from s) (sm_session s) c);
             c = put_store k (store_Fail (sm_from s) (sm_session s) (store_at c k)) c
         in ([], cancel_prepared (sm_session s) c))
      else ([], c))"

section \<open>Goroutines\<close>

text \<open>\<^verbatim>\<open>establishNegotiatedICE\<close>: \<open>result\<close> is what \<^verbatim>\<open>EstablishPreparedICE\<close> returns, with the manager
  it leaves.\<close>

definition establishNegotiatedICE ::
  "nat \<Rightarrow> peer_info \<Rightarrow> negotiation \<Rightarrow> string \<Rightarrow> (establish_error + conn ice_session) \<times> manager \<Rightarrow> p2p_client \<Rightarrow>
   p2p_task list \<times> p2p_client" where
  "establishNegotiatedICE k peer n err result c =
     (case result of
        (Inl _, m) \<Rightarrow>
          let c = sendP2PSignal (NewFallbackSignal (pc_id c) (pi_peer peer) (ng_session n) err) (c\<lparr>pc_manager := m\<rparr>);
              c = put_store k (store_Fail (pi_peer peer) (ng_session n) (store_at c k)) c
          in ([], cancel_prepared (ng_session n) c)
      | (Inr s, m) \<Rightarrow> ([Established k (pi_peer peer) (ng_session n) (ss_conn s)], c\<lparr>pc_manager := m\<rparr>))"

definition local_target :: "p2p_client \<Rightarrow> string" where
  "local_target c = (case pc_targets c of [] \<Rightarrow> [] | t # _ \<Rightarrow> t)"

definition complete_session :: "time \<Rightarrow> nat \<Rightarrow> string \<Rightarrow> string \<Rightarrow> conn \<Rightarrow> p2p_client \<Rightarrow> p2p_task list \<times> p2p_client" where
  "complete_session now k peerID sessionID d c =
     (let t = length (pc_made c);
          c = c\<lparr>pc_made := pc_made c @ [\<lparr>tu_conn = d, tu_peer = peerID, tu_target = local_target c,
                                          tu_initiator = ShouldInitiateICE (pc_id c) peerID, tu_open = True\<rparr>]\<rparr>
      in case Complete now peerID sessionID (store_at c k) of
           (False, st) \<Rightarrow> ([], close_tunnel t (put_store k st c))
         | (True, st) \<Rightarrow> ([Installing k peerID sessionID d t], put_store k st c))"

definition install_session :: "nat \<Rightarrow> string \<Rightarrow> string \<Rightarrow> conn \<Rightarrow> nat \<Rightarrow> p2p_client \<Rightarrow> p2p_task list \<times> p2p_client" where
  "install_session k peerID sessionID d t c =
     ([Monitoring k peerID sessionID],
      sendP2PSignal (NewReadySignal (pc_id c) peerID sessionID) (installP2PSession peerID sessionID d t c))"

definition monitorP2PSession :: "nat \<Rightarrow> string \<Rightarrow> string \<Rightarrow> p2p_client \<Rightarrow> p2p_client" where
  "monitorP2PSession k peerID sessionID c =
     (case removeP2PSessionIfMatch peerID sessionID c of
        (True, c) \<Rightarrow> put_store k (store_Delete peerID sessionID (store_at c k)) c
      | (False, c) \<Rightarrow> c)"

text \<open>\<^verbatim>\<open>startICEOffer\<close> and \<^verbatim>\<open>establishNegotiatedICE\<close> read the current store when they begin to run, which may be after
  the handler that started them returned (rules \<open>offer_begins\<close> and \<open>check_begins\<close>).\<close>

inductive p2p_goroutine :: "(string \<Rightarrow> bool) \<Rightarrow> p2p_task \<Rightarrow> p2p_client \<Rightarrow> p2p_task list \<Rightarrow> p2p_client \<Rightarrow> bool"
  for ok :: "string \<Rightarrow> bool" where
  offer_begins: "p2p_goroutine ok (Preparing k p s ToOffer) c [Preparing (pc_store c) p s ToOffer] c"
| check_begins: "p2p_goroutine ok (Checking k peer n) c [Checking (pc_store c) peer n] c"
| prepare_ok: "prepareClientICE ok env again turn now later cx s c = (Some locals, c') \<Longrightarrow>
     p2p_goroutine ok (Preparing k p s why) c [Prepared k p s why locals] c'"
| prepare_failed: "prepareClientICE ok env again turn now later cx s c = (None, c') \<Longrightarrow>
     p2p_goroutine ok (Preparing k p s why) c [] (preparation_failed p s why err c')"
| offer: "offer_prepared ok now k p s locals c = (ts, c') \<Longrightarrow> p2p_goroutine ok (Prepared k p s ToOffer locals) c ts c'"
| answer: "answer_prepared ok now k peer p s remotes locals c = (ts, c') \<Longrightarrow>
     p2p_goroutine ok (Prepared k p s (ToAnswer peer remotes) locals) c ts c'"
| establish: "establishNegotiatedICE k peer n err
       (EstablishPreparedICE sha256 hmac env (Some (NewICEAgent cfg, None)) cx now (Some peer) (ng_session n) (ng_local n) (ng_remote n)
          (pc_manager c)) c = (ts, c') \<Longrightarrow>
     p2p_goroutine ok (Checking k peer n) c ts c'"
| complete: "complete_session now k p s d c = (ts, c') \<Longrightarrow> p2p_goroutine ok (Established k p s d) c ts c'"
| install: "install_session k p s d t c = (ts, c') \<Longrightarrow> p2p_goroutine ok (Installing k p s d t) c ts c'"
| monitor: "p2p_goroutine ok (Monitoring k p s) c [] (monitorP2PSession k p s c)"

text \<open>One step of the client: a signal arrives, a goroutine moves, a tunnel's connection ends, the manager's timers
  and punching calls act, the signalling socket opens or closes, or the session with the server ends. The
  reading loop waits for the preparation of an answer; the relation allows it to go on, so it has
  every behaviour of the loop.\<close>

inductive p2p_step :: "(string \<Rightarrow> bool) \<Rightarrow> p2p_client \<times> p2p_task list \<Rightarrow> p2p_client \<times> p2p_task list \<Rightarrow> bool"
  for ok :: "string \<Rightarrow> bool" where
  signal: "handleP2PSignal ok now new_session s c = (ts', c') \<Longrightarrow> p2p_step ok (c, ts) (c', ts @ ts')"
| goroutine: "i < length ts \<Longrightarrow> p2p_goroutine ok (ts ! i) c ts' c' \<Longrightarrow> p2p_step ok (c, ts) (c', take i ts @ drop (Suc i) ts @ ts')"
| tunnel_ends: "t < length (pc_made c) \<Longrightarrow> p2p_step ok (c, ts) (close_tunnel t c, ts)"
| manager_acts: "p2p_step ok (c, ts) (c\<lparr>pc_manager := m\<rparr>, ts)"
| socket: "p2p_step ok (c, ts) (c\<lparr>pc_socket := b\<rparr>, ts)"
| disconnect: "p2p_step ok (c, ts) (closeP2PState c, ts)"

definition NewP2PState :: "string \<Rightarrow> string list \<Rightarrow> string \<Rightarrow> manager \<Rightarrow> p2p_client" where
  "NewP2PState clientID targets stun m =
     \<lparr>pc_id = clientID, pc_targets = targets, pc_stun = stun, pc_manager = m, pc_peers = [],
      pc_heap = [NewNegotiationStore 128 (30 * second)], pc_store = 0, pc_active = [], pc_connections = [], pc_tunnels = [],
      pc_made = [], pc_socket = False, pc_sent = []\<rparr>"

inductive p2p_reachable :: "(string \<Rightarrow> bool) \<Rightarrow> p2p_client \<times> p2p_task list \<Rightarrow> bool" for ok :: "string \<Rightarrow> bool" where
  start: "p2p_reachable ok (NewP2PState clientID targets stun m, [])"
| step: "p2p_reachable ok w \<Longrightarrow> p2p_step ok w w' \<Longrightarrow> p2p_reachable ok w'"

section \<open>Invariant\<close>

text \<open>Tunnel \<open>t\<close> is one made for peer \<open>p\<close> over connection \<open>d\<close>, with the role the glare rule gives this client.\<close>

definition tunnel_for :: "p2p_client \<Rightarrow> string \<Rightarrow> nat \<Rightarrow> conn \<Rightarrow> bool" where
  "tunnel_for c p t d \<longleftrightarrow> t < length (pc_made c) \<and> tu_peer (pc_made c ! t) = p \<and> tu_conn (pc_made c ! t) = d \<and>
     tu_initiator (pc_made c ! t) = ShouldInitiateICE (pc_id c) p"

definition live_tunnels :: "p2p_client \<Rightarrow> nat set" where
  "live_tunnels c = {t. t < length (pc_made c) \<and> tu_open (pc_made c ! t)}"

definition tables_inv :: "p2p_client \<Rightarrow> bool" where
  "tables_inv c \<longleftrightarrow>
     (\<forall>p. (gm_get (pc_active c) p = None) = (gm_get (pc_tunnels c) p = None)) \<and>
     (\<forall>p. (gm_get (pc_connections c) p = None) = (gm_get (pc_tunnels c) p = None)) \<and>
     (\<forall>p t d. gm_get (pc_tunnels c) p = Some t \<longrightarrow> gm_get (pc_connections c) p = Some d \<longrightarrow> tunnel_for c p t d) \<and>
     (\<forall>p s. gm_get (pc_active c) p = Some s \<longrightarrow> s \<noteq> []) \<and>
     (\<forall>p i. gm_get (pc_peers c) p = Some i \<longrightarrow> pi_peer i = p)"

definition role_ok :: "string \<Rightarrow> string \<Rightarrow> negotiation \<Rightarrow> bool" where
  "role_ok own p n \<longleftrightarrow> (ng_role n = NegotiationControlling) = ShouldInitiateICE own p"

definition roles_ok :: "string \<Rightarrow> negotiation_store \<Rightarrow> bool" where
  "roles_ok own st \<longleftrightarrow> (\<forall>p n. gm_get (ns_entries st) p = Some n \<longrightarrow> role_ok own p n)"

definition stores_inv :: "(string \<Rightarrow> bool) \<Rightarrow> p2p_client \<Rightarrow> bool" where
  "stores_inv ok c \<longleftrightarrow> pc_store c < length (pc_heap c) \<and> (\<forall>st \<in> set (pc_heap c). store_inv ok st \<and> roles_ok (pc_id c) st)"

fun purpose_ok :: "string \<Rightarrow> string \<Rightarrow> purpose \<Rightarrow> bool" where
  "purpose_ok own p ToOffer = ShouldInitiateICE own p"
| "purpose_ok own p (ToAnswer peer remotes) = (\<not> ShouldInitiateICE own p \<and> pi_peer peer = p)"

fun peer_task_ok :: "p2p_client \<Rightarrow> p2p_task \<Rightarrow> bool" where
  "peer_task_ok c (Preparing k p s why) = (k < length (pc_heap c) \<and> purpose_ok (pc_id c) p why)"
| "peer_task_ok c (Prepared k p s why locals) = (k < length (pc_heap c) \<and> purpose_ok (pc_id c) p why)"
| "peer_task_ok c (Checking k peer n) =
     (k < length (pc_heap c) \<and> ng_session n \<noteq> [] \<and> ng_peer n = pi_peer peer \<and> role_ok (pc_id c) (pi_peer peer) n)"
| "peer_task_ok c (Established k p s d) = (k < length (pc_heap c) \<and> s \<noteq> [])"
| "peer_task_ok c (Installing k p s d t) = (k < length (pc_heap c) \<and> s \<noteq> [] \<and> tunnel_for c p t d)"
| "peer_task_ok c (Monitoring k p s) = (k < length (pc_heap c))"

fun task_tunnels :: "p2p_task \<Rightarrow> nat list" where
  "task_tunnels (Installing k p s d t) = [t]"
| "task_tunnels _ = []"

abbreviation installing :: "p2p_task list \<Rightarrow> nat list" where "installing ts \<equiv> concat (map task_tunnels ts)"

abbreviation in_table :: "p2p_client \<Rightarrow> nat \<Rightarrow> bool" where "in_table c t \<equiv> \<exists>p. gm_get (pc_tunnels c) p = Some t"

text \<open>Every tunnel that is open is in the table or about to be put there, by exactly one goroutine.\<close>

definition owners_inv :: "p2p_client \<Rightarrow> nat list \<Rightarrow> bool" where
  "owners_inv c is \<longleftrightarrow> distinct is \<and> (\<forall>t \<in> set is. t < length (pc_made c) \<and> \<not> in_table c t) \<and>
     (\<forall>t \<in> live_tunnels c. t \<in> set is \<or> in_table c t)"

definition p2p_inv :: "(string \<Rightarrow> bool) \<Rightarrow> p2p_client \<times> p2p_task list \<Rightarrow> bool" where
  "p2p_inv ok w \<longleftrightarrow> (case w of (c, ts) \<Rightarrow> tables_inv c \<and> stores_inv ok c \<and> (\<forall>x \<in> set ts. peer_task_ok c x) \<and> owners_inv c (installing ts))"

subsection \<open>What the operations leave alone\<close>

lemma sent_fields [simp]:
  "pc_id (sendP2PSignal m c) = pc_id c" "pc_made (sendP2PSignal m c) = pc_made c" "pc_peers (sendP2PSignal m c) = pc_peers c"
  "pc_heap (sendP2PSignal m c) = pc_heap c" "pc_store (sendP2PSignal m c) = pc_store c" "pc_active (sendP2PSignal m c) = pc_active c"
  "pc_connections (sendP2PSignal m c) = pc_connections c" "pc_tunnels (sendP2PSignal m c) = pc_tunnels c"
  "pc_socket (sendP2PSignal m c) = pc_socket c" "store_at (sendP2PSignal m c) k = store_at c k"
  by (simp_all add: sendP2PSignal_def store_at_def)

lemma close_conn_fields [simp]:
  "pc_id (close_peer_conn d c) = pc_id c" "pc_made (close_peer_conn d c) = pc_made c" "pc_peers (close_peer_conn d c) = pc_peers c"
  "pc_heap (close_peer_conn d c) = pc_heap c" "pc_store (close_peer_conn d c) = pc_store c" "pc_active (close_peer_conn d c) = pc_active c"
  "pc_connections (close_peer_conn d c) = pc_connections c" "pc_tunnels (close_peer_conn d c) = pc_tunnels c"
  by (simp_all add: close_peer_conn_def)

lemma close_tunnel_fields [simp]:
  "pc_id (close_tunnel t c) = pc_id c" "pc_peers (close_tunnel t c) = pc_peers c"
  "pc_heap (close_tunnel t c) = pc_heap c" "pc_store (close_tunnel t c) = pc_store c" "pc_active (close_tunnel t c) = pc_active c"
  "pc_connections (close_tunnel t c) = pc_connections c" "pc_tunnels (close_tunnel t c) = pc_tunnels c"
  "length (pc_made (close_tunnel t c)) = length (pc_made c)"
  by (simp_all add: close_tunnel_def)

lemma cancel_fields [simp]:
  "pc_id (cancel_prepared s c) = pc_id c" "pc_made (cancel_prepared s c) = pc_made c" "pc_peers (cancel_prepared s c) = pc_peers c"
  "pc_heap (cancel_prepared s c) = pc_heap c" "pc_store (cancel_prepared s c) = pc_store c" "pc_active (cancel_prepared s c) = pc_active c"
  "pc_connections (cancel_prepared s c) = pc_connections c" "pc_tunnels (cancel_prepared s c) = pc_tunnels c"
  by (simp_all add: cancel_prepared_def)

lemma put_store_fields [simp]:
  "pc_id (put_store k st c) = pc_id c" "pc_made (put_store k st c) = pc_made c" "pc_peers (put_store k st c) = pc_peers c"
  "pc_store (put_store k st c) = pc_store c" "pc_active (put_store k st c) = pc_active c"
  "pc_connections (put_store k st c) = pc_connections c" "pc_tunnels (put_store k st c) = pc_tunnels c"
  "length (pc_heap (put_store k st c)) = length (pc_heap c)" "pc_socket (put_store k st c) = pc_socket c"
  "k < length (pc_heap c) \<Longrightarrow> store_at (put_store k st c) k = st"
  by (simp_all add: put_store_def store_at_def)

text \<open>Two clients that agree on everything the invariant reads.\<close>

definition same_sessions :: "p2p_client \<Rightarrow> p2p_client \<Rightarrow> bool" where
  "same_sessions c c' \<longleftrightarrow> pc_id c' = pc_id c \<and> pc_made c' = pc_made c \<and> pc_peers c' = pc_peers c \<and> pc_active c' = pc_active c \<and>
     pc_connections c' = pc_connections c \<and> pc_tunnels c' = pc_tunnels c"

lemma same_tables: "same_sessions c c' \<Longrightarrow> tables_inv c' = tables_inv c"
  by (simp add: same_sessions_def tables_inv_def tunnel_for_def)

lemma same_owners: "same_sessions c c' \<Longrightarrow> owners_inv c' is = owners_inv c is"
  by (simp add: same_sessions_def owners_inv_def live_tunnels_def)

lemma tunnel_for_close [simp]: "tunnel_for (close_tunnel u c) p t d = tunnel_for c p t d"
  by (cases "u < length (pc_made c)")
    (auto simp: tunnel_for_def close_tunnel_def nth_list_update list_update_beyond)

lemma live_close [simp]: "live_tunnels (close_tunnel u c) = live_tunnels c - {u}"
  by (cases "u < length (pc_made c)")
    (auto simp: live_tunnels_def close_tunnel_def nth_list_update list_update_beyond)

lemma live_close_conn [simp]: "live_tunnels (close_peer_conn d c) = live_tunnels c" "tunnel_for (close_peer_conn d c) = tunnel_for c"
  by (simp_all add: live_tunnels_def tunnel_for_def fun_eq_iff)

lemma tables_close [simp]: "tables_inv (close_tunnel u c) = tables_inv c" "tables_inv (close_peer_conn d c) = tables_inv c"
  by (simp_all add: tables_inv_def)

lemma peer_task_grows:
  assumes "peer_task_ok c x" "pc_id c' = pc_id c" "length (pc_heap c) \<le> length (pc_heap c')"
    and "\<And>p t d. tunnel_for c p t d \<Longrightarrow> tunnel_for c' p t d"
  shows "peer_task_ok c' x"
proof (cases x)
  case (Preparing k p s why)
  with assms show ?thesis by (cases why) auto
next
  case (Prepared k p s why locals)
  with assms show ?thesis by (cases why) auto
qed (use assms in auto)

subsection \<open>Negotiation stores\<close>

definition store_good :: "(string \<Rightarrow> bool) \<Rightarrow> string \<Rightarrow> negotiation_store \<Rightarrow> bool" where
  "store_good ok own st \<longleftrightarrow> store_inv ok st \<and> roles_ok own st"

lemma good_inv: "store_good ok own st \<Longrightarrow> store_inv ok st" by (simp add: store_good_def)

lemma good_get: "store_good ok own st \<Longrightarrow> gm_get (ns_entries st) p = Some n \<Longrightarrow> negotiation_ok ok p n \<and> role_ok own p n"
  by (auto simp: store_good_def roles_ok_def dest: store_inv_get)

lemma good_expire [simp]: "store_good ok own st \<Longrightarrow> store_good ok own (expireLocked now st)"
  by (auto simp: store_good_def roles_ok_def gm_get_expire split: option.splits if_splits)

lemma good_new: "store_good ok own (NewNegotiationStore capacity ttl)"
  by (simp add: store_good_def store_inv_def roles_ok_def NewNegotiationStore_def)

lemma good_Start:
  assumes "store_good ok own st" and "(role = NegotiationControlling) = ShouldInitiateICE own p"
  shows "store_good ok own (snd (Start ok now p role s ls rs st))"
proof -
  have "roles_ok own (snd (Start ok now p role s ls rs st))"
    using assms good_expire [OF assms(1), of now]
    by (auto simp: Start_def Let_def roles_ok_def role_ok_def store_good_def split: option.splits)
  then show ?thesis using assms(1) by (simp add: store_good_def)
qed

lemma good_AddRemote:
  assumes "store_good ok own st"
  shows "store_good ok own (snd (AddRemote ok now p s cs st))"
proof -
  have "roles_ok own (snd (AddRemote ok now p s cs st))"
    using assms good_expire [OF assms, of now]
    by (auto simp: AddRemote_def Let_def roles_ok_def role_ok_def store_good_def split: option.splits prod.splits bool.splits)
  then show ?thesis using assms by (simp add: store_good_def)
qed

lemma good_BeginCheck: "store_good ok own st \<Longrightarrow> store_good ok own (snd (BeginCheck now p s st))"
  using good_expire [of ok own st now]
  by (auto simp: store_good_def roles_ok_def role_ok_def BeginCheck_def Let_def intro!: store_inv_set_state split: option.splits)

lemma good_Complete: "store_good ok own st \<Longrightarrow> store_good ok own (snd (Complete now p s st))"
  by (auto simp: store_good_def roles_ok_def role_ok_def Complete_def intro!: store_inv_set_state split: option.splits)

lemma good_Get: "store_good ok own st \<Longrightarrow> store_good ok own (snd (store_Get now p s st))"
  using good_expire [of ok own st now] by (auto simp: store_Get_def Let_def split: option.splits)

lemma good_Delete [simp]:
  assumes "store_good ok own st"
  shows "store_good ok own (store_Delete p s st)"
proof -
  have "roles_ok own (store_Delete p s st)"
    using assms by (auto simp: store_good_def roles_ok_def store_Delete_def split: option.splits if_splits)
  then show ?thesis using assms by (simp add: store_good_def)
qed

lemmas good_stores = good_Start good_AddRemote good_BeginCheck good_Complete good_Get good_Delete

lemma begin_checked:
  assumes "store_good ok own st" "BeginCheck now p s st = (Some n, st')"
  shows "ng_session n \<noteq> [] \<and> ng_peer n = p \<and> role_ok own p n"
  using assms good_get [OF good_expire [OF assms(1), of now], of p]
  by (auto simp: BeginCheck_def Let_def negotiation_ok_def role_ok_def split: option.splits if_splits)

lemma stores_get: "stores_inv ok c \<Longrightarrow> k < length (pc_heap c) \<Longrightarrow> store_good ok (pc_id c) (store_at c k)"
  by (auto simp: stores_inv_def store_good_def store_at_def)

lemma stores_put: "stores_inv ok c \<Longrightarrow> store_good ok (pc_id c) st \<Longrightarrow> stores_inv ok (put_store k st c)"
  using set_update_subset_insert [of "pc_heap c" k st] by (auto simp: stores_inv_def store_good_def put_store_def)

lemma stores_current: "stores_inv ok c \<Longrightarrow> pc_store c < length (pc_heap c)"
  by (simp add: stores_inv_def)

lemma stores_frame [simp]:
  "stores_inv ok (sendP2PSignal m c) = stores_inv ok c" "stores_inv ok (close_peer_conn d c) = stores_inv ok c"
  "stores_inv ok (close_tunnel t c) = stores_inv ok c" "stores_inv ok (cancel_prepared s c) = stores_inv ok c"
  by (simp_all add: stores_inv_def)

subsection \<open>Steps\<close>

definition evolves :: "p2p_client \<Rightarrow> p2p_client \<Rightarrow> bool" where
  "evolves c c' \<longleftrightarrow> pc_id c' = pc_id c \<and> length (pc_heap c) \<le> length (pc_heap c') \<and>
     (\<forall>p t d. tunnel_for c p t d \<longrightarrow> tunnel_for c' p t d)"

definition good_step :: "(string \<Rightarrow> bool) \<Rightarrow> p2p_client \<Rightarrow> nat list \<Rightarrow> p2p_task list \<Rightarrow> p2p_client \<Rightarrow> bool" where
  "good_step ok c is ts' c' \<longleftrightarrow> tables_inv c' \<and> stores_inv ok c' \<and> (\<forall>y \<in> set ts'. peer_task_ok c' y) \<and>
     owners_inv c' (is @ installing ts') \<and> evolves c c'"

lemma good_step_inv:
  assumes "good_step ok c (installing ts) ts' c'" "\<forall>x \<in> set ts. peer_task_ok c x"
  shows "p2p_inv ok (c', ts @ ts')"
  using assms peer_task_grows [of c _ c'] by (auto simp: p2p_inv_def good_step_def evolves_def)

text \<open>A step that leaves the tables and tunnels alone.\<close>

lemma plain_step:
  assumes "tables_inv c" "owners_inv c is" "same_sessions c c'" "stores_inv ok c'" "length (pc_heap c) \<le> length (pc_heap c')"
    and "\<forall>y \<in> set ts'. peer_task_ok c' y \<and> task_tunnels y = []"
  shows "good_step ok c is ts' c'"
proof -
  have none: "installing ts' = []" using assms(6) by simp
  have "owners_inv c' (is @ installing ts')" unfolding none using assms(2) same_owners [OF assms(3)] by simp
  moreover have "tunnel_for c' = tunnel_for c" using assms(3) by (simp add: same_sessions_def tunnel_for_def fun_eq_iff)
  moreover have "pc_id c' = pc_id c" using assms(3) by (simp add: same_sessions_def)
  ultimately show ?thesis
    using assms same_tables [OF assms(3)] by (simp add: good_step_def evolves_def)
qed

lemma same_frame [simp]:
  "same_sessions c (put_store k st c') = same_sessions c c'" "same_sessions c (sendP2PSignal m c') = same_sessions c c'"
  "same_sessions c (cancel_prepared s c') = same_sessions c c'" "same_sessions c (c'\<lparr>pc_manager := m'\<rparr>) = same_sessions c c'"
  "same_sessions c (c'\<lparr>pc_socket := b\<rparr>) = same_sessions c c'"
  "same_sessions c c"
  by (simp_all add: same_sessions_def)

lemma stores_manager [simp]: "stores_inv ok (c\<lparr>pc_manager := m\<rparr>) = stores_inv ok c" "stores_inv ok (c\<lparr>pc_socket := b\<rparr>) = stores_inv ok c"
  by (simp_all add: stores_inv_def)

lemma prepare_same:
  "prepareClientICE ok env again turn now later cx s c = (r, c') \<Longrightarrow> \<exists>m. c' = c\<lparr>pc_manager := m\<rparr>"
  by (auto simp: prepareClientICE_def split: sum.splits prod.splits if_splits)
    (metis p2p_client.surjective p2p_client.update_convs(4))+

text \<open>Removing a session closes its tunnel and nothing else.\<close>

lemma remove_session:
  assumes "tables_inv c" "owners_inv c is" "removeP2PSessionIfMatch p s c = (b, c')"
  shows "tables_inv c' \<and> owners_inv c' is \<and> pc_heap c' = pc_heap c \<and> pc_store c' = pc_store c \<and> evolves c c'"
proof (cases "\<exists>a. gm_get (pc_active c) p = Some a \<and> a \<noteq> [] \<and> a = s")
  case False
  with assms have "c' = c" by (auto simp: removeP2PSessionIfMatch_def split: option.splits if_splits)
  with assms show ?thesis by (simp add: evolves_def)
next
  case True
  then obtain t d where t: "gm_get (pc_tunnels c) p = Some t" and d: "gm_get (pc_connections c) p = Some d"
    using assms(1) unfolding tables_inv_def by (metis option.exhaust option.distinct(1))
  let ?c = "c\<lparr>pc_active := gm_del p (pc_active c), pc_connections := gm_del p (pc_connections c), pc_tunnels := gm_del p (pc_tunnels c)\<rparr>"
  have c': "c' = close_peer_conn d (close_tunnel t ?c)"
    using True assms(3) t d by (auto simp: removeP2PSessionIfMatch_def Let_def)
  have "tunnel_for ?c = tunnel_for c" "live_tunnels ?c = live_tunnels c" by (simp_all add: tunnel_for_def live_tunnels_def fun_eq_iff)
  moreover have "tables_inv ?c" using assms(1) calculation(1) by (simp add: tables_inv_def)
  moreover have "\<forall>u \<in> live_tunnels c - {t}. u \<in> set is \<or> (\<exists>q. q \<noteq> p \<and> gm_get (pc_tunnels c) q = Some u)"
    using assms(2) t by (auto simp: owners_inv_def) (metis option.inject)
  ultimately show ?thesis using assms(2) unfolding c'
    by (auto simp: owners_inv_def evolves_def)
qed

text \<open>Installing a session closes the one it replaces.\<close>

lemma install_session_ok:
  assumes "tables_inv c" "owners_inv c (t # is)" "tunnel_for c p t d" "s \<noteq> []"
  shows "tables_inv (installP2PSession p s d t c) \<and> owners_inv (installP2PSession p s d t c) is \<and>
    pc_heap (installP2PSession p s d t c) = pc_heap c \<and> pc_store (installP2PSession p s d t c) = pc_store c \<and>
    evolves c (installP2PSession p s d t c)"
proof -
  let ?c = "c\<lparr>pc_active := gm_put p s (pc_active c), pc_connections := gm_put p d (pc_connections c), pc_tunnels := gm_put p t (pc_tunnels c)\<rparr>"
  let ?d = "case gm_get (pc_tunnels c) p of Some u \<Rightarrow> if u \<noteq> t then close_tunnel u ?c else ?c | None \<Rightarrow> ?c"
  have eq: "installP2PSession p s d t c = (case gm_get (pc_connections c) p of Some e \<Rightarrow> if e \<noteq> d then close_peer_conn e ?d else ?d | None \<Rightarrow> ?d)"
    by (simp add: installP2PSession_def Let_def)
  have fresh: "\<not> in_table c t" "t < length (pc_made c)" "distinct is" "t \<notin> set is" using assms(2) by (auto simp: owners_inv_def)
  have same: "tunnel_for ?c = tunnel_for c" "live_tunnels ?c = live_tunnels c" by (simp_all add: tunnel_for_def live_tunnels_def fun_eq_iff)
  have "tables_inv ?c" using assms(1,3,4) same(1) by (simp add: tables_inv_def)
  then have tables: "tables_inv ?d" by (simp split: option.split)
  have owners: "owners_inv ?d is"
  proof (cases "gm_get (pc_tunnels c) p")
    case None
    then have "gm_get (pc_tunnels c) q = Some v \<Longrightarrow> q \<noteq> p" for q v by auto
    then have "\<forall>v \<in> live_tunnels c. v \<in> set is \<or> v = t \<or> (\<exists>q. q \<noteq> p \<and> gm_get (pc_tunnels c) q = Some v)"
      using assms(2) unfolding owners_inv_def by (metis set_ConsD)
    then show ?thesis using None assms(2) same(2) by (auto simp: owners_inv_def)
  next
    case (Some u)
    then have "u \<noteq> t" using fresh(1) by auto
    moreover have "\<forall>v \<in> live_tunnels c - {u}. v \<in> set is \<or> v = t \<or> (\<exists>q. q \<noteq> p \<and> gm_get (pc_tunnels c) q = Some v)"
      using assms(2) Some by (auto simp: owners_inv_def) (metis option.inject)
    ultimately show ?thesis using Some assms(2) same(2) by (auto simp: owners_inv_def)
  qed
  have "evolves c ?d" "pc_heap ?d = pc_heap c" "pc_store ?d = pc_store c" using same(1) by (simp_all add: evolves_def split: option.split)
  moreover have "owners_inv (close_peer_conn e ?d) is = owners_inv ?d is" "evolves c (close_peer_conn e ?d) = evolves c ?d" for e
    by (simp_all only: owners_inv_def evolves_def close_conn_fields live_close_conn)
  ultimately show ?thesis using tables owners unfolding eq by (simp split: option.split)
qed

lemma fold_close_tunnels:
  "pc_id (fold close_tunnel xs c) = pc_id c" "pc_peers (fold close_tunnel xs c) = pc_peers c" "pc_heap (fold close_tunnel xs c) = pc_heap c"
  "pc_store (fold close_tunnel xs c) = pc_store c" "pc_active (fold close_tunnel xs c) = pc_active c"
  "pc_connections (fold close_tunnel xs c) = pc_connections c" "pc_tunnels (fold close_tunnel xs c) = pc_tunnels c"
  "length (pc_made (fold close_tunnel xs c)) = length (pc_made c)" "tunnel_for (fold close_tunnel xs c) p t d = tunnel_for c p t d"
  "live_tunnels (fold close_tunnel xs c) = live_tunnels c - set xs"
  by (induction xs arbitrary: c) auto

lemma fold_close_conns:
  "pc_id (fold close_peer_conn xs c) = pc_id c" "pc_peers (fold close_peer_conn xs c) = pc_peers c" "pc_heap (fold close_peer_conn xs c) = pc_heap c"
  "pc_store (fold close_peer_conn xs c) = pc_store c" "pc_active (fold close_peer_conn xs c) = pc_active c"
  "pc_connections (fold close_peer_conn xs c) = pc_connections c" "pc_tunnels (fold close_peer_conn xs c) = pc_tunnels c"
  "pc_made (fold close_peer_conn xs c) = pc_made c"
  by (induction xs arbitrary: c) auto

lemma closed_state:
  "pc_id (closeP2PState c) = pc_id c" "pc_peers (closeP2PState c) = []" "pc_heap (closeP2PState c) = pc_heap c @ [NewNegotiationStore 128 (30 * second)]"
  "pc_store (closeP2PState c) = length (pc_heap c)" "pc_active (closeP2PState c) = []" "pc_connections (closeP2PState c) = []"
  "pc_tunnels (closeP2PState c) = []" "length (pc_made (closeP2PState c)) = length (pc_made c)"
  "tunnel_for (closeP2PState c) p t d = tunnel_for c p t d" "live_tunnels (closeP2PState c) = live_tunnels c - snd ` set (pc_tunnels c)"
proof -
  have manager: "tunnel_for (c'\<lparr>pc_manager := m\<rparr>) = tunnel_for c'" "live_tunnels (c'\<lparr>pc_manager := m\<rparr>) = live_tunnels c'" for c' m
    by (simp_all add: tunnel_for_def live_tunnels_def fun_eq_iff)
  have conns: "tunnel_for (fold close_peer_conn xs c') = tunnel_for c'" "live_tunnels (fold close_peer_conn xs c') = live_tunnels c'" for xs c'
    by (simp_all add: tunnel_for_def live_tunnels_def fold_close_conns fun_eq_iff)
  show "tunnel_for (closeP2PState c) p t d = tunnel_for c p t d" "live_tunnels (closeP2PState c) = live_tunnels c - snd ` set (pc_tunnels c)"
    unfolding closeP2PState_def Let_def by (simp_all add: manager conns fold_close_tunnels) (simp_all add: tunnel_for_def live_tunnels_def)
qed (simp_all add: closeP2PState_def Let_def fold_close_tunnels fold_close_conns)

lemma disconnect_ok:
  assumes "tables_inv c" "stores_inv ok c" "owners_inv c is"
  shows "good_step ok c is [] (closeP2PState c)"
proof -
  have "\<forall>t \<in> live_tunnels c - snd ` set (pc_tunnels c). t \<in> set is"
    using assms(3) unfolding owners_inv_def by (metis DiffD1 DiffD2 image_eqI map_of_SomeD snd_conv)
  then have "owners_inv (closeP2PState c) is" using assms(3) by (auto simp: owners_inv_def closed_state)
  moreover have "stores_inv ok (closeP2PState c)"
    using assms(2) good_new [of ok "pc_id c" 128 "30 * second"] by (auto simp: stores_inv_def closed_state store_good_def)
  ultimately show ?thesis by (simp add: good_step_def tables_inv_def evolves_def closed_state)
qed

lemma begin_check_ok:
  assumes "stores_inv ok c" "k < length (pc_heap c)" "pi_peer peer = p" "begin_check now k peer p s c = (ts', c')"
  shows "same_sessions c c' \<and> stores_inv ok c' \<and> length (pc_heap c') = length (pc_heap c) \<and>
    (\<forall>y \<in> set ts'. peer_task_ok c' y \<and> task_tunnels y = [])"
proof -
  note good = stores_get [OF assms(1,2)]
  obtain r st where b: "BeginCheck now p s (store_at c k) = (r, st)" by fastforce
  have c': "c' = put_store k st c" using assms(4) b by (auto simp: begin_check_def split: option.splits)
  have "store_good ok (pc_id c) st" using good_BeginCheck [OF good, of now p s] b by simp
  then have "stores_inv ok c'" unfolding c' by (rule stores_put [OF assms(1)])
  moreover have "\<forall>y \<in> set ts'. peer_task_ok c' y \<and> task_tunnels y = []"
    using assms(2-4) b begin_checked [OF good, of now p s] by (auto simp: begin_check_def c' split: option.splits)
  ultimately show ?thesis unfolding c' by simp
qed

lemma offer_ok:
  assumes "tables_inv c" "stores_inv ok c" "owners_inv c is" "k < length (pc_heap c)" "ShouldInitiateICE (pc_id c) p"
    and "offer_prepared ok now k p s locals c = (ts', c')"
  shows "good_step ok c is ts' c'"
proof -
  obtain r st where st: "Start ok now p NegotiationControlling s locals [] (store_at c k) = (r, st)" by fastforce
  have "store_good ok (pc_id c) st"
    using good_Start [OF stores_get [OF assms(2,4)], of NegotiationControlling p now s locals "[]"] assms(5) st by simp
  then have "stores_inv ok (put_store k st c)" by (rule stores_put [OF assms(2)])
  then show ?thesis using assms(6) st
    by (intro plain_step [OF assms(1,3)]) (auto simp: offer_prepared_def split: sum.splits)
qed

lemma answer_ok:
  assumes "tables_inv c" "stores_inv ok c" "owners_inv c is" "k < length (pc_heap c)" "\<not> ShouldInitiateICE (pc_id c) p" "pi_peer peer = p"
    and "answer_prepared ok now k peer p s remotes locals c = (ts', c')"
  shows "good_step ok c is ts' c'"
proof -
  obtain r st where st: "Start ok now p NegotiationControlled s locals remotes (store_at c k) = (r, st)" by fastforce
  have "store_good ok (pc_id c) st"
    using good_Start [OF stores_get [OF assms(2,4)], of NegotiationControlled p now s locals remotes] assms(5) st by simp
  then have stores: "stores_inv ok (put_store k st c)" by (rule stores_put [OF assms(2)])
  show ?thesis
  proof (cases r)
    case (Inl e)
    then show ?thesis using assms(7) st stores
      by (intro plain_step [OF assms(1,3)]) (auto simp: answer_prepared_def)
  next
    case (Inr n)
    let ?c = "sendP2PSignal (NewICEAnswerSignal (pc_id c) p s locals) (put_store k st c)"
    have b: "begin_check now k peer p s ?c = (ts', c')" using assms(7) st Inr by (simp add: answer_prepared_def)
    have "same_sessions ?c c' \<and> stores_inv ok c' \<and> length (pc_heap c') = length (pc_heap ?c) \<and>
        (\<forall>y \<in> set ts'. peer_task_ok c' y \<and> task_tunnels y = [])"
      using begin_check_ok [OF _ _ assms(6) b, of ok] stores assms(4) by simp
    then show ?thesis by (intro plain_step [OF assms(1,3)]) (auto simp: same_sessions_def)
  qed
qed

lemma complete_ok:
  assumes "tables_inv c" "stores_inv ok c" "owners_inv c is" "k < length (pc_heap c)" "s \<noteq> []"
    and "complete_session now k p s d c = (ts', c')"
  shows "good_step ok c is ts' c'"
proof -
  let ?t = "length (pc_made c)"
  let ?c = "c\<lparr>pc_made := pc_made c @ [\<lparr>tu_conn = d, tu_peer = p, tu_target = local_target c,
                tu_initiator = ShouldInitiateICE (pc_id c) p, tu_open = True\<rparr>]\<rparr>"
  obtain r st where st: "Complete now p s (store_at c k) = (r, st)" by fastforce
  have mono: "tunnel_for c q t e \<Longrightarrow> tunnel_for ?c q t e" for q t e by (simp add: tunnel_for_def nth_append)
  have new: "tunnel_for ?c p ?t d" "live_tunnels ?c = insert ?t (live_tunnels c)"
    by (auto simp: tunnel_for_def live_tunnels_def nth_append)
  have old: "in_table c t \<Longrightarrow> t < ?t" for t
    using assms(1) unfolding tables_inv_def tunnel_for_def by (metis option.exhaust option.distinct(1))
  have tables: "tables_inv ?c" using assms(1) mono by (auto simp: tables_inv_def)
  have good: "store_good ok (pc_id c) st" using good_Complete [OF stores_get [OF assms(2,4)], of now p s] st by simp
  have "stores_inv ok ?c" using assms(2) by (simp add: stores_inv_def)
  then have stores: "stores_inv ok (put_store k st ?c)" by (rule stores_put) (simp add: good)
  have put: "tunnel_for (put_store k st ?c) = tunnel_for ?c" "live_tunnels (put_store k st ?c) = live_tunnels ?c"
    by (simp_all add: tunnel_for_def live_tunnels_def fun_eq_iff)
  have tables': "tables_inv (put_store k st ?c)" using tables same_tables [of ?c "put_store k st ?c"] by simp
  show ?thesis
  proof (cases r)
    case True
    have c': "ts' = [Installing k p s d ?t]" "c' = put_store k st ?c"
      using assms(6) st True by (simp_all add: complete_session_def Let_def store_at_def)
    have "owners_inv c' (is @ [?t])" using assms(3) old new(2) unfolding c' by (auto simp: owners_inv_def put)
    then show ?thesis using tables' stores assms(4,5) new(1) mono unfolding c'
      by (auto simp: good_step_def evolves_def put)
  next
    case False
    have c': "ts' = []" "c' = close_tunnel ?t (put_store k st ?c)"
      using assms(6) st False by (simp_all add: complete_session_def Let_def store_at_def)
    have "?t \<notin> set is" using assms(3) by (auto simp: owners_inv_def)
    then have "owners_inv c' is" using assms(3) old new(2) unfolding c' by (auto simp: owners_inv_def put)
    then show ?thesis using tables' stores mono unfolding c' by (simp add: good_step_def evolves_def put)
  qed
qed

lemma goroutine_ok:
  assumes "tables_inv c" "stores_inv ok c" "peer_task_ok c x" "owners_inv c (task_tunnels x @ is)" "p2p_goroutine ok x c ts' c'"
  shows "good_step ok c is ts' c'"
  using assms(5)
proof cases
  case (offer_begins k p s)
  then show ?thesis using assms stores_current [OF assms(2)] by (intro plain_step) auto
next
  case (check_begins k peer n)
  then show ?thesis using assms stores_current [OF assms(2)] by (intro plain_step) auto
next
  case (prepare_ok env again turn now later cx s locals k p why)
  then show ?thesis using assms prepare_same [OF prepare_ok(3)]
    by (intro plain_step) (auto simp: same_sessions_def)
next
  case (prepare_failed env again turn now later cx s c1 k p why err)
  then obtain m where "c1 = c\<lparr>pc_manager := m\<rparr>" using prepare_same by blast
  then show ?thesis using prepare_failed assms
    by (intro plain_step) (auto simp: preparation_failed_def split: purpose.splits)
next
  case (offer now k p s locals)
  then show ?thesis using assms by (auto intro: offer_ok)
next
  case (answer now k peer p s remotes locals)
  then show ?thesis using assms by (auto intro: answer_ok)
next
  case (establish k peer n err sha256 hmac env cfg cx now)
  obtain r m where "EstablishPreparedICE sha256 hmac env (Some (NewICEAgent cfg, None)) cx now (Some peer) (ng_session n) (ng_local n)
      (ng_remote n) (pc_manager c) = (r, m)" by fastforce
  moreover have "store_good ok (pc_id c) (store_Fail (pi_peer peer) (ng_session n) (store_at c k))"
    using stores_get [OF assms(2), of k] assms(3) establish(1) by (simp add: store_Fail_def)
  ultimately show ?thesis using establish assms
    by (intro plain_step) (auto simp: establishNegotiatedICE_def Let_def store_at_def intro!: stores_put split: sum.splits)
next
  case (complete now k p s d)
  then show ?thesis using assms by (auto intro: complete_ok)
next
  case (install k p s d t)
  have "owners_inv c (t # is)" "tunnel_for c p t d" "s \<noteq> []" "k < length (pc_heap c)" using assms(3,4) install(1) by auto
  note put = install_session_ok [OF assms(1) this(1-3)] this(4)
  have "stores_inv ok (installP2PSession p s d t c)" using put assms(2) by (simp add: stores_inv_def evolves_def)
  moreover have "same_sessions c1 (sendP2PSignal m c1)" for m c1 by simp
  note same = same_tables [OF this] same_owners [OF this]
  have "tunnel_for (sendP2PSignal m c1) = tunnel_for c1" for m c1 by (simp add: tunnel_for_def fun_eq_iff)
  ultimately show ?thesis using put install(2) by (auto simp: install_session_def good_step_def evolves_def same)
next
  case (monitor k p s)
  obtain b c1 where r: "removeP2PSessionIfMatch p s c = (b, c1)" by fastforce
  have "owners_inv c is" "k < length (pc_heap c)" using assms(3,4) monitor(1) by auto
  note removed = remove_session [OF assms(1) this(1) r]
  then have stores: "stores_inv ok c1" using assms(2) by (simp add: stores_inv_def evolves_def)
  have "store_good ok (pc_id c1) (store_Delete p s (store_at c1 k))"
    using stores_get [OF stores, of k] removed \<open>k < length (pc_heap c)\<close> by simp
  note stores' = stores_put [OF stores this, of k]
  have "same_sessions c1 (put_store k (store_Delete p s (store_at c1 k)) c1)" by simp
  note same = same_tables [OF this] same_owners [OF this]
  have "evolves c (put_store k (store_Delete p s (store_at c1 k)) c1)"
    using removed by (simp add: evolves_def tunnel_for_def)
  then show ?thesis using monitor(2,3) r removed stores stores' same
    by (cases b) (simp_all add: good_step_def monitorP2PSession_def)
qed

lemma peer_known: "tables_inv c \<Longrightarrow> p2pPeer c p = Some i \<Longrightarrow> pi_peer i = p"
  by (simp add: tables_inv_def p2pPeer_def)

lemma peer_info_ok:
  assumes "tables_inv c" "stores_inv ok c" "owners_inv c is" "handle_peer_info new_session s c = (ts', c')"
  shows "good_step ok c is ts' c'"
proof (cases "sm_peer_info s")
  case None
  with assms show ?thesis by (intro plain_step) (auto simp: handle_peer_info_def)
next
  case (Some i)
  let ?peer = "if pi_peer i = [] then i\<lparr>pi_peer := sm_from s\<rparr> else i"
  have c': "c' = c\<lparr>pc_peers := gm_put (pi_peer ?peer) ?peer (pc_peers c)\<rparr>"
    and ts': "ts' = (if ShouldInitiateICE (pc_id c) (pi_peer ?peer) then startICEOffer new_session ?peer c' else [])"
    using Some assms(4) by (auto simp: handle_peer_info_def Let_def)
  have same: "tunnel_for c' = tunnel_for c" "live_tunnels c' = live_tunnels c" unfolding c' by (simp_all add: tunnel_for_def live_tunnels_def fun_eq_iff)
  have "tables_inv c'" using assms(1) same(1) unfolding c' tables_inv_def by auto
  moreover have "stores_inv ok c'" "owners_inv c' is" using assms(2,3) same(2) unfolding c' by (simp_all add: stores_inv_def owners_inv_def)
  moreover have "pc_id c' = pc_id c" "pc_heap c' = pc_heap c" "pc_store c' = pc_store c" unfolding c' by simp_all
  ultimately show ?thesis using same stores_current [OF assms(2)] unfolding ts' by (auto simp: good_step_def evolves_def startICEOffer_def)
qed

lemma offer_signal_ok:
  assumes "tables_inv c" "stores_inv ok c" "owners_inv c is" "handle_offer now s c = (ts', c')"
  shows "good_step ok c is ts' c'"
proof -
  obtain r st where g: "store_Get now (sm_from s) (sm_session s) (store_at c (pc_store c)) = (r, st)" by fastforce
  have "store_good ok (pc_id c) st"
    using good_Get [OF stores_get [OF assms(2) stores_current [OF assms(2)]], of now "sm_from s" "sm_session s"] g by simp
  then have "stores_inv ok (put_store (pc_store c) st c)" by (rule stores_put [OF assms(2)])
  then show ?thesis using assms(2,4) g peer_known [OF assms(1)] stores_current [OF assms(2)]
    by (intro plain_step [OF assms(1,3)]) (auto simp: handle_offer_def Let_def split: option.splits if_splits)
qed

lemma answer_signal_ok:
  assumes "tables_inv c" "stores_inv ok c" "owners_inv c is" "handle_answer ok now s c = (ts', c')"
  shows "good_step ok c is ts' c'"
proof -
  let ?k = "pc_store c"
  obtain r st where g: "AddRemote ok now (sm_from s) (sm_session s) (sm_candidates s) (store_at c ?k) = (r, st)" by fastforce
  have "store_good ok (pc_id c) st"
    using good_AddRemote [OF stores_get [OF assms(2) stores_current [OF assms(2)]], of now "sm_from s" "sm_session s" "sm_candidates s"] g by simp
  then have stores: "stores_inv ok (put_store ?k st c)" by (rule stores_put [OF assms(2)])
  show ?thesis
  proof (cases "\<exists>peer. p2pPeer c (sm_from s) = Some peer \<and> begin_check now ?k peer (sm_from s) (sm_session s) (put_store ?k st c) = (ts', c')")
    case True
    then obtain peer where "p2pPeer c (sm_from s) = Some peer"
      and b: "begin_check now ?k peer (sm_from s) (sm_session s) (put_store ?k st c) = (ts', c')" by blast
    then have "pi_peer peer = sm_from s" using peer_known [OF assms(1)] by simp
    from begin_check_ok [OF stores _ this b] stores_current [OF assms(2)]
    show ?thesis by (intro plain_step [OF assms(1,3)]) (auto simp: same_sessions_def)
  next
    case False
    then have "ts' = [] \<and> (c' = c \<or> c' = put_store ?k st c)"
      using assms(4) g by (auto simp: handle_answer_def Let_def split: option.splits if_splits sum.splits)
    then show ?thesis using stores assms(2) by (intro plain_step [OF assms(1,3)]) auto
  qed
qed

lemma fallback_ok:
  assumes "tables_inv c" "stores_inv ok c" "owners_inv c is" "removeP2PSessionIfMatch p s c = (b, c1)"
  shows "good_step ok c is [] (cancel_prepared s' (put_store (pc_store c) (store_Fail p s (store_at c1 (pc_store c))) c1))"
proof -
  note removed = remove_session [OF assms(1,3,4)]
  then have stores: "stores_inv ok c1" using assms(2) by (simp add: stores_inv_def evolves_def)
  let ?c = "cancel_prepared s' (put_store (pc_store c) (store_Fail p s (store_at c1 (pc_store c))) c1)"
  have "store_good ok (pc_id c1) (store_Fail p s (store_at c1 (pc_store c)))"
    using stores_get [OF stores, of "pc_store c"] removed stores_current [OF assms(2)] by (simp add: store_Fail_def)
  from stores_put [OF stores this, of "pc_store c"] have "stores_inv ok ?c" by simp
  moreover have "same_sessions c1 ?c" by simp
  note same = same_tables [OF this] same_owners [OF this]
  have "tunnel_for ?c = tunnel_for c1" by (simp add: tunnel_for_def fun_eq_iff)
  ultimately show ?thesis using removed by (simp add: good_step_def evolves_def same)
qed

lemma signal_ok:
  assumes "tables_inv c" "stores_inv ok c" "owners_inv c is" "handleP2PSignal ok now new_session s c = (ts', c')"
  shows "good_step ok c is ts' c'"
proof -
  have idle: "good_step ok c is [] c" using assms by (intro plain_step) auto
  have trickle: "good_step ok c is [] (put_store (pc_store c) (snd (AddRemote ok now (sm_from s) (sm_session s) (sm_candidates s) (store_at c (pc_store c)))) c)"
    using good_AddRemote [OF stores_get [OF assms(2) stores_current [OF assms(2)]]]
    by (intro plain_step [OF assms(1,3)]) (auto intro!: stores_put assms(2))
  obtain b c1 where r: "removeP2PSessionIfMatch (sm_from s) (sm_session s) c = (b, c1)" by fastforce
  show ?thesis
    using assms(4) idle trickle fallback_ok [OF assms(1-3) r] peer_info_ok [OF assms(1-3)] offer_signal_ok [OF assms(1-3)]
      answer_signal_ok [OF assms(1-3)]
    by (auto simp: handleP2PSignal_def Let_def r split: if_splits)
qed

text \<open>Taking one task out of the list.\<close>

lemma pull_installing:
  assumes "i < length ts"
  shows "mset (installing ts) = mset (task_tunnels (ts ! i) @ installing (take i ts @ drop (Suc i) ts))"
    and "set ts = insert (ts ! i) (set (take i ts @ drop (Suc i) ts))"
proof -
  have ts: "ts = take i ts @ ts ! i # drop (Suc i) ts" by (rule id_take_nth_drop [OF assms])
  show "mset (installing ts) = mset (task_tunnels (ts ! i) @ installing (take i ts @ drop (Suc i) ts))"
    by (subst (1) ts) simp
  show "set ts = insert (ts ! i) (set (take i ts @ drop (Suc i) ts))" by (subst (1) ts) auto
qed

lemma owners_perm: "mset is = mset js \<Longrightarrow> owners_inv c is = owners_inv c js"
  using mset_eq_setD [of "is" js] mset_eq_imp_distinct_iff [of "is" js] by (simp add: owners_inv_def)

lemma manager_ok: "tables_inv c \<Longrightarrow> stores_inv ok c \<Longrightarrow> owners_inv c is \<Longrightarrow> good_step ok c is [] (c\<lparr>pc_manager := m\<rparr>)"
  and socket_ok: "tables_inv c \<Longrightarrow> stores_inv ok c \<Longrightarrow> owners_inv c is \<Longrightarrow> good_step ok c is [] (c\<lparr>pc_socket := b\<rparr>)"
  by (auto intro: plain_step)

lemma tunnel_ends_ok:
  "tables_inv c \<Longrightarrow> stores_inv ok c \<Longrightarrow> owners_inv c is \<Longrightarrow> good_step ok c is [] (close_tunnel t c)"
  by (auto simp: good_step_def evolves_def owners_inv_def)

lemma p2p_step_inv:
  assumes "p2p_step ok w w'" "p2p_inv ok w"
  shows "p2p_inv ok w'"
  using assms
proof cases
  case (signal now new_session s c ts' c' ts)
  then have "good_step ok c (installing ts) ts' c'" "\<forall>x \<in> set ts. peer_task_ok c x"
    using assms(2) signal_ok [OF _ _ _ signal(3)] by (auto simp: p2p_inv_def)
  from good_step_inv [OF this] show ?thesis using signal(2) by simp
next
  case (goroutine i ts c ts' c')
  let ?rest = "take i ts @ drop (Suc i) ts"
  note pull = pull_installing [OF goroutine(3)]
  have inv: "tables_inv c" "stores_inv ok c" "\<forall>x \<in> set ts. peer_task_ok c x" "owners_inv c (installing ts)"
    using assms(2) goroutine(1) by (auto simp: p2p_inv_def)
  have "peer_task_ok c (ts ! i)" "\<forall>x \<in> set ?rest. peer_task_ok c x" using inv(3) unfolding pull(2) by auto
  moreover have "owners_inv c (task_tunnels (ts ! i) @ installing ?rest)" using inv(4) owners_perm [OF pull(1)] by simp
  ultimately have "good_step ok c (installing ?rest) ts' c'" "\<forall>x \<in> set ?rest. peer_task_ok c x"
    using goroutine_ok [OF inv(1,2) _ _ goroutine(4)] by auto
  from good_step_inv [OF this] show ?thesis using goroutine(2) by simp
next
  case (tunnel_ends t c ts)
  then show ?thesis using assms(2) good_step_inv [OF tunnel_ends_ok, of c ok ts t] by (auto simp: p2p_inv_def)
next
  case (manager_acts c ts m)
  then show ?thesis using assms(2) good_step_inv [OF manager_ok, of c ok ts m] by (auto simp: p2p_inv_def)
next
  case (socket c ts b)
  then show ?thesis using assms(2) good_step_inv [OF socket_ok, of c ok ts b] by (auto simp: p2p_inv_def)
next
  case (disconnect c ts)
  then show ?thesis using assms(2) good_step_inv [OF disconnect_ok, of c ok ts] by (auto simp: p2p_inv_def)
qed

lemma p2p_reachable_inv: "p2p_reachable ok w \<Longrightarrow> p2p_inv ok w"
proof (induction rule: p2p_reachable.induct)
  case (start clientID targets stun m)
  have "stores_inv ok (NewP2PState clientID targets stun m)"
    using good_new [of ok clientID 128 "30 * second"] by (simp add: NewP2PState_def stores_inv_def store_good_def)
  then show ?case by (simp add: p2p_inv_def NewP2PState_def tables_inv_def owners_inv_def live_tunnels_def)
qed (rule p2p_step_inv)

section \<open>What the tables promise\<close>

text \<open>C10. The session tables of a client stay consistent under every interleaving of signals, connectivity
  checks, installations, monitors and reconnections: a peer has an active session exactly when it has
  a connection and a tunnel; that tunnel was made for that peer over that connection, and this
  client has the stream-numbering role the glare rule gives it; every negotiation, also in a store a
  reconnection has replaced, has the role of the same rule; and no tunnel leaks, since every open one is
  either the one the table holds or is about to be installed by exactly one goroutine, so that closing
  the state leaves no other open.\<close>

theorem peer_sessions_consistent:
  assumes "p2p_reachable ok (c, ts)"
  shows "(gm_get (pc_active c) p = None \<longleftrightarrow> gm_get (pc_tunnels c) p = None) \<and>
    (gm_get (pc_connections c) p = None \<longleftrightarrow> gm_get (pc_tunnels c) p = None) \<and>
    (\<forall>t. gm_get (pc_tunnels c) p = Some t \<longrightarrow> (\<exists>d. gm_get (pc_connections c) p = Some d \<and> tunnel_for c p t d)) \<and>
    (\<forall>st \<in> set (pc_heap c). \<forall>n. gm_get (ns_entries st) p = Some n \<longrightarrow>
       (ng_role n = NegotiationControlling \<longleftrightarrow> ShouldInitiateICE (pc_id c) p)) \<and>
    (\<forall>t \<in> live_tunnels c. in_table c t \<noteq> (t \<in> set (installing ts))) \<and> distinct (installing ts) \<and>
    live_tunnels (closeP2PState c) \<subseteq> set (installing ts)"
proof -
  have inv: "tables_inv c" "stores_inv ok c" "owners_inv c (installing ts)"
    using p2p_reachable_inv [OF assms] by (auto simp: p2p_inv_def)
  have "live_tunnels (closeP2PState c) \<subseteq> set (installing ts)"
    using disconnect_ok [OF inv] by (auto simp: good_step_def owners_inv_def closed_state(7))
  moreover have "\<exists>d. gm_get (pc_connections c) p = Some d \<and> tunnel_for c p t d" if "gm_get (pc_tunnels c) p = Some t" for t
    using inv(1) that unfolding tables_inv_def by (metis option.exhaust option.distinct(1))
  ultimately show ?thesis using inv
    by (auto simp: tables_inv_def stores_inv_def roles_ok_def role_ok_def owners_inv_def)
qed

theorem peer_sessions_consistent_witness:
  "\<exists>c. p2p_reachable (\<lambda>_. True) (c, [Preparing 0 ''b'' ''s'' ToOffer]) \<and>
     gm_get (pc_peers c) ''b'' \<noteq> None \<and> live_tunnels (closeP2PState c) = {}"
proof -
  let ?i = "\<lparr>pi_peer = ''b'', pi_public = [], pi_local = [], pi_nat = [], pi_token = ''t'', pi_session = ''u''\<rparr>"
  let ?n = "NewP2PState ''a'' [] [] (NewP2PManager None None ''a'' [])"
  let ?c = "?n\<lparr>pc_peers := [(''b'', ?i)]\<rparr>"
  have "''a'' < (''b'' :: string)" by (simp add: less_list_code)
  then have "handleP2PSignal (\<lambda>_. True) 0 ''s'' (NewPeerInfoSignal ''b'' (Some ?i)) ?n = ([Preparing 0 ''b'' ''s'' ToOffer], ?c)"
    by (simp add: handleP2PSignal_def NewPeerInfoSignal_def handle_peer_info_def startICEOffer_def ShouldInitiateICE_def NewP2PState_def)
  then have "p2p_step (\<lambda>_. True) (?n, []) (?c, [] @ [Preparing 0 ''b'' ''s'' ToOffer])" by (rule p2p_step.signal)
  then have r: "p2p_reachable (\<lambda>_. True) (?c, [Preparing 0 ''b'' ''s'' ToOffer])"
    using p2p_reachable.step [OF p2p_reachable.start] by force
  show ?thesis using peer_sessions_consistent [OF r, of "''b''"] r by (intro exI [of _ ?c]) auto
qed

end
