(* ===== verification/Peer_Exchange.thy ===== *)
theory Peer_Exchange
  imports Peer_Sessions Signal_Relay
begin

text \<open>
  Two clients and the server between them: an offer prepared by one client, relayed by the server's
  signalling socket (theory \<open>Signal_Relay\<close>), answered by the other client and relayed back
  (theory \<open>Peer_Sessions\<close>), as far as the connectivity checks on both sides.
\<close>

lemma Start_fresh:
  assumes "store_inv ok st" "gm_get (ns_entries st) p = None" "int (length (ns_entries st)) < ns_capacity st"
    and "p \<noteq> []" "s \<noteq> []" "role = NegotiationControlling \<or> role = NegotiationControlled"
    and "length ls \<le> 32" "length rs \<le> 32" "\<forall>c \<in> set ls \<union> set rs. candidate_ok ok c"
  shows "Start ok now p role s ls rs st =
    (Inr \<lparr>ng_peer = p, ng_session = s, ng_role = role, ng_state = NegotiationPending, ng_local = ls, ng_remote = rs, ng_expires = now + ns_ttl st\<rparr>,
     (expireLocked now st)\<lparr>ns_entries := gm_put p \<lparr>ng_peer = p, ng_session = s, ng_role = role, ng_state = NegotiationPending,
        ng_local = ls, ng_remote = rs, ng_expires = now + ns_ttl st\<rparr> (ns_entries (expireLocked now st))\<rparr>)"
proof -
  have "first_invalid ok (ls @ rs) = None" using assms(9) by (auto simp: first_invalid_iff)
  moreover have "gm_get (ns_entries (expireLocked now st)) p = None" using assms(1,2) by (simp add: gm_get_expire)
  moreover have "int (length (ns_entries (expireLocked now st))) < ns_capacity st"
    using assms(3) length_gm_keep [of "\<lambda>_. retained now" "ns_entries st"] by (simp add: expireLocked_def)
  ultimately show ?thesis using assms(4-8) by (auto simp: Start_def Let_def MaxICECandidates_def)
qed

text \<open>Candidates with pairwise different identifiers and addresses are all kept.\<close>

lemma add_all_candidates:
  "distinct (map (\<lambda>c. (cd_id c, cd_addr c)) (rs @ cs)) \<Longrightarrow> length (rs @ cs) \<le> 32 \<Longrightarrow> add_candidates rs cs = (True, rs @ cs)"
proof (induction cs arbitrary: rs)
  case (Cons c cs)
  have "(cd_id c, cd_addr c) \<notin> (\<lambda>e. (cd_id e, cd_addr e)) ` set rs" using Cons.prems(1) by simp
  then have "\<not> known_candidate rs c" unfolding known_candidate_def image_iff by metis
  moreover have "length rs < 32" using Cons.prems(2) by simp
  ultimately show ?case using Cons.IH [of "rs @ [c]"] Cons.prems by (simp add: MaxICECandidates_def)
qed simp

text \<open>What the server does with an offer or an answer whose recipient has a signalling socket.\<close>

lemma relayed:
  assumes "sm_type m = SignalTypeICEOffer \<or> sm_type m = SignalTypeICEAnswer" "sm_from m = clientID"
    and "DecodeSignal unmarshal addr_ok (marshal m) = Inr m" "signal_connected s (sm_to m)"
  shows "signal_socket_message unmarshal addr_ok s clientID (marshal m) = [(sm_to m, m)]"
proof -
  have "m\<lparr>sm_from := clientID\<rparr> = m" using assms(2) by simp
  then show ?thesis using assms
    by (auto simp: signal_socket_message_def handleP2PSignalRelay_def Let_def sendP2PSignalToClient_def signal_connected_def
        split: option.splits)
qed

text \<open>A client ready to negotiate with a peer: it has its signalling socket, knows the peer, and its store has room and no
  exchange with it.\<close>

definition ready_for :: "(string \<Rightarrow> bool) \<Rightarrow> peer_info \<Rightarrow> p2p_client \<Rightarrow> bool" where
  "ready_for ok i c \<longleftrightarrow> pc_socket c \<and> pc_id c \<noteq> [] \<and> length (pc_id c) \<le> 128 \<and> p2pPeer c (pi_peer i) = Some i \<and>
     pc_store c < length (pc_heap c) \<and> store_inv ok (store_at c (pc_store c)) \<and>
     gm_get (ns_entries (store_at c (pc_store c))) (pi_peer i) = None \<and>
     int (length (ns_entries (store_at c (pc_store c)))) < ns_capacity (store_at c (pc_store c))"

definition usable_candidates :: "(string \<Rightarrow> bool) \<Rightarrow> candidate list \<Rightarrow> bool" where
  "usable_candidates ok cs \<longleftrightarrow> cs \<noteq> [] \<and> length cs \<le> 32 \<and> (\<forall>c \<in> set cs. candidate_ok ok c) \<and>
     distinct (map (\<lambda>c. (cd_id c, cd_addr c)) cs)"

definition codec_ok :: "(signal_message \<Rightarrow> bytes) \<Rightarrow> (bytes \<Rightarrow> signal_message option) \<Rightarrow> signal_message \<Rightarrow> bool" where
  "codec_ok marshal unmarshal m \<longleftrightarrow> unmarshal (marshal m) = Some m \<and> marshal m \<noteq> [] \<and> length (marshal m) \<le> 65536"

lemma pair_eqI: "fst x = a \<Longrightarrow> snd x = b \<Longrightarrow> x = (a, b)" by (cases x) simp

text \<open>The offering side.\<close>

lemma offer_sent:
  assumes "ready_for ok i c" "pi_peer i \<noteq> []" "session \<noteq> []" "usable_candidates ok ls"
  obtains c' where "offer_prepared ok now (pc_store c) (pi_peer i) session ls c = ([], c')"
    and "pc_sent c' = pc_sent c @ [NewICEOfferSignal (pc_id c) (pi_peer i) session ls]"
    and "pc_id c' = pc_id c" "p2pPeer c' (pi_peer i) = Some i" "pc_store c' = pc_store c" "pc_store c' < length (pc_heap c')" "pc_socket c'"
    and "store_inv ok (store_at c' (pc_store c'))" "ns_ttl (store_at c' (pc_store c')) = ns_ttl (store_at c (pc_store c))"
    and "gm_get (ns_entries (store_at c' (pc_store c'))) (pi_peer i) =
      Some \<lparr>ng_peer = pi_peer i, ng_session = session, ng_role = NegotiationControlling, ng_state = NegotiationPending,
        ng_local = ls, ng_remote = [], ng_expires = now + ns_ttl (store_at c (pc_store c))\<rparr>"
proof -
  let ?st = "store_at c (pc_store c)"
  note start = Start_fresh [of ok ?st "pi_peer i" session NegotiationControlling ls "[]" now]
  have st: "Start ok now (pi_peer i) NegotiationControlling session ls [] ?st = (Inr n, st) \<Longrightarrow> store_inv ok st" for n st
    using store_inv_Start [of ok ?st now "pi_peer i" NegotiationControlling session ls "[]"] assms(1) by (simp add: ready_for_def)
  show ?thesis
    by (rule that [of "snd (offer_prepared ok now (pc_store c) (pi_peer i) session ls c)"])
      (use assms start st in \<open>simp_all add: ready_for_def usable_candidates_def offer_prepared_def sendP2PSignal_def p2pPeer_def put_store_def store_at_def\<close>)
qed

text \<open>The answering side: the offer starts a preparation, which ends in an answer and a check.\<close>

lemma offer_received:
  assumes "ready_for ok i c" "\<not> ShouldInitiateICE (pc_id c) (pi_peer i)"
  shows "\<exists>c'. handleP2PSignal ok now new_session (NewICEOfferSignal (pi_peer i) (pc_id c) session rs) c =
      ([Preparing (pc_store c) (pi_peer i) session (ToAnswer i rs)], c') \<and>
    ready_for ok i c' \<and> pc_id c' = pc_id c \<and> pc_store c' = pc_store c \<and> pc_sent c' = pc_sent c"
proof -
  let ?st = "store_at c (pc_store c)"
  let ?c = "put_store (pc_store c) (expireLocked now ?st) c"
  have room: "int (length (ns_entries (expireLocked now ?st))) < ns_capacity ?st"
    using assms(1) length_gm_keep [of "\<lambda>_. retained now" "ns_entries ?st"] by (simp add: ready_for_def expireLocked_def)
  have "gm_ok (ns_entries ?st)" "gm_get (ns_entries ?st) (pi_peer i) = None" using assms(1) by (auto simp: ready_for_def)
  then have none: "gm_get (ns_entries (expireLocked now ?st)) (pi_peer i) = None" by (simp add: gm_get_expire)
  have "store_Get now (pi_peer i) session ?st = (None, expireLocked now ?st)" using none by (simp add: store_Get_def Let_def)
  then have "handleP2PSignal ok now new_session (NewICEOfferSignal (pi_peer i) (pc_id c) session rs) c =
      ([Preparing (pc_store c) (pi_peer i) session (ToAnswer i rs)], ?c)"
    using assms by (simp add: handleP2PSignal_def NewICEOfferSignal_def handle_offer_def ready_for_def Let_def)
  moreover have "ready_for ok i ?c" using assms(1) room none by (simp add: ready_for_def p2pPeer_def)
  ultimately show ?thesis by (intro exI [of _ ?c]) (simp add: put_store_def)
qed

lemma check_after_start:
  assumes "gm_ok (ns_entries st)" "gm_get (ns_entries st) p = Some n" "ng_session n = session" "ng_state n = NegotiationPending" "now < ng_expires n"
  shows "\<exists>st'. BeginCheck now p session st = (Some (n\<lparr>ng_state := NegotiationChecking, ng_expires := now + ns_ttl st\<rparr>), st')"
proof -
  have "gm_get (ns_entries (expireLocked now st)) p = Some n" using assms(1,2,5) by (simp add: gm_get_expire retained_def)
  then show ?thesis using assms(3,4) by (simp add: BeginCheck_def Let_def)
qed

lemma answer_sent:
  assumes "ready_for ok i c" "pi_peer i \<noteq> []" "session \<noteq> []" "usable_candidates ok ls" "usable_candidates ok rs"
  shows "\<exists>n c'. answer_prepared ok now (pc_store c) i (pi_peer i) session rs ls c = ([Checking (pc_store c) i n], c') \<and>
    pc_sent c' = pc_sent c @ [NewICEAnswerSignal (pc_id c) (pi_peer i) session ls] \<and>
    ng_session n = session \<and> ng_role n = NegotiationControlled \<and> ng_local n = ls \<and> ng_remote n = rs"
proof -
  let ?k = "pc_store c" and ?st = "store_at c (pc_store c)"
  let ?n = "\<lparr>ng_peer = pi_peer i, ng_session = session, ng_role = NegotiationControlled, ng_state = NegotiationPending,
        ng_local = ls, ng_remote = rs, ng_expires = now + ns_ttl ?st\<rparr>"
  let ?x = "expireLocked now ?st"
  let ?y = "?x\<lparr>ns_entries := gm_put (pi_peer i) ?n (ns_entries ?x)\<rparr>"
  have st: "Start ok now (pi_peer i) NegotiationControlled session ls rs ?st = (Inr ?n, ?y)"
    using assms by (intro Start_fresh) (auto simp: ready_for_def usable_candidates_def)
  have inv: "store_inv ok ?y" "0 < ns_ttl ?st"
    using store_inv_Start [of ok ?st now "pi_peer i" NegotiationControlled session ls rs] st assms(1)
    by (simp_all add: ready_for_def store_inv_def [of ok ?st])
  then have "gm_ok (ns_entries ?y)" by (simp add: store_inv_def)
  from check_after_start [OF this, of "pi_peer i" ?n session now] inv(2)
  obtain st' where "BeginCheck now (pi_peer i) session ?y = (Some (?n\<lparr>ng_state := NegotiationChecking, ng_expires := now + ns_ttl ?y\<rparr>), st')"
    by auto
  then show ?thesis using st assms(1)
    by (simp add: answer_prepared_def begin_check_def ready_for_def sendP2PSignal_def put_store_def store_at_def)
qed

lemma answer_received:
  assumes "p2pPeer c (pi_peer i) = Some i" "ShouldInitiateICE (pc_id c) (pi_peer i)" "pc_store c < length (pc_heap c)"
    and "store_inv ok (store_at c (pc_store c))" "gm_get (ns_entries (store_at c (pc_store c))) (pi_peer i) = Some n"
    and "ng_session n = session" "ng_role n = NegotiationControlling" "ng_state n = NegotiationPending" "ng_remote n = []" "now < ng_expires n"
    and "usable_candidates ok rs"
  shows "\<exists>n' c'. handleP2PSignal ok now new_session (NewICEAnswerSignal (pi_peer i) (pc_id c) session rs) c =
      ([Checking (pc_store c) i n'], c') \<and>
    ng_session n' = session \<and> ng_role n' = NegotiationControlling \<and> ng_local n' = ng_local n \<and> ng_remote n' = rs"
proof -
  let ?st = "store_at c (pc_store c)"
  let ?n = "n\<lparr>ng_remote := rs, ng_expires := now + ns_ttl ?st\<rparr>"
  have get: "gm_get (ns_entries (expireLocked now ?st)) (pi_peer i) = Some n" using assms(4,5,10) by (simp add: gm_get_expire retained_def)
  have "first_invalid ok rs = None" using assms(11) by (auto simp: first_invalid_iff usable_candidates_def)
  then obtain st where add: "AddRemote ok now (pi_peer i) session rs ?st = (Inr ?n, st)" and st: "gm_get (ns_entries st) (pi_peer i) = Some ?n"
    using get assms(6,8,9,11) add_all_candidates [of "[]" rs] by (auto simp: AddRemote_def Let_def usable_candidates_def MaxICECandidates_def)
  have inv: "store_inv ok st" "0 < ns_ttl ?st"
    using store_inv_AddRemote [OF assms(4), of now "pi_peer i" session rs] add assms(4) by (simp_all add: store_inv_def [of ok ?st])
  obtain st' where "BeginCheck now (pi_peer i) session st = (Some (?n\<lparr>ng_state := NegotiationChecking, ng_expires := now + ns_ttl st\<rparr>), st')"
    using check_after_start [of st "pi_peer i" ?n session now] inv st assms(6,8) by auto
  then have "handleP2PSignal ok now new_session (NewICEAnswerSignal (pi_peer i) (pc_id c) session rs) c =
      ([Checking (pc_store c) i (?n\<lparr>ng_state := NegotiationChecking, ng_expires := now + ns_ttl st\<rparr>)],
       put_store (pc_store c) st' (put_store (pc_store c) st c))"
    using add assms(1-3,7) by (simp add: handleP2PSignal_def NewICEAnswerSignal_def handle_answer_def begin_check_def Let_def)
  then show ?thesis using assms(6,7) by auto
qed

section \<open>The whole exchange\<close>

lemma exchange_decodes:
  assumes "m = NewICEOfferSignal a b session cs \<or> m = NewICEAnswerSignal a b session cs" "codec_ok marshal unmarshal m"
    and "a \<noteq> []" "b \<noteq> []" "session \<noteq> []" "length a \<le> 128" "length b \<le> 128" "length session \<le> 128" "usable_candidates ok cs"
    and "signal_connected s b"
  shows "signal_socket_message unmarshal ok s a (marshal m) = [(b, m)]"
proof -
  have "signal_ok ok m" using assms(1,3-9)
    by (auto simp: signal_ok_def validSignalType_def isICESignal_def NewICEOfferSignal_def NewICEAnswerSignal_def usable_candidates_def)
  then have "DecodeSignal unmarshal ok (marshal m) = Inr m" using assms(2) by (simp add: decode_signal_iff codec_ok_def)
  moreover have "sm_to m = b" "sm_from m = a" "sm_type m = SignalTypeICEOffer \<or> sm_type m = SignalTypeICEAnswer"
    using assms(1) by (auto simp: NewICEOfferSignal_def NewICEAnswerSignal_def)
  ultimately show ?thesis using relayed [of m a unmarshal ok marshal s] assms(10) by simp
qed

text \<open>C11. An offer and its answer, each through the server's signalling socket, bring both clients to the
  connectivity checks of the same exchange: when two connected clients know each other and have no exchange
  with each other, the offer of the one the glare rule names reaches the other, whose answer comes back while the
  offer is still pending, and then both start to check, with the same session ID, complementary roles
  and each one's local candidates as the other's remote ones.\<close>

theorem offer_answer_agree:
  assumes ready: "ready_for ok ib a" "ready_for ok ia b" "pi_peer ib = pc_id b" "pi_peer ia = pc_id a" "pc_id a < pc_id b"
    and server: "signal_connected s (pc_id a)" "signal_connected s (pc_id b)"
    and session: "session \<noteq> []" "length session \<le> 128"
    and cands: "usable_candidates ok la" "usable_candidates ok lb"
    and codec: "codec_ok marshal unmarshal (NewICEOfferSignal (pc_id a) (pc_id b) session la)"
      "codec_ok marshal unmarshal (NewICEAnswerSignal (pc_id b) (pc_id a) session lb)"
    and time: "t4 < t1 + ns_ttl (store_at a (pc_store a))"
  shows "let offer = NewICEOfferSignal (pc_id a) (pc_id b) session la; answer = NewICEAnswerSignal (pc_id b) (pc_id a) session lb
    in \<exists>a1 b1 b2 nb na a2.
    offer_prepared ok t1 (pc_store a) (pc_id b) session la a = ([], a1) \<and> pc_sent a1 = pc_sent a @ [offer] \<and>
    signal_socket_message unmarshal ok s (pc_id a) (marshal offer) = [(pc_id b, offer)] \<and>
    handleP2PSignal ok t2 x offer b = ([Preparing (pc_store b) (pc_id a) session (ToAnswer ia la)], b1) \<and>
    answer_prepared ok t3 (pc_store b) ia (pc_id a) session la lb b1 = ([Checking (pc_store b) ia nb], b2) \<and>
    pc_sent b2 = pc_sent b @ [answer] \<and>
    signal_socket_message unmarshal ok s (pc_id b) (marshal answer) = [(pc_id a, answer)] \<and>
    handleP2PSignal ok t4 y answer a1 = ([Checking (pc_store a) ib na], a2) \<and>
    ng_session na = session \<and> ng_session nb = session \<and>
    ng_role na = NegotiationControlling \<and> ng_role nb = NegotiationControlled \<and>
    ng_local na = la \<and> ng_remote nb = la \<and> ng_local nb = lb \<and> ng_remote na = lb"
proof -
  have ids: "pc_id a \<noteq> []" "pc_id b \<noteq> []" "length (pc_id a) \<le> 128" "length (pc_id b) \<le> 128" using ready(1,2) by (auto simp: ready_for_def)
  then have glare: "ShouldInitiateICE (pc_id a) (pc_id b)" "\<not> ShouldInitiateICE (pc_id b) (pc_id a)"
    using ready(5) by (auto simp: ShouldInitiateICE_def)
  let ?offer = "NewICEOfferSignal (pc_id a) (pc_id b) session la" and ?answer = "NewICEAnswerSignal (pc_id b) (pc_id a) session lb"
  have relay: "signal_socket_message unmarshal ok s (pc_id a) (marshal ?offer) = [(pc_id b, ?offer)]"
    "signal_socket_message unmarshal ok s (pc_id b) (marshal ?answer) = [(pc_id a, ?answer)]"
    using exchange_decodes [OF disjI1 [OF refl] codec(1) ids(1,2) session(1) ids(3,4) session(2) cands(1) server(2)]
      exchange_decodes [OF disjI2 [OF refl] codec(2) ids(2,1) session(1) ids(4,3) session(2) cands(2) server(1)] by simp_all
  from offer_sent [OF ready(1) _ session(1) cands(1), of t1] ids ready(3)
  obtain a1 where a1: "offer_prepared ok t1 (pc_store a) (pc_id b) session la a = ([], a1)" "pc_sent a1 = pc_sent a @ [?offer]"
    "pc_id a1 = pc_id a" "p2pPeer a1 (pc_id b) = Some ib" "pc_store a1 = pc_store a" "pc_store a1 < length (pc_heap a1)"
    "store_inv ok (store_at a1 (pc_store a1))"
    "gm_get (ns_entries (store_at a1 (pc_store a1))) (pc_id b) =
      Some \<lparr>ng_peer = pc_id b, ng_session = session, ng_role = NegotiationControlling, ng_state = NegotiationPending,
        ng_local = la, ng_remote = [], ng_expires = t1 + ns_ttl (store_at a (pc_store a))\<rparr>" by metis
  obtain b1 where b1: "handleP2PSignal ok t2 x ?offer b = ([Preparing (pc_store b) (pc_id a) session (ToAnswer ia la)], b1)"
    "ready_for ok ia b1" "pc_id b1 = pc_id b" "pc_store b1 = pc_store b" "pc_sent b1 = pc_sent b"
    using offer_received [OF ready(2), of t2 x session la] glare(2) ready(4) by auto
  obtain nb b2 where b2: "answer_prepared ok t3 (pc_store b) ia (pc_id a) session la lb b1 = ([Checking (pc_store b) ia nb], b2)"
    "pc_sent b2 = pc_sent b @ [?answer]" "ng_session nb = session" "ng_role nb = NegotiationControlled" "ng_local nb = lb" "ng_remote nb = la"
    using answer_sent [OF b1(2) _ session(1) cands(2,1), of t3] ids ready(4) b1 by auto
  obtain na a2 where a2: "handleP2PSignal ok t4 y ?answer a1 = ([Checking (pc_store a) ib na], a2)"
    "ng_session na = session" "ng_role na = NegotiationControlling" "ng_local na = la" "ng_remote na = lb"
    using answer_received [OF a1(4) [folded ready(3)] _ a1(6,7) a1(8) [folded ready(3)], of session t4 lb y]
      glare(1) time cands(2) ready(3) a1(3,5) by auto
  show ?thesis using relay a1 b1 b2 a2 unfolding Let_def by blast
qed

theorem offer_answer_agree_witness:
  "\<exists>a (b :: p2p_client) n. let cs = [demo_candidate]; offer = NewICEOfferSignal ''a'' ''b'' ''s'' cs; answer = NewICEAnswerSignal ''b'' ''a'' ''s'' cs;
      i = \<lparr>pi_peer = ''b'', pi_public = [], pi_local = [], pi_nat = [], pi_token = ''t'', pi_session = ''u''\<rparr>
    in pc_sent a = [offer] \<and> fst (handleP2PSignal (\<lambda>_. True) 4 [] answer a) = [Checking 0 i n] \<and>
       pc_sent b = [answer] \<and> ng_remote n = cs"
proof -
  let ?cs = "[demo_candidate]" and ?ok = "\<lambda>_. True"
  let ?i = "\<lambda>p. \<lparr>pi_peer = p, pi_public = [], pi_local = [], pi_nat = [], pi_token = ''t'', pi_session = ''u''\<rparr>"
  let ?c = "\<lambda>own p. (NewP2PState own [] [] (NewP2PManager None None own []))\<lparr>pc_peers := [(p, ?i p)], pc_socket := True\<rparr>"
  let ?offer = "NewICEOfferSignal ''a'' ''b'' ''s'' ?cs" and ?answer = "NewICEAnswerSignal ''b'' ''a'' ''s'' ?cs"
  let ?marshal = "\<lambda>m. if m = ?offer then [1] else [2]" and ?unmarshal = "\<lambda>d. if d = [1] then Some ?offer else Some ?answer"
  let ?s = "signal_server\<lparr>sv_clients := [(''a'', 0), (''b'', 0)]\<rparr>"
  have sock: "sc_signal (client_at ?s 0) \<noteq> None"
    by (simp add: signal_server_def example_server_def enroll_def empty_server_def modify_def)
  have store: "store_inv ?ok (NewNegotiationStore 128 (30 * second))" by (simp add: good_new [unfolded store_good_def])
  have ready: "ready_for ?ok (?i ''b'') (?c ''a'' ''b'')" "ready_for ?ok (?i ''a'') (?c ''b'' ''a'')"
    using store by (simp_all add: ready_for_def NewP2PState_def p2pPeer_def store_at_def NewNegotiationStore_def)
  have cs: "usable_candidates ?ok ?cs" by (simp add: usable_candidates_def candidate_ok_def validCandidateType_def)
  have "?offer \<noteq> ?answer" by (simp add: NewICEOfferSignal_def NewICEAnswerSignal_def)
  then have codec: "codec_ok ?marshal ?unmarshal ?offer" "codec_ok ?marshal ?unmarshal ?answer" by (simp_all add: codec_ok_def)
  have "pc_id (?c ''a'' ''b'') < pc_id (?c ''b'' ''a'')" by (simp add: NewP2PState_def less_list_code)
  moreover have "signal_connected ?s ''a''" "signal_connected ?s ''b''" using sock by (simp_all add: signal_connected_def)
  moreover have "4 < 1 + ns_ttl (store_at (?c ''a'' ''b'') (pc_store (?c ''a'' ''b'')))"
    by (simp add: NewP2PState_def store_at_def NewNegotiationStore_def)
  moreover have ids: "pc_id (?c ''a'' ''b'') = ''a''" "pc_id (?c ''b'' ''a'') = ''b''" "pc_store (?c ''a'' ''b'') = 0"
    "pc_sent (?c ''a'' ''b'') = []" "pc_sent (?c ''b'' ''a'') = []" by (simp_all add: NewP2PState_def)
  ultimately have "let offer = NewICEOfferSignal (pc_id (?c ''a'' ''b'')) (pc_id (?c ''b'' ''a'')) ''s'' ?cs;
      answer = NewICEAnswerSignal (pc_id (?c ''b'' ''a'')) (pc_id (?c ''a'' ''b'')) ''s'' ?cs
    in \<exists>a1 b1 b2 nb na a2.
    offer_prepared ?ok 1 (pc_store (?c ''a'' ''b'')) (pc_id (?c ''b'' ''a'')) ''s'' ?cs (?c ''a'' ''b'') = ([], a1) \<and>
    pc_sent a1 = pc_sent (?c ''a'' ''b'') @ [offer] \<and>
    signal_socket_message ?unmarshal ?ok ?s (pc_id (?c ''a'' ''b'')) (?marshal offer) = [(pc_id (?c ''b'' ''a''), offer)] \<and>
    handleP2PSignal ?ok 2 [] offer (?c ''b'' ''a'') =
      ([Preparing (pc_store (?c ''b'' ''a'')) (pc_id (?c ''a'' ''b'')) ''s'' (ToAnswer (?i ''a'') ?cs)], b1) \<and>
    answer_prepared ?ok 3 (pc_store (?c ''b'' ''a'')) (?i ''a'') (pc_id (?c ''a'' ''b'')) ''s'' ?cs ?cs b1 =
      ([Checking (pc_store (?c ''b'' ''a'')) (?i ''a'') nb], b2) \<and>
    pc_sent b2 = pc_sent (?c ''b'' ''a'') @ [answer] \<and>
    signal_socket_message ?unmarshal ?ok ?s (pc_id (?c ''b'' ''a'')) (?marshal answer) = [(pc_id (?c ''a'' ''b''), answer)] \<and>
    handleP2PSignal ?ok 4 [] answer a1 = ([Checking (pc_store (?c ''a'' ''b'')) (?i ''b'') na], a2) \<and>
    ng_session na = ''s'' \<and> ng_session nb = ''s'' \<and>
    ng_role na = NegotiationControlling \<and> ng_role nb = NegotiationControlled \<and>
    ng_local na = ?cs \<and> ng_remote nb = ?cs \<and> ng_local nb = ?cs \<and> ng_remote na = ?cs"
    using cs codec by (intro offer_answer_agree [OF ready]) simp_all
  then obtain a1 b2 na a2 where "pc_sent a1 = [?offer]" "pc_sent (b2 :: p2p_client) = [?answer]"
    "handleP2PSignal ?ok 4 [] ?answer a1 = ([Checking 0 (?i ''b'') na], a2)" "ng_remote na = ?cs"
    unfolding Let_def ids append_Nil by (elim exE conjE) (rule that, assumption+)
  then show ?thesis by (intro exI [of _ a1] exI [of _ b2] exI [of _ na]) (simp add: Let_def)
qed

end
