(* ===== verification/Telemetry.thy ===== *)
theory Telemetry
  imports Http
begin

text \<open>
  Request telemetry (\<^verbatim>\<open>cmd/telemetry/telemetry.go\<close>): the trace context header, the middleware that
  records one span per request, the OTLP exporter, and the asynchronous exporter with its bounded
  queue, batching goroutine, retries and shutdown. The exporter is a state machine whose events are the
  atomic steps of \<^verbatim>\<open>Export\<close>, \<^verbatim>\<open>Close\<close> and the goroutine \<^verbatim>\<open>run\<close>, in any interleaving; the
  counters keep their 64 bits. The collector, JSON and the URL parser are arguments.
\<close>

section \<open>Spans and the trace context\<close>

record span =
  sp_trace :: string
  sp_span :: string
  sp_name :: string
  sp_start :: time
  sp_end :: time
  sp_attributes :: "(string, string) gomap"
  sp_status :: int

abbreviation hex_alphabet :: string where "hex_alphabet \<equiv> ''0123456789abcdef''"

definition hex_value :: "char \<Rightarrow> nat option" where
  "hex_value c = index_in (to_lower_char c) hex_alphabet"

text \<open>\<^verbatim>\<open>hex.DecodeString\<close> and \<^verbatim>\<open>hex.EncodeToString\<close>.\<close>

fun hex_decode :: "string \<Rightarrow> bytes option" where
  "hex_decode [] = Some []"
| "hex_decode [_] = None"
| "hex_decode (a # b # s) =
     (case hex_value a of
        None \<Rightarrow> None
      | Some x \<Rightarrow> (case hex_value b of
          None \<Rightarrow> None
        | Some y \<Rightarrow> map_option (Cons (word_of_nat (16 * x + y))) (hex_decode s)))"

definition hex_encode :: "bytes \<Rightarrow> string" where
  "hex_encode bs = concat (map (\<lambda>b. [hex_alphabet ! (unat b div 16), hex_alphabet ! (unat b mod 16)]) bs)"

text \<open>\<^verbatim>\<open>NewTraceID\<close> and \<^verbatim>\<open>NewSpanID\<close>: \<open>r\<close> is what the random source returns.\<close>

definition NewTraceID :: "bytes option \<Rightarrow> string" where
  "NewTraceID r = (case r of None \<Rightarrow> replicate 32 (CHR ''0'') | Some b \<Rightarrow> hex_encode b)"

definition NewSpanID :: "bytes option \<Rightarrow> string" where
  "NewSpanID r = (case r of None \<Rightarrow> replicate 16 (CHR ''0'') | Some b \<Rightarrow> hex_encode b)"

fun allZero :: "bytes \<Rightarrow> bool" where
  "allZero [] = True"
| "allZero (x # b) = (if x \<noteq> 0 then False else allZero b)"

definition ExtractTraceparent :: "string \<Rightarrow> (string \<times> string) option" where
  "ExtractTraceparent h =
     (case split_on (CHR ''-'') (trim_space h) of
        [p0, p1, p2, p3] \<Rightarrow>
          if length p0 \<noteq> 2 \<or> length p1 \<noteq> 32 \<or> length p2 \<noteq> 16 \<or> length p3 \<noteq> 2 then None
          else (case (hex_decode p0, hex_decode p1, hex_decode p2, hex_decode p3) of
                  (Some v, Some t, Some p, Some _) \<Rightarrow>
                    if hd v = 0xff \<or> allZero t \<or> allZero p then None else Some (p1, p2)
                | _ \<Rightarrow> None)
      | _ \<Rightarrow> None)"

definition InjectTraceparent :: "string \<Rightarrow> string \<Rightarrow> string" where
  "InjectTraceparent trace sp = ''00-'' @ trace @ ''-'' @ sp @ ''-01''"

section \<open>The request middleware\<close>

text \<open>What a handler does with its \<^verbatim>\<open>ResponseWriter\<close>; the \<open>statusWriter\<close> passes on a part of it.\<close>

datatype response_call = WriteHeader int | WriteBody bytes | Flush | Hijack

definition statusWriter_WriteHeader :: "int \<Rightarrow> int \<Rightarrow> int \<times> response_call list" where
  "statusWriter_WriteHeader s st = (if st \<noteq> 0 then (st, []) else (s, [WriteHeader s]))"

definition statusWriter_Write :: "bytes \<Rightarrow> int \<Rightarrow> int \<times> response_call list" where
  "statusWriter_Write b st = (if st = 0 then 200 else st, [WriteBody b])"

fun status_calls :: "int \<Rightarrow> response_call list \<Rightarrow> int \<times> response_call list" where
  "status_calls st [] = (st, [])"
| "status_calls st (c # cs) =
     (let (st', out) = (case c of
            WriteHeader s \<Rightarrow> statusWriter_WriteHeader s st
          | WriteBody b \<Rightarrow> statusWriter_Write b st
          | Flush \<Rightarrow> (st, [Flush])
          | Hijack \<Rightarrow> (st, [Hijack]));
          (st'', out') = status_calls st' cs
      in (st'', out @ out'))"

text \<open>\<^verbatim>\<open>HTTPMiddlewareWithExporter\<close>: the request the handler sees with the trace of its context, the calls
  that reach the connection, and the span exported. \<open>next\<close> is the wrapped handler.\<close>

definition HTTPMiddlewareWithExporter ::
  "(string \<Rightarrow> http_request \<Rightarrow> response_call list) \<Rightarrow> bool \<Rightarrow> bytes option \<Rightarrow> bytes option \<Rightarrow> time \<Rightarrow> time \<Rightarrow> http_request \<Rightarrow>
   response_call list \<times> span list" where
  "HTTPMiddlewareWithExporter next exporter rand1 rand2 start now r =
     (let trace = (case ExtractTraceparent (header_get (rq_header r) ''Traceparent'') of
                     Some (t, _) \<Rightarrow> t | None \<Rightarrow> NewTraceID rand1);
          sp = NewSpanID rand2;
          r' = r\<lparr>rq_header := gm_put ''Traceparent'' [InjectTraceparent trace sp] (rq_header r)\<rparr>;
          (st, out) = status_calls 0 (next trace r');
          status = (if st = 0 then 200 else st)
      in (out,
          if exporter then [\<lparr>sp_trace = trace, sp_span = sp, sp_name = rq_method r @ '' '' @ rq_path r, sp_start = start, sp_end = now,
             sp_attributes = [(''http.method'', rq_method r), (''http.route'', rq_path r)], sp_status = status\<rparr>]
          else []))"

section \<open>The OTLP exporter\<close>

record otlp_span =
  ot_trace :: string
  ot_span :: string
  ot_name :: string
  ot_start :: int
  ot_end :: int
  ot_attributes :: "(string \<times> string) list"
  ot_status :: int

definition otlpStatusForHTTP :: "int \<Rightarrow> int" where
  "otlpStatusForHTTP status = (if status \<ge> 500 then 2 else 0)"

definition otlpAttributes :: "(string, string) gomap \<Rightarrow> (string \<times> string) list" where
  "otlpAttributes m = map (\<lambda>(k, v). (k, v)) m"

definition otlp_span_of :: "span \<Rightarrow> otlp_span" where
  "otlp_span_of s = \<lparr>ot_trace = sp_trace s, ot_span = sp_span s, ot_name = sp_name s, ot_start = sp_start s, ot_end = sp_end s,
     ot_attributes = otlpAttributes (sp_attributes s), ot_status = otlpStatusForHTTP (sp_status s)\<rparr>"

text \<open>\<^verbatim>\<open>normalizeOTLPTraceEndpoint\<close>, over a URL parser and printer.\<close>

definition normalizeOTLPTraceEndpoint ::
  "(string \<Rightarrow> 'u option) \<Rightarrow> ('u \<Rightarrow> string) \<Rightarrow> (string \<Rightarrow> 'u \<Rightarrow> 'u) \<Rightarrow> ('u \<Rightarrow> string) \<Rightarrow> string \<Rightarrow> string" where
  "normalizeOTLPTraceEndpoint parse path set_path print endpoint =
     (let endpoint = trim_space endpoint in
      case parse endpoint of
        None \<Rightarrow> endpoint
      | Some u \<Rightarrow> print (if path u = [] \<or> path u = ''/'' then set_path ''/v1/traces'' u else u))"

datatype export_error = EmptyEndpoint | MarshalFailed | BadRequest | TransportFailed | CollectorStatus int | NilExporter

text \<open>The errors that \<^verbatim>\<open>exportBatch\<close> wraps in \<^verbatim>\<open>retryableExportError\<close>.\<close>

fun Retryable :: "export_error \<Rightarrow> bool" where
  "Retryable TransportFailed = True"
| "Retryable (CollectorStatus s) = (s = 429 \<or> s \<ge> 500)"
| "Retryable _ = False"

text \<open>\<^verbatim>\<open>exportBatch\<close>: \<open>request_ok\<close> is whether the request can be made, \<open>post\<close> the exchange with the collector.\<close>

definition exportBatch ::
  "(otlp_span list \<Rightarrow> bytes option) \<Rightarrow> (string \<Rightarrow> bool) \<Rightarrow> (string \<Rightarrow> bytes \<Rightarrow> int option) \<Rightarrow> string \<Rightarrow> span list \<Rightarrow> export_error option" where
  "exportBatch marshal request_ok post endpoint spans =
     (if endpoint = [] then Some EmptyEndpoint
      else case marshal (map otlp_span_of spans) of
        None \<Rightarrow> Some MarshalFailed
      | Some b \<Rightarrow>
          if \<not> request_ok endpoint then Some BadRequest
          else (case post endpoint b of
                  None \<Rightarrow> Some TransportFailed
                | Some status \<Rightarrow> if 200 \<le> status \<and> status < 300 then None else Some (CollectorStatus status)))"

section \<open>The asynchronous exporter\<close>

record async_config =
  ac_queue :: int
  ac_batch :: int
  ac_flush :: time
  ac_timeout :: time
  ac_retries :: int
  ac_backoff :: time

abbreviation minute :: time where "minute \<equiv> 60 * second"

definition DefaultAsyncOTLPConfig :: async_config where
  "DefaultAsyncOTLPConfig = \<lparr>ac_queue = 2048, ac_batch = 128, ac_flush = second, ac_timeout = 5 * second, ac_retries = 3,
     ac_backoff = 100 * millisecond\<rparr>"

definition bounded_config :: "async_config \<Rightarrow> async_config" where
  "bounded_config cfg =
     (let d = DefaultAsyncOTLPConfig;
          cfg = cfg\<lparr>ac_queue := if ac_queue cfg \<le> 0 then ac_queue d else if ac_queue cfg > 65536 then 65536 else ac_queue cfg\<rparr>;
          cfg = cfg\<lparr>ac_batch := if ac_batch cfg \<le> 0 then ac_batch d else ac_batch cfg\<rparr>;
          cfg = cfg\<lparr>ac_batch := if ac_batch cfg > ac_queue cfg then ac_queue cfg else ac_batch cfg\<rparr>;
          cfg = cfg\<lparr>ac_batch := if ac_batch cfg > 4096 then 4096 else ac_batch cfg\<rparr>;
          cfg = cfg\<lparr>ac_flush := if ac_flush cfg \<le> 0 then ac_flush d else if ac_flush cfg > 60 * minute then 60 * minute else ac_flush cfg\<rparr>;
          cfg = cfg\<lparr>ac_timeout := if ac_timeout cfg \<le> 0 then ac_timeout d else if ac_timeout cfg > minute then minute else ac_timeout cfg\<rparr>;
          cfg = cfg\<lparr>ac_retries := if ac_retries cfg < 0 then 0 else if ac_retries cfg > 8 then 8 else ac_retries cfg\<rparr>
      in cfg\<lparr>ac_backoff := if ac_backoff cfg \<le> 0 then ac_backoff d else if ac_backoff cfg > minute then minute else ac_backoff cfg\<rparr>)"

text \<open>Where the goroutine \<^verbatim>\<open>run\<close> is: in the outer select, in the inner loop after \<^verbatim>\<open>stop\<close>, returned, or in \<^verbatim>\<open>send\<close>
  (before an attempt, or sleeping after one) with where \<^verbatim>\<open>flush\<close> returns to.\<close>

datatype run_phase = Selecting | Draining | Finished | Sending nat run_phase | Waiting nat run_phase

text \<open>\<open>ax_adding\<close> counts the \<^verbatim>\<open>Export\<close> calls between the channel send and \<^verbatim>\<open>accepted.Add\<close>; \<open>ax_taken\<close> and \<open>ax_settled\<close> are
  history: the spans put in the queue, and the batches \<^verbatim>\<open>send\<close> is finished with, with whether they were delivered.\<close>

record async_exporter =
  ax_cfg :: async_config
  ax_queue :: "span list"
  ax_batch :: "span list"
  ax_phase :: run_phase
  ax_closed :: bool
  ax_adding :: nat
  ax_accepted :: u64
  ax_exported :: u64
  ax_dropped :: u64
  ax_failed :: u64
  ax_retries :: u64
  ax_batches :: u64
  ax_offered :: nat
  ax_taken :: "span list"
  ax_settled :: "(bool \<times> span list) list"

definition newAsyncOTLPExporter :: "async_config \<Rightarrow> async_exporter" where
  "newAsyncOTLPExporter cfg = \<lparr>ax_cfg = bounded_config cfg, ax_queue = [], ax_batch = [], ax_phase = Selecting, ax_closed = False,
     ax_adding = 0, ax_accepted = 0, ax_exported = 0, ax_dropped = 0, ax_failed = 0, ax_retries = 0, ax_batches = 0,
     ax_offered = 0, ax_taken = [], ax_settled = []\<rparr>"

definition async_Export :: "span \<Rightarrow> async_exporter \<Rightarrow> async_exporter" where
  "async_Export s e =
     (let e = e\<lparr>ax_offered := Suc (ax_offered e)\<rparr> in
      if ax_closed e then e\<lparr>ax_dropped := ax_dropped e + 1\<rparr>
      else if int (length (ax_queue e)) < ac_queue (ax_cfg e)
        then e\<lparr>ax_queue := ax_queue e @ [s], ax_taken := ax_taken e @ [s], ax_adding := Suc (ax_adding e)\<rparr>
      else e\<lparr>ax_dropped := ax_dropped e + 1\<rparr>)"

text \<open>The rest of an \<^verbatim>\<open>Export\<close> that was accepted, and \<^verbatim>\<open>Close\<close> up to its wait: the write lock excludes an \<^verbatim>\<open>Export\<close> under way.\<close>

definition Export_counted :: "async_exporter \<Rightarrow> async_exporter" where
  "Export_counted e = (if ax_adding e = 0 then e else e\<lparr>ax_adding := ax_adding e - 1, ax_accepted := ax_accepted e + 1\<rparr>)"

definition async_Close :: "async_exporter \<Rightarrow> async_exporter" where
  "async_Close e = (if ax_adding e = 0 then e\<lparr>ax_closed := True\<rparr> else e)"

definition flush :: "run_phase \<Rightarrow> async_exporter \<Rightarrow> async_exporter" where
  "flush next e = (if ax_batch e \<noteq> [] then e\<lparr>ax_phase := Sending 0 next\<rparr> else e\<lparr>ax_phase := next\<rparr>)"

definition receive :: "async_exporter \<Rightarrow> async_exporter" where
  "receive e =
     (case ax_queue e of
        [] \<Rightarrow> e
      | s # q \<Rightarrow>
          let e = e\<lparr>ax_queue := q, ax_batch := ax_batch e @ [s]\<rparr> in
          if int (length (ax_batch e)) \<ge> ac_batch (ax_cfg e) then flush (ax_phase e) e else e)"

text \<open>The channels the goroutine's \<^verbatim>\<open>select\<close> may take; \<open>Default\<close> only when the queue is empty.\<close>

datatype run_choice = FromQueue | Tick | Stop | Default

definition run_select :: "run_choice \<Rightarrow> async_exporter \<Rightarrow> async_exporter" where
  "run_select ch e =
     (case (ax_phase e, ch) of
        (Selecting, FromQueue) \<Rightarrow> receive e
      | (Selecting, Tick) \<Rightarrow> flush Selecting e
      | (Selecting, Stop) \<Rightarrow> if ax_closed e then e\<lparr>ax_phase := Draining\<rparr> else e
      | (Draining, FromQueue) \<Rightarrow> receive e
      | (Draining, Default) \<Rightarrow> if ax_queue e = [] then flush Finished e else e
      | _ \<Rightarrow> e)"

definition settle :: "bool \<Rightarrow> run_phase \<Rightarrow> async_exporter \<Rightarrow> async_exporter" where
  "settle delivered next e =
     e\<lparr>ax_phase := next, ax_batch := [], ax_settled := ax_settled e @ [(delivered, ax_batch e)]\<rparr>"

text \<open>One attempt of \<^verbatim>\<open>send\<close>, with the result of the export, and the end of its sleep.\<close>

definition send_attempt :: "export_error option \<Rightarrow> async_exporter \<Rightarrow> async_exporter" where
  "send_attempt result e =
     (case ax_phase e of
        Sending a next \<Rightarrow>
          (let n = word_of_nat (length (ax_batch e)) in
           case result of
             None \<Rightarrow> settle True next (e\<lparr>ax_exported := ax_exported e + n, ax_batches := ax_batches e + 1\<rparr>)
           | Some err \<Rightarrow>
               if int a \<ge> ac_retries (ax_cfg e) \<or> \<not> Retryable err
               then settle False next (e\<lparr>ax_failed := ax_failed e + n, ax_dropped := ax_dropped e + n\<rparr>)
               else e\<lparr>ax_retries := ax_retries e + 1, ax_phase := Waiting a next\<rparr>)
      | _ \<Rightarrow> e)"

definition send_again :: "async_exporter \<Rightarrow> async_exporter" where
  "send_again e = (case ax_phase e of Waiting a next \<Rightarrow> e\<lparr>ax_phase := Sending (Suc a) next\<rparr> | _ \<Rightarrow> e)"

text \<open>The sleep of \<^verbatim>\<open>send\<close>: the shift is on a signed 64-bit duration.\<close>

definition retry_delay :: "async_config \<Rightarrow> nat \<Rightarrow> time" where
  "retry_delay cfg a =
     (let delay = sint (push_bit a (word_of_int (ac_backoff cfg) :: u64)) in
      if delay \<le> 0 \<or> delay > minute then minute else delay)"

datatype async_event = Offer span | Counted | CloseCall | Select run_choice | Attempt "export_error option" | Awake

fun async_step :: "async_exporter \<Rightarrow> async_event \<Rightarrow> async_exporter" where
  "async_step e (Offer s) = async_Export s e"
| "async_step e Counted = Export_counted e"
| "async_step e CloseCall = async_Close e"
| "async_step e (Select ch) = run_select ch e"
| "async_step e (Attempt r) = send_attempt r e"
| "async_step e Awake = send_again e"

record async_stats =
  st_accepted :: u64
  st_exported :: u64
  st_dropped :: u64
  st_failed :: u64
  st_retries :: u64
  st_batches :: u64
  st_depth :: nat
  st_capacity :: int

definition async_Stats :: "async_exporter \<Rightarrow> async_stats" where
  "async_Stats e = \<lparr>st_accepted = ax_accepted e, st_exported = ax_exported e, st_dropped = ax_dropped e, st_failed = ax_failed e,
     st_retries = ax_retries e, st_batches = ax_batches e, st_depth = length (ax_queue e), st_capacity = ac_queue (ax_cfg e)\<rparr>"


section \<open>The trace context survives\<close>

lemma hex_value_alphabet: "n < 16 \<Longrightarrow> hex_value (hex_alphabet ! n) = Some n"
proof -
  assume "n < 16"
  moreover have "\<forall>n < 16. hex_value (hex_alphabet ! n) = Some n" by (code_simp)
  ultimately show ?thesis by blast
qed

lemma hex_decode_encode [simp]: "hex_decode (hex_encode bs) = Some bs"
proof (induction bs)
  case (Cons b bs)
  have "unat b div 16 < 16" using unat_less_256 [of b] by linarith
  moreover have "word_of_nat (16 * (unat b div 16) + unat b mod 16) = b" by simp
  ultimately show ?case using Cons by (simp add: hex_encode_def hex_value_alphabet del: mult_div_mod_eq)
qed (simp add: hex_encode_def)

lemma length_hex_encode [simp]: "length (hex_encode bs) = 2 * length bs"
  by (induction bs) (simp_all add: hex_encode_def)

lemma hex_encode_alphabet: "c \<in> set (hex_encode bs) \<Longrightarrow> c \<in> set hex_alphabet"
proof -
  assume "c \<in> set (hex_encode bs)"
  then obtain b n where "c = hex_alphabet ! n" "n = unat (b :: byte) div 16 \<or> n = unat b mod 16" by (auto simp: hex_encode_def)
  moreover have "unat b div 16 < 16" "unat b mod 16 < 16" using unat_less_256 [of b] by linarith+
  ultimately show ?thesis using nth_mem [of n hex_alphabet] by auto
qed

lemma dropWhile_keep: "s \<noteq> [] \<Longrightarrow> \<not> P (hd s) \<Longrightarrow> dropWhile P s = s"
  by (cases s) auto

lemma traceparent_fields:
  assumes "CHR ''-'' \<notin> set t" "CHR ''-'' \<notin> set p"
  shows "split_on (CHR ''-'') (trim_space (InjectTraceparent t p)) = [''00'', t, p, ''01'']"
proof -
  have "trim_space (InjectTraceparent t p) = InjectTraceparent t p"
    by (simp add: trim_space_def InjectTraceparent_def dropWhile_keep is_space_def)
  moreover have "InjectTraceparent t p = ''00'' @ CHR ''-'' # t @ CHR ''-'' # p @ CHR ''-'' # ''01''" by (simp add: InjectTraceparent_def)
  ultimately show ?thesis using assms by (simp only: split_on_append) (simp add: split_on_append)
qed

text \<open>Trace context survives the hop: from a random source that works, unless it returned only zero bytes,
  the identifiers the middleware makes are 32 and 16 hexadecimal digits and the header it injects is read back, by this or
  another instance, as exactly these identifiers; and the middleware continues the trace a valid header names.\<close>

theorem traceparent_roundtrip:
  assumes "length b = 16" "length d = 8" "\<not> allZero b" "\<not> allZero d"
  shows "ExtractTraceparent (InjectTraceparent (NewTraceID (Some b)) (NewSpanID (Some d))) =
      Some (NewTraceID (Some b), NewSpanID (Some d)) \<and>
    (header_get (rq_header r) ''Traceparent'' = InjectTraceparent (NewTraceID (Some b)) (NewSpanID (Some d)) \<longrightarrow>
      map sp_trace (snd (HTTPMiddlewareWithExporter handler True rand1 rand2 start now r)) = [NewTraceID (Some b)])"
proof -
  have "CHR ''-'' \<notin> set (hex_encode x)" for x using hex_encode_alphabet [of "CHR ''-''" x] by auto
  note split = traceparent_fields [OF this this, of b d]
  have "hex_decode ''00'' = Some [0]" "hex_decode ''01'' = Some [1]" by code_simp+
  then have "ExtractTraceparent (InjectTraceparent (NewTraceID (Some b)) (NewSpanID (Some d))) =
      Some (NewTraceID (Some b), NewSpanID (Some d))"
    using assms split by (simp add: ExtractTraceparent_def NewTraceID_def NewSpanID_def)
  then show ?thesis by (simp add: HTTPMiddlewareWithExporter_def Let_def split: prod.split)
qed

theorem traceparent_roundtrip_witness:
  "ExtractTraceparent (InjectTraceparent (NewTraceID (Some (replicate 16 7))) (NewSpanID (Some (replicate 8 9)))) =
     Some (NewTraceID (Some (replicate 16 7)), NewSpanID (Some (replicate 8 9)))"
proof -
  have "x \<noteq> 0 \<Longrightarrow> 0 < n \<Longrightarrow> \<not> allZero (replicate n x)" for x n by (cases n) auto
  then have "\<not> allZero (replicate 16 7)" "\<not> allZero (replicate 8 9)" by simp_all
  then show ?thesis using traceparent_roundtrip [of "replicate 16 7" "replicate 8 9"] by simp
qed

section \<open>Nothing accepted is lost\<close>

definition cfg_ok :: "async_config \<Rightarrow> bool" where
  "cfg_ok c \<longleftrightarrow> 1 \<le> ac_batch c \<and> ac_batch c \<le> 4096 \<and> ac_batch c \<le> ac_queue c \<and> ac_queue c \<le> 65536 \<and>
     0 < ac_flush c \<and> ac_flush c \<le> 60 * minute \<and> 0 < ac_timeout c \<and> ac_timeout c \<le> minute \<and>
     0 \<le> ac_retries c \<and> ac_retries c \<le> 8 \<and> 0 < ac_backoff c \<and> ac_backoff c \<le> minute"

lemma bounded_queue: "1 \<le> ac_queue (bounded_config c) \<and> ac_queue (bounded_config c) \<le> 65536"
  by (simp add: bounded_config_def Let_def DefaultAsyncOTLPConfig_def)

lemma bounded_batch:
  "1 \<le> ac_batch (bounded_config c) \<and> ac_batch (bounded_config c) \<le> 4096 \<and> ac_batch (bounded_config c) \<le> ac_queue (bounded_config c)"
  by (simp add: bounded_config_def Let_def DefaultAsyncOTLPConfig_def)

lemma bounded_times:
  "0 < ac_flush (bounded_config c) \<and> ac_flush (bounded_config c) \<le> 60 * minute"
  "0 < ac_timeout (bounded_config c) \<and> ac_timeout (bounded_config c) \<le> minute"
  "0 < ac_backoff (bounded_config c) \<and> ac_backoff (bounded_config c) \<le> minute"
  "0 \<le> ac_retries (bounded_config c) \<and> ac_retries (bounded_config c) \<le> 8"
  by (simp_all add: bounded_config_def Let_def DefaultAsyncOTLPConfig_def)

lemma bounded_config_ok: "cfg_ok (bounded_config c)"
  using bounded_queue [of c] bounded_batch [of c] bounded_times [of c] unfolding cfg_ok_def by blast

fun phase_ok :: "async_config \<Rightarrow> bool \<Rightarrow> span list \<Rightarrow> span list \<Rightarrow> run_phase \<Rightarrow> bool" where
  "phase_ok c closed q b Selecting = (int (length b) < ac_batch c)"
| "phase_ok c closed q b Draining = (int (length b) < ac_batch c \<and> closed)"
| "phase_ok c closed q b Finished = (b = [] \<and> closed \<and> q = [])"
| "phase_ok c closed q b (Sending a next) =
     (int a \<le> ac_retries c \<and> b \<noteq> [] \<and> int (length b) \<le> ac_batch c \<and> phase_ok c closed q [] next \<and>
      next \<in> {Selecting, Draining, Finished})"
| "phase_ok c closed q b (Waiting a next) =
     (int a < ac_retries c \<and> b \<noteq> [] \<and> int (length b) \<le> ac_batch c \<and> phase_ok c closed q [] next \<and>
      next \<in> {Selecting, Draining, Finished})"

definition settled_spans :: "bool \<Rightarrow> async_exporter \<Rightarrow> span list" where
  "settled_spans d e = concat (map snd (filter (\<lambda>x. fst x = d) (ax_settled e)))"

definition async_inv :: "async_exporter \<Rightarrow> bool" where
  "async_inv e \<longleftrightarrow> cfg_ok (ax_cfg e) \<and> int (length (ax_queue e)) \<le> ac_queue (ax_cfg e) \<and>
     phase_ok (ax_cfg e) (ax_closed e) (ax_queue e) (ax_batch e) (ax_phase e) \<and>
     ax_taken e = concat (map snd (ax_settled e)) @ ax_batch e @ ax_queue e \<and>
     (\<forall>x \<in> set (ax_settled e). snd x \<noteq> [] \<and> int (length (snd x)) \<le> ac_batch (ax_cfg e)) \<and>
     ax_accepted e + word_of_nat (ax_adding e) = word_of_nat (length (ax_taken e)) \<and>
     ax_exported e = word_of_nat (length (settled_spans True e)) \<and> ax_failed e = word_of_nat (length (settled_spans False e)) \<and>
     ax_dropped e = word_of_nat (ax_offered e) - word_of_nat (length (ax_taken e)) + ax_failed e \<and>
     (ax_closed e \<longrightarrow> ax_adding e = 0)"

lemma async_inv_new: "async_inv (newAsyncOTLPExporter c)"
  using bounded_config_ok [of c] by (simp add: async_inv_def newAsyncOTLPExporter_def settled_spans_def cfg_ok_def)

lemma phase_ok_grow: "phase_ok c False q b ph \<Longrightarrow> phase_ok c False (q @ [s]) b ph"
  by (induction ph arbitrary: b) auto

lemma phase_ok_close: "phase_ok c cl q b ph \<Longrightarrow> phase_ok c True q b ph"
  by (induction ph arbitrary: b) auto

lemma async_inv_Export: "async_inv e \<Longrightarrow> async_inv (async_Export s e)"
  by (auto simp: async_inv_def async_Export_def Let_def settled_spans_def phase_ok_grow algebra_simps)

lemma async_inv_counted: "async_inv e \<Longrightarrow> async_inv (Export_counted e)"
  by (cases "ax_adding e") (auto simp: async_inv_def Export_counted_def settled_spans_def algebra_simps)

lemma async_inv_Close: "async_inv e \<Longrightarrow> async_inv (async_Close e)"
  by (auto simp: async_inv_def async_Close_def settled_spans_def intro: phase_ok_close)

text \<open>What of the invariant does not speak of the phase.\<close>

definition accounts :: "async_exporter \<Rightarrow> bool" where
  "accounts e \<longleftrightarrow> cfg_ok (ax_cfg e) \<and> int (length (ax_queue e)) \<le> ac_queue (ax_cfg e) \<and>
     ax_taken e = concat (map snd (ax_settled e)) @ ax_batch e @ ax_queue e \<and>
     (\<forall>x \<in> set (ax_settled e). snd x \<noteq> [] \<and> int (length (snd x)) \<le> ac_batch (ax_cfg e)) \<and>
     ax_accepted e + word_of_nat (ax_adding e) = word_of_nat (length (ax_taken e)) \<and>
     ax_exported e = word_of_nat (length (settled_spans True e)) \<and> ax_failed e = word_of_nat (length (settled_spans False e)) \<and>
     ax_dropped e = word_of_nat (ax_offered e) - word_of_nat (length (ax_taken e)) + ax_failed e \<and>
     (ax_closed e \<longrightarrow> ax_adding e = 0)"

lemma async_inv_accounts:
  "async_inv e \<longleftrightarrow> accounts e \<and> phase_ok (ax_cfg e) (ax_closed e) (ax_queue e) (ax_batch e) (ax_phase e)"
  by (auto simp: async_inv_def accounts_def)

lemma accounts_phase [simp]: "accounts (e\<lparr>ax_phase := ph\<rparr>) = accounts e" "accounts (e\<lparr>ax_retries := r\<rparr>) = accounts e"
  by (simp_all add: accounts_def settled_spans_def)

lemma accounts_move: "accounts e \<Longrightarrow> ax_queue e = s # q \<Longrightarrow> accounts (e\<lparr>ax_queue := q, ax_batch := ax_batch e @ [s]\<rparr>)"
  by (simp add: accounts_def settled_spans_def)

lemma async_inv_flush:
  assumes "accounts e" "int (length (ax_batch e)) \<le> ac_batch (ax_cfg e)"
    and "phase_ok (ax_cfg e) (ax_closed e) (ax_queue e) [] next" "next \<in> {Selecting, Draining, Finished}"
  shows "async_inv (flush next e)"
proof -
  have "0 \<le> ac_retries (ax_cfg e)" using assms(1) by (simp add: accounts_def cfg_ok_def)
  then show ?thesis using assms by (cases "ax_batch e = []") (simp_all add: async_inv_accounts flush_def)
qed

lemma async_inv_receive:
  assumes "async_inv e" "ax_phase e = Selecting \<or> ax_phase e = Draining"
  shows "async_inv (receive e)"
proof (cases "ax_queue e")
  case (Cons s q)
  let ?e = "e\<lparr>ax_queue := q, ax_batch := ax_batch e @ [s]\<rparr>"
  have acc: "accounts ?e" using assms(1) Cons by (simp add: async_inv_accounts accounts_move)
  have small: "int (length (ax_batch e)) < ac_batch (ax_cfg e)" "ax_phase e = Draining \<longrightarrow> ax_closed e"
    using assms by (auto simp: async_inv_accounts)
  show ?thesis
  proof (cases "int (length (ax_batch ?e)) \<ge> ac_batch (ax_cfg e)")
    case True
    have "async_inv (flush (ax_phase e) ?e)"
      using acc small assms(2) by (intro async_inv_flush) (auto simp: accounts_def cfg_ok_def)
    then show ?thesis using Cons True by (simp add: receive_def)
  next
    case False
    then have "receive e = ?e" using Cons by (simp add: receive_def)
    moreover have "async_inv ?e" using acc small False assms(2) by (auto simp: async_inv_accounts)
    ultimately show ?thesis by simp
  qed
qed (use assms in \<open>simp add: receive_def\<close>)

lemma async_inv_select:
  assumes "async_inv e"
  shows "async_inv (run_select ch e)"
proof (cases "ax_phase e")
  case Selecting
  then have "async_inv (flush Selecting e)" using assms by (intro async_inv_flush) (auto simp: async_inv_accounts accounts_def cfg_ok_def)
  then show ?thesis using Selecting assms async_inv_receive [OF assms]
    by (cases ch) (auto simp: run_select_def async_inv_accounts)
next
  case Draining
  have "async_inv (flush Finished e)" if "ax_queue e = []"
    using Draining that assms by (intro async_inv_flush) (auto simp: async_inv_accounts)
  then show ?thesis using Draining assms async_inv_receive [OF assms] by (cases ch) (auto simp: run_select_def)
qed (use assms in \<open>auto simp: run_select_def\<close>)

lemma accounts_settle:
  assumes "accounts e" "ax_batch e \<noteq> []" "int (length (ax_batch e)) \<le> ac_batch (ax_cfg e)"
  shows "accounts (settle True ph (e\<lparr>ax_exported := ax_exported e + word_of_nat (length (ax_batch e)), ax_batches := n\<rparr>))"
    and "accounts (settle False ph (e\<lparr>ax_failed := ax_failed e + word_of_nat (length (ax_batch e)),
      ax_dropped := ax_dropped e + word_of_nat (length (ax_batch e))\<rparr>))"
  using assms by (auto simp: accounts_def settle_def settled_spans_def algebra_simps)

lemma async_inv_attempt:
  assumes "async_inv e"
  shows "async_inv (send_attempt r e)"
proof (cases "ax_phase e")
  case (Sending a ph)
  have ok: "accounts e" "ax_batch e \<noteq> []" "int (length (ax_batch e)) \<le> ac_batch (ax_cfg e)" "phase_ok (ax_cfg e) (ax_closed e) (ax_queue e) [] ph"
    "ph \<in> {Selecting, Draining, Finished}"
    using assms Sending by (auto simp: async_inv_accounts)
  note settle = accounts_settle [OF ok(1-3), of ph]
  show ?thesis
  proof (cases r)
    case None
    then show ?thesis using Sending settle(1) ok(4) by (simp add: send_attempt_def Let_def async_inv_accounts settle_def)
  next
    case (Some err)
    show ?thesis
    proof (cases "int a \<ge> ac_retries (ax_cfg e) \<or> \<not> Retryable err")
      case True
      then show ?thesis using Sending Some settle(2) ok(4) by (simp add: send_attempt_def Let_def async_inv_accounts settle_def)
    next
      case False
      then have "send_attempt r e = e\<lparr>ax_retries := ax_retries e + 1, ax_phase := Waiting a ph\<rparr>"
        using Sending Some by (simp add: send_attempt_def Let_def)
      moreover have "accounts (e\<lparr>ax_retries := ax_retries e + 1, ax_phase := Waiting a ph\<rparr>)" using ok(1) by simp
      ultimately show ?thesis using ok False by (simp add: async_inv_accounts)
    qed
  qed
qed (use assms in \<open>simp_all add: send_attempt_def\<close>)

lemma async_inv_again: "async_inv e \<Longrightarrow> async_inv (send_again e)"
  by (auto simp: async_inv_accounts send_again_def split: run_phase.splits)

lemma async_inv_step: "async_inv e \<Longrightarrow> async_inv (async_step e v)"
  by (cases v) (simp_all add: async_inv_Export async_inv_counted async_inv_Close async_inv_select async_inv_attempt async_inv_again)

interpretation async: invariant_steps async_step async_inv
  by unfold_locales (rule async_inv_step)

lemma settled_split: "length (concat (map snd (ax_settled e))) = length (settled_spans True e) + length (settled_spans False e)"
proof -
  have *: "length (concat (map snd xs)) = length (concat (map snd (filter (\<lambda>x. fst x = True) xs))) + length (concat (map snd (filter (\<lambda>x. fst x = False) xs)))"
    for xs :: "(bool \<times> span list) list"
  proof (induction xs)
    case (Cons x xs)
    then show ?case by (cases "fst x") simp_all
  qed simp
  show ?thesis unfolding settled_spans_def by (rule *)
qed

lemma finished_accounts:
  assumes "async_inv e" "ax_phase e = Finished"
  shows "ax_taken e = concat (map snd (ax_settled e))" "ax_accepted e = ax_exported e + ax_failed e"
proof -
  show taken: "ax_taken e = concat (map snd (ax_settled e))" using assms by (simp add: async_inv_def)
  have "ax_adding e = 0" using assms by (simp add: async_inv_def)
  then have "ax_accepted e = word_of_nat (length (ax_taken e))" using assms(1) by (simp add: async_inv_def)
  then show "ax_accepted e = ax_exported e + ax_failed e" using assms(1) unfolding taken settled_split by (simp add: async_inv_def)
qed

text \<open>C19. The asynchronous exporter loses no span and bounds its memory, whatever the interleaving of callers, goroutine and
  shutdown and whatever the collector answers: queue and batch stay within 65536 and 4096 spans, the spans taken
  from callers are, in order, those of the batches that are settled, of the current batch and of the queue, so each is in
  exactly one place, the counters are the numbers of spans delivered and failed, and the drops are the spans refused and failed; and
  once the goroutine has returned, everything accepted was delivered or counted as failed.\<close>

theorem telemetry_conservation:
  assumes "e = foldl async_step (newAsyncOTLPExporter cfg) es"
  shows "length (ax_queue e) \<le> 65536 \<and> length (ax_batch e) \<le> 4096 \<and>
    ax_taken e = concat (map snd (ax_settled e)) @ ax_batch e @ ax_queue e \<and>
    ax_exported e = word_of_nat (length (settled_spans True e)) \<and> ax_failed e = word_of_nat (length (settled_spans False e)) \<and>
    ax_dropped e = word_of_nat (ax_offered e) - word_of_nat (length (ax_taken e)) + ax_failed e \<and>
    (ax_phase e = Finished \<longrightarrow> ax_taken e = concat (map snd (ax_settled e)) \<and> ax_accepted e = ax_exported e + ax_failed e)"
proof -
  have inv: "async_inv e" using async.run_inv [OF async_inv_new] assms by simp
  then have "phase_ok (ax_cfg e) (ax_closed e) (ax_queue e) (ax_batch e) (ax_phase e)" "cfg_ok (ax_cfg e)" by (simp_all add: async_inv_def)
  then have "int (length (ax_batch e)) \<le> ac_batch (ax_cfg e)" by (cases "ax_phase e") (auto simp: cfg_ok_def)
  moreover have "int (length (ax_queue e)) \<le> ac_queue (ax_cfg e)" using inv by (simp add: async_inv_def)
  ultimately have "length (ax_queue e) \<le> 65536" "length (ax_batch e) \<le> 4096"
    using \<open>cfg_ok (ax_cfg e)\<close> by (simp_all add: cfg_ok_def)
  then show ?thesis using inv finished_accounts [OF inv] unfolding async_inv_def by blast
qed

definition sample_span :: span where
  "sample_span = \<lparr>sp_trace = ''t'', sp_span = ''s'', sp_name = ''GET /'', sp_start = 1, sp_end = 2, sp_attributes = [], sp_status = 200\<rparr>"

definition sample_run :: "async_event list" where
  "sample_run = [Offer sample_span, Select FromQueue, Counted, CloseCall, Select Stop, Select Default, Attempt None]"

lemma sample_run_result:
  "ax_phase (foldl async_step (newAsyncOTLPExporter DefaultAsyncOTLPConfig) sample_run) = Finished"
  "ax_accepted (foldl async_step (newAsyncOTLPExporter DefaultAsyncOTLPConfig) sample_run) = 1"
  by (simp_all add: sample_run_def newAsyncOTLPExporter_def bounded_config_def DefaultAsyncOTLPConfig_def Let_def async_Export_def
      run_select_def receive_def Export_counted_def async_Close_def flush_def send_attempt_def settle_def)

theorem telemetry_conservation_witness:
  "let e = foldl async_step (newAsyncOTLPExporter DefaultAsyncOTLPConfig) sample_run in
     ax_accepted e = 1 \<and> ax_exported e + ax_failed e = 1 \<and> length (ax_queue e) \<le> 65536"
proof -
  let ?e = "foldl async_step (newAsyncOTLPExporter DefaultAsyncOTLPConfig) sample_run"
  have "ax_accepted ?e = ax_exported ?e + ax_failed ?e" "length (ax_queue ?e) \<le> 65536"
    using telemetry_conservation [OF refl, of DefaultAsyncOTLPConfig sample_run] sample_run_result(1) by blast+
  then show ?thesis using sample_run_result(2) unfolding Let_def by metis
qed

section \<open>Close flushes\<close>










lemma retry_delay_bounds:
  assumes "cfg_ok c" "int a < ac_retries c"
  shows "0 < retry_delay c a \<and> retry_delay c a \<le> minute \<and> (ac_backoff c * 2 ^ a \<le> minute \<longrightarrow> retry_delay c a = ac_backoff c * 2 ^ a)"
proof -
  have b: "0 < ac_backoff c" "ac_backoff c \<le> minute" "a \<le> 7" using assms by (simp_all add: cfg_ok_def)
  from b(3) have "(2 :: int) ^ a \<le> 2 ^ 7" by (intro power_increasing) auto
  with b have "ac_backoff c * 2 ^ a \<le> minute * 2 ^ 7" using b by (intro mult_mono) auto
  moreover have pos: "0 < ac_backoff c * 2 ^ a" using b by simp
  moreover have "push_bit a (word_of_int (ac_backoff c) :: u64) = word_of_int (ac_backoff c * 2 ^ a)"
    by (simp add: push_bit_eq_mult)
  ultimately have "sint (push_bit a (word_of_int (ac_backoff c) :: u64)) = ac_backoff c * 2 ^ a"
    by (simp only: signed_of_int) (simp add: signed_take_bit_int_eq_self)
  then show ?thesis using b pos by (simp add: retry_delay_def Let_def not_le)
qed

section \<open>What the visitor sees of a status\<close>

text \<open>Without informational responses the recorded status is the one sent; an informational one takes its place, and the final
  status is not passed on, so that the connection sends 200 with the body.\<close>

lemma status_recorded:
  "(\<forall>s. WriteHeader s \<in> set cs \<longrightarrow> s \<noteq> 0) \<Longrightarrow> status_calls st cs = (st', out) \<Longrightarrow>
     st \<noteq> 0 \<Longrightarrow> st' = st \<and> (\<forall>s. WriteHeader s \<notin> set out)"
  by (induction cs arbitrary: st st' out)
     (auto simp: statusWriter_WriteHeader_def statusWriter_Write_def Let_def split: prod.splits response_call.splits)

theorem informational_status_hides_final:
  "status_calls 0 [WriteHeader 103, WriteHeader 404, WriteBody b] = (103, [WriteHeader 103, WriteBody b])"
  by (simp add: statusWriter_WriteHeader_def statusWriter_Write_def)

end
