(* ===== verification/Config.thy ===== *)
theory Config
  imports Telemetry Control_Identity Turn_Codec
begin

text \<open>
  Configuration files (\<^verbatim>\<open>cmd/config\<close>): the records of the client and the server, their migration,
  validation and defaults, loading, saving and the private replacement of a file, with the parts of the
  runtime that consume them (\<^verbatim>\<open>cmd/telemetry_runtime.go\<close>, \<^verbatim>\<open>cmd/p2p_turn_runtime.go\<close>). The YAML codec and the URL
  parser are arguments; what saving and loading need of the codec is the meaning of the \<^verbatim>\<open>omitempty\<close> tags,
  written out in \<open>read_over\<close>.
\<close>

section \<open>Records\<close>

record tunnel_entry =
  te_webtransport :: bool
  te_datagrams :: bool
  te_origins :: "string list"
  te_name :: string
  te_target :: string
  te_basic_auth :: string
  te_capability :: string
  te_audience :: string

record reconnect_config =
  rc_enabled :: bool
  rc_max_retries :: int
  rc_initial_wait :: time
  rc_max_wait :: time

record turn_settings =
  tu_enabled :: bool
  tu_server :: string
  tu_username :: string
  tu_password :: string
  tu_transport :: string
  tu_ca_cert :: string
  tu_server_name :: string
  tu_insecure :: bool
  tu_channel_bind :: bool
  tu_timeout :: time
  tu_refresh :: time
  tu_max_datagram :: int
  tu_retransmits :: int

record p2p_settings =
  ps_enabled :: bool
  ps_stun :: string
  ps_fallback :: bool
  ps_turn :: turn_settings

record client_config =
  cl_version :: int
  cl_server :: string
  cl_server_port :: int
  cl_id :: string
  cl_token :: string
  cl_tls :: bool
  cl_debug :: bool
  cl_quiet :: bool
  cl_verbose :: bool
  cl_tunnels :: "tunnel_entry list"
  cl_socks5 :: string
  cl_udp :: "(string \<times> string) list"
  cl_reverse :: "reverse_config list"
  cl_reconnect :: reconnect_config
  cl_headers :: "(string, string) gomap"
  cl_compress :: bool
  cl_log_file :: string
  cl_transport :: string
  cl_connection_type :: string
  cl_p2p :: p2p_settings
  cl_http_proxy :: string
  cl_connect_timeout :: time
  cl_proxy_session :: string
  cl_proxy_header :: string
  cl_proxy_ca :: string
  cl_client_cert :: string
  cl_client_key :: string
  cl_ca_cert :: string
  cl_insecure :: bool

record telemetry_config =
  tl_endpoint :: string
  tl_queue :: int
  tl_batch :: int
  tl_flush :: time
  tl_timeout :: time
  tl_retries :: int
  tl_backoff :: time
  tl_shutdown :: time

record health_config =
  hc_enabled :: bool
  hc_interval :: time
  hc_timeout :: time

record server_config =
  sg_webtransport :: bool
  sg_masque :: bool
  sg_version :: int
  sg_domain :: string
  sg_cert :: string
  sg_key :: string
  sg_port :: int
  sg_proxy_port :: int
  sg_public_port :: int
  sg_metrics_port :: int
  sg_debug :: bool
  sg_quiet :: bool
  sg_verbose :: bool
  sg_api_token :: string
  sg_identities :: "client_identity list"
  sg_rate_limit :: int
  sg_anonymous :: bool
  sg_private_egress :: bool
  sg_legacy :: "bool option"
  sg_reverse_min :: int
  sg_reverse_max :: int
  sg_reverse_per_client :: int
  sg_log_file :: string
  sg_state_file :: string
  sg_whitelist :: "string list"
  sg_request_log :: bool
  sg_compress :: bool
  sg_health :: health_config
  sg_client_ca :: string
  sg_insecure :: bool
  sg_backend :: string
  sg_redis :: string
  sg_redis_password :: string
  sg_postgres :: string
  sg_telemetry :: telemetry_config

section \<open>Defaults and migration\<close>

definition CurrentVersion :: int where "CurrentVersion = 2"

definition defaultTelemetryConfig :: telemetry_config where
  "defaultTelemetryConfig = \<lparr>tl_endpoint = [], tl_queue = 2048, tl_batch = 128, tl_flush = second, tl_timeout = 5 * second,
     tl_retries = 3, tl_backoff = 100 * millisecond, tl_shutdown = 10 * second\<rparr>"

definition migrateTelemetryConfig :: "telemetry_config \<Rightarrow> telemetry_config" where
  "migrateTelemetryConfig c =
     (let d = defaultTelemetryConfig in
      c\<lparr>tl_queue := if tl_queue c = 0 then tl_queue d else tl_queue c,
        tl_batch := if tl_batch c = 0 then tl_batch d else tl_batch c,
        tl_flush := if tl_flush c = 0 then tl_flush d else tl_flush c,
        tl_timeout := if tl_timeout c = 0 then tl_timeout d else tl_timeout c,
        tl_retries := if tl_retries c = 0 then tl_retries d else tl_retries c,
        tl_backoff := if tl_backoff c = 0 then tl_backoff d else tl_backoff c,
        tl_shutdown := if tl_shutdown c = 0 then tl_shutdown d else tl_shutdown c\<rparr>)"

definition migrate_transport :: "client_config \<Rightarrow> client_config" where
  "migrate_transport c =
     (if cl_version c < CurrentVersion
      then c\<lparr>cl_transport := if cl_transport c = [] \<and> cl_connection_type c \<noteq> []
                             then (if cl_connection_type c = ''tls'' then ''auto'' else cl_connection_type c) else cl_transport c,
             cl_version := CurrentVersion\<rparr>
      else c)"

definition default_turn_transport :: "p2p_settings \<Rightarrow> p2p_settings" where
  "default_turn_transport p =
     (if tu_enabled (ps_turn p) \<and> tu_transport (ps_turn p) = [] then p\<lparr>ps_turn := (ps_turn p)\<lparr>tu_transport := ''udp''\<rparr>\<rparr> else p)"

definition MigrateClientConfig :: "client_config \<Rightarrow> client_config" where
  "MigrateClientConfig c = (let c = migrate_transport c in c\<lparr>cl_p2p := default_turn_transport (cl_p2p c)\<rparr>)"

definition MigrateServerConfig :: "server_config \<Rightarrow> server_config" where
  "MigrateServerConfig c =
     (if sg_version c > CurrentVersion then c
      else
        let c = (if sg_version c < 1 \<and> sg_backend c = [] then c\<lparr>sg_backend := ''memory''\<rparr> else c);
            c = (if sg_version c < 2 then c\<lparr>sg_telemetry := migrateTelemetryConfig (sg_telemetry c)\<rparr> else c);
            c = c\<lparr>sg_version := CurrentVersion\<rparr>
        in if sg_backend c = [] then c\<lparr>sg_backend := ''memory''\<rparr> else c)"

definition DefaultClientConfig :: client_config where
  "DefaultClientConfig =
     \<lparr>cl_version = 0, cl_server = [], cl_server_port = 0, cl_id = [], cl_token = [], cl_tls = True, cl_debug = False, cl_quiet = False,
      cl_verbose = False, cl_tunnels = [], cl_socks5 = [], cl_udp = [], cl_reverse = [],
      cl_reconnect = \<lparr>rc_enabled = True, rc_max_retries = 0, rc_initial_wait = second, rc_max_wait = 5 * minute\<rparr>,
      cl_headers = [], cl_compress = False, cl_log_file = [], cl_transport = [], cl_connection_type = [],
      cl_p2p = \<lparr>ps_enabled = False, ps_stun = [], ps_fallback = False,
        ps_turn = \<lparr>tu_enabled = False, tu_server = [], tu_username = [], tu_password = [], tu_transport = [], tu_ca_cert = [],
          tu_server_name = [], tu_insecure = False, tu_channel_bind = False, tu_timeout = 0, tu_refresh = 0, tu_max_datagram = 0,
          tu_retransmits = 0\<rparr>\<rparr>,
      cl_http_proxy = [], cl_connect_timeout = 30 * second, cl_proxy_session = [], cl_proxy_header = ''X-Proxy-Session'',
      cl_proxy_ca = [], cl_client_cert = [], cl_client_key = [], cl_ca_cert = [], cl_insecure = False\<rparr>"

definition DefaultServerConfig :: server_config where
  "DefaultServerConfig =
     \<lparr>sg_webtransport = False, sg_masque = False, sg_version = 0, sg_domain = [], sg_cert = [], sg_key = [], sg_port = 7645,
      sg_proxy_port = 443, sg_public_port = 0, sg_metrics_port = 9090, sg_debug = False, sg_quiet = False, sg_verbose = False,
      sg_api_token = [], sg_identities = [], sg_rate_limit = 0, sg_anonymous = False, sg_private_egress = False, sg_legacy = None,
      sg_reverse_min = 0, sg_reverse_max = 0, sg_reverse_per_client = 0, sg_log_file = [], sg_state_file = [], sg_whitelist = [],
      sg_request_log = False, sg_compress = False,
      sg_health = \<lparr>hc_enabled = True, hc_interval = 30 * second, hc_timeout = 10 * second\<rparr>,
      sg_client_ca = [], sg_insecure = False, sg_backend = ''memory'', sg_redis = [], sg_redis_password = [], sg_postgres = [],
      sg_telemetry = defaultTelemetryConfig\<rparr>"

section \<open>Validation\<close>

record url =
  ur_scheme :: string
  ur_opaque :: string
  ur_user :: bool \<comment> \<open>whether \<^verbatim>\<open>User\<close> is not nil\<close>
  ur_host :: string
  ur_hostname :: string
  ur_port :: string
  ur_path :: string
  ur_query :: string
  ur_fragment :: string

datatype config_error = ConfigError string

definition TunnelTransport :: "string \<Rightarrow> bool \<Rightarrow> config_error + string" where
  "TunnelTransport val quicFlag =
     (if quicFlag then (if val \<noteq> [] \<and> val \<noteq> ''quic'' then Inl (ConfigError ''--quic conflicts with transport'') else Inr ''quic'')
      else if val = [] then Inr ''auto''
      else if val \<in> {''legacy'', ''tcp'', ''tls'', ''non-tls'', ''websocket''} then Inl (ConfigError ''transport was removed'')
      else if val \<in> {''http2'', ''wss'', ''quic'', ''auto''} then Inr val
      else Inl (ConfigError ''unsupported transport''))"

definition contains_space :: "string \<Rightarrow> bool" where
  "contains_space s \<longleftrightarrow> list_ex (\<lambda>c. c = CHR '' '' \<or> (of_char c :: nat) \<in> {9, 10, 13}) s"

definition token_char :: "char \<Rightarrow> bool" where
  "token_char c \<longleftrightarrow> (let b = (of_char c :: nat) in 97 \<le> b \<and> b \<le> 122 \<or> 65 \<le> b \<and> b \<le> 90 \<or> 48 \<le> b \<and> b \<le> 57 \<or>
     c \<in> set ''!#$%&*+-.^_|~'' \<or> b = 39 \<or> b = 96)"

definition validProxyHeaderName :: "string \<Rightarrow> bool" where
  "validProxyHeaderName s \<longleftrightarrow> s \<noteq> [] \<and> list_all token_char s"

definition validProxySession :: "string \<Rightarrow> bool" where
  "validProxySession s \<longleftrightarrow> s = trim_space s \<and> list_all (\<lambda>c. 0x20 \<le> (of_char c :: nat) \<and> (of_char c :: nat) \<le> 0x7e) s"

definition reserved_headers :: "string list" where
  "reserved_headers = [''host'', ''authorization'', ''proxy-authorization'', ''proxy-authenticate'', ''connection'', ''proxy-connection'',
     ''upgrade'', ''cookie'', ''set-cookie'', ''content-length'', ''transfer-encoding'', ''x-api-token'', ''x-xrok-session'']"

definition port_ok :: "string \<Rightarrow> bool" where
  "port_ok s \<longleftrightarrow> (case parse_int64 s of Some n \<Rightarrow> 1 \<le> n \<and> n \<le> 65535 | None \<Rightarrow> False)"

definition ValidateProxySettings ::
  "(string \<Rightarrow> url option) \<Rightarrow> string \<Rightarrow> string \<Rightarrow> string \<Rightarrow> time \<Rightarrow> bool \<Rightarrow> bool \<Rightarrow> config_error option" where
  "ValidateProxySettings parse raw session hdr budget quic p2p =
     (let hdr = (if hdr = [] then ''X-Proxy-Session'' else hdr) in
      if budget < 0 then Some (ConfigError ''connect_timeout must not be negative'')
      else if \<not> validProxyHeaderName hdr then Some (ConfigError ''invalid proxy session header name'')
      else if to_lower hdr \<in> set reserved_headers then Some (ConfigError ''reserved proxy session header name'')
      else if length session > 256 \<or> \<not> validProxySession session then Some (ConfigError ''invalid proxy session marker'')
      else if raw = [] then (if session \<noteq> [] then Some (ConfigError ''proxy_session requires an upstream proxy'') else None)
      else case parse raw of
        None \<Rightarrow> Some (ConfigError ''invalid upstream proxy URL'')
      | Some u \<Rightarrow>
          if ur_hostname u = [] \<or> (ur_path u \<noteq> [] \<and> ur_path u \<noteq> ''/'') \<or> ur_query u \<noteq> [] \<or> ur_fragment u \<noteq> [] \<or> ur_opaque u \<noteq> []
          then Some (ConfigError ''invalid upstream proxy URL'')
          else if ur_scheme u \<notin> {''http'', ''https'', ''socks5'', ''socks5h''} then Some (ConfigError ''proxy scheme'')
          else if ur_port u \<noteq> [] \<and> \<not> port_ok (ur_port u) then Some (ConfigError ''invalid proxy port'')
          else if contains_space (ur_hostname u) then Some (ConfigError ''invalid proxy host'')
          else if has_prefix ''socks5'' (ur_scheme u) \<and> session \<noteq> [] then Some (ConfigError ''proxy_session requires an HTTP CONNECT relay'')
          else if quic then Some (ConfigError ''QUIC cannot use this TCP proxy'')
          else if p2p then Some (ConfigError ''P2P uses direct paths'')
          else None)"

definition origin_ok :: "(string \<Rightarrow> url option) \<Rightarrow> string \<Rightarrow> bool" where
  "origin_ok parse s \<longleftrightarrow>
     (case parse s of
        None \<Rightarrow> False
      | Some u \<Rightarrow> ur_host u \<noteq> [] \<and> (ur_scheme u = ''http'' \<or> ur_scheme u = ''https'') \<and> \<not> ur_user u \<and> ur_query u = [] \<and>
          ur_fragment u = [] \<and> (ur_path u = [] \<or> ur_path u = ''/''))"

fun check_tunnels :: "(string \<Rightarrow> url option) \<Rightarrow> tunnel_entry list \<Rightarrow> config_error option" where
  "check_tunnels parse [] = None"
| "check_tunnels parse (t # ts) =
     (if te_datagrams t \<and> \<not> te_webtransport t then Some (ConfigError ''tunnel datagrams require webtransport'')
      else if \<not> list_all (origin_ok parse) (te_origins t) then Some (ConfigError ''invalid WebTransport origin'')
      else check_tunnels parse ts)"

definition check_turn :: "bool \<Rightarrow> turn_settings \<Rightarrow> config_error option" where
  "check_turn p2p turn =
     (if \<not> tu_enabled turn then None
      else if \<not> p2p then Some (ConfigError ''p2p.turn.enabled requires p2p.enabled'')
      else case SplitHostPort (tu_server turn) of
        None \<Rightarrow> Some (ConfigError ''p2p.turn.server must be a valid host:port'')
      | Some (host, portText) \<Rightarrow>
          if trim_space host = [] then Some (ConfigError ''p2p.turn.server must be a valid host:port'')
          else if \<not> port_ok portText then Some (ConfigError ''p2p.turn.server port must be between 1 and 65535'')
          else if tu_username turn = [] \<or> tu_password turn = [] then Some (ConfigError ''p2p.turn requires username and password'')
          else if tu_transport turn \<notin> {[], ''udp'', ''tcp'', ''tls''} then Some (ConfigError ''p2p.turn.transport must be udp, tcp, or tls'')
          else if contains_space (tu_server_name turn) then Some (ConfigError ''p2p.turn.server_name is invalid'')
          else if tu_timeout turn < 0 \<or> tu_refresh turn < 0 then Some (ConfigError ''p2p.turn durations must not be negative'')
          else if tu_max_datagram turn < 0 \<or> tu_max_datagram turn > 65046 then Some (ConfigError ''p2p.turn.max_datagram_size'')
          else if tu_retransmits turn < 0 \<or> tu_retransmits turn > 8 then Some (ConfigError ''p2p.turn.retransmits'')
          else None)"

definition client_Validate :: "(string \<Rightarrow> url option) \<Rightarrow> client_config \<Rightarrow> config_error option" where
  "client_Validate parse c =
     (case check_tunnels parse (cl_tunnels c) of
        Some e \<Rightarrow> Some e
      | None \<Rightarrow>
          (case TunnelTransport (cl_transport c) False of
             Inl e \<Rightarrow> Some e
           | Inr _ \<Rightarrow>
               if length (cl_proxy_session c) > 256 \<or> \<not> validProxySession (cl_proxy_session c)
               then Some (ConfigError ''invalid proxy session marker'')
               else
                 (let session = (if cl_http_proxy c = [] then [] else cl_proxy_session c) in
                  case ValidateProxySettings parse (cl_http_proxy c) session (cl_proxy_header c) (cl_connect_timeout c)
                         (cl_transport c = ''quic'' \<or> cl_connection_type c = ''quic'') (ps_enabled (cl_p2p c)) of
                    Some e \<Rightarrow> Some e
                  | None \<Rightarrow>
                      if cl_version c > CurrentVersion then Some (ConfigError ''unsupported client config version'')
                      else check_turn (ps_enabled (cl_p2p c)) (ps_turn (cl_p2p c)))))"

fun check_identities :: "string list \<Rightarrow> string list \<Rightarrow> client_identity list \<Rightarrow> config_error option" where
  "check_identities ids tokens [] = None"
| "check_identities ids tokens (i # is) =
     (if ci_id i = [] \<or> ci_token i = [] then Some (ConfigError ''client_identities requires id and token'')
      else if ci_id i \<in> set ids then Some (ConfigError ''duplicate client identity'')
      else if ci_token i \<in> set tokens then Some (ConfigError ''credential token is reused'')
      else if [] \<in> set (ci_scopes i) then Some (ConfigError ''empty scope'')
      else check_identities (ci_id i # ids) (ci_token i # tokens) is)"

definition check_telemetry :: "(string \<Rightarrow> url option) \<Rightarrow> telemetry_config \<Rightarrow> config_error option" where
  "check_telemetry parse t =
     (if tl_endpoint t = [] then None
      else case parse (tl_endpoint t) of
        None \<Rightarrow> Some (ConfigError ''telemetry endpoint'')
      | Some u \<Rightarrow>
          if (ur_scheme u \<noteq> ''http'' \<and> ur_scheme u \<noteq> ''https'') \<or> ur_host u = [] \<or> ur_user u then Some (ConfigError ''telemetry endpoint'')
          else if tl_queue t \<le> 0 \<or> tl_queue t > 65536 then Some (ConfigError ''telemetry queue_size'')
          else if tl_batch t \<le> 0 \<or> tl_batch t > tl_queue t \<or> tl_batch t > 4096 then Some (ConfigError ''telemetry batch_size'')
          else if tl_flush t \<le> 0 \<or> tl_timeout t \<le> 0 \<or> tl_backoff t \<le> 0 \<or> tl_shutdown t \<le> 0 then Some (ConfigError ''telemetry durations'')
          else if tl_flush t > 60 * minute \<or> tl_timeout t > minute \<or> tl_backoff t > minute \<or> tl_shutdown t > 10 * minute
          then Some (ConfigError ''telemetry durations'')
          else if tl_retries t < 0 \<or> tl_retries t > 8 then Some (ConfigError ''telemetry max_retries'')
          else None)"

definition check_backend :: "server_config \<Rightarrow> config_error option" where
  "check_backend c =
     (if sg_backend c \<in> {[], ''memory''} then None
      else if sg_backend c = ''redis'' then (if sg_redis c = [] then Some (ConfigError ''redis state backend requires redis_addr'') else None)
      else if sg_backend c = ''postgres'' then (if sg_postgres c = [] then Some (ConfigError ''postgres state backend requires postgres_dsn'') else None)
      else Some (ConfigError ''unsupported state_backend''))"

definition server_Validate :: "(string \<Rightarrow> url option) \<Rightarrow> server_config \<Rightarrow> config_error option" where
  "server_Validate parse c =
     (if sg_legacy c = Some True then Some (ConfigError ''legacy listeners were removed'')
      else if sg_version c > CurrentVersion then Some (ConfigError ''unsupported server config version'')
      else if sg_domain c = [] then Some (ConfigError ''server domain is required'')
      else if sg_public_port c < 0 \<or> sg_public_port c > 65535 then Some (ConfigError ''public_port'')
      else if sg_proxy_port c < 0 \<or> sg_proxy_port c > 65535 then Some (ConfigError ''proxy_port'')
      else if sg_port c < 0 \<or> sg_port c > 65535 then Some (ConfigError ''port'')
      else if sg_metrics_port c < 0 \<or> sg_metrics_port c > 65535 then Some (ConfigError ''metrics_port'')
      else case check_backend c of
        Some e \<Rightarrow> Some e
      | None \<Rightarrow>
          (case check_identities [] [] (sg_identities c) of
             Some e \<Rightarrow> Some e
           | None \<Rightarrow> check_telemetry parse (sg_telemetry c)))"

section \<open>Files\<close>

text \<open>What a file written by the codec sets when it is read over other values: a field tagged \<^verbatim>\<open>omitempty\<close> is absent when it is zero.\<close>

definition telemetry_over :: "telemetry_config \<Rightarrow> telemetry_config \<Rightarrow> telemetry_config" where
  "telemetry_over w d =
     \<lparr>tl_endpoint = if tl_endpoint w = [] then tl_endpoint d else tl_endpoint w,
      tl_queue = if tl_queue w = 0 then tl_queue d else tl_queue w, tl_batch = if tl_batch w = 0 then tl_batch d else tl_batch w,
      tl_flush = if tl_flush w = 0 then tl_flush d else tl_flush w, tl_timeout = if tl_timeout w = 0 then tl_timeout d else tl_timeout w,
      tl_retries = if tl_retries w = 0 then tl_retries d else tl_retries w,
      tl_backoff = if tl_backoff w = 0 then tl_backoff d else tl_backoff w,
      tl_shutdown = if tl_shutdown w = 0 then tl_shutdown d else tl_shutdown w\<rparr>"

definition read_over :: "server_config \<Rightarrow> server_config \<Rightarrow> server_config" where
  "read_over w d =
     w\<lparr>sg_webtransport := sg_webtransport w \<or> sg_webtransport d, sg_masque := sg_masque w \<or> sg_masque d,
       sg_version := if sg_version w = 0 then sg_version d else sg_version w,
       sg_cert := if sg_cert w = [] then sg_cert d else sg_cert w, sg_key := if sg_key w = [] then sg_key d else sg_key w,
       sg_public_port := if sg_public_port w = 0 then sg_public_port d else sg_public_port w,
       sg_api_token := if sg_api_token w = [] then sg_api_token d else sg_api_token w,
       sg_identities := if sg_identities w = [] then sg_identities d else sg_identities w,
       sg_anonymous := sg_anonymous w \<or> sg_anonymous d, sg_private_egress := sg_private_egress w \<or> sg_private_egress d,
       sg_legacy := if sg_legacy w = None then sg_legacy d else sg_legacy w,
       sg_reverse_min := if sg_reverse_min w = 0 then sg_reverse_min d else sg_reverse_min w,
       sg_reverse_max := if sg_reverse_max w = 0 then sg_reverse_max d else sg_reverse_max w,
       sg_reverse_per_client := if sg_reverse_per_client w = 0 then sg_reverse_per_client d else sg_reverse_per_client w,
       sg_log_file := if sg_log_file w = [] then sg_log_file d else sg_log_file w,
       sg_state_file := if sg_state_file w = [] then sg_state_file d else sg_state_file w,
       sg_whitelist := if sg_whitelist w = [] then sg_whitelist d else sg_whitelist w,
       sg_client_ca := if sg_client_ca w = [] then sg_client_ca d else sg_client_ca w, sg_insecure := sg_insecure w \<or> sg_insecure d,
       sg_backend := if sg_backend w = [] then sg_backend d else sg_backend w, sg_redis := if sg_redis w = [] then sg_redis d else sg_redis w,
       sg_redis_password := if sg_redis_password w = [] then sg_redis_password d else sg_redis_password w,
       sg_postgres := if sg_postgres w = [] then sg_postgres d else sg_postgres w,
       sg_telemetry := telemetry_over (sg_telemetry w) (sg_telemetry d)\<rparr>"

text \<open>\<open>data\<close> is what reading the file gives; \<open>unmarshal\<close> reads a document over a configuration.\<close>

definition LoadServerConfig ::
  "(string \<Rightarrow> url option) \<Rightarrow> ('d \<Rightarrow> server_config \<Rightarrow> server_config option) \<Rightarrow> 'd option \<Rightarrow> config_error + server_config" where
  "LoadServerConfig parse unmarshal data =
     (case data of
        None \<Rightarrow> Inl (ConfigError ''failed to read config file'')
      | Some b \<Rightarrow>
          (case unmarshal b DefaultServerConfig of
             None \<Rightarrow> Inl (ConfigError ''failed to parse config file'')
           | Some c \<Rightarrow> (let c = MigrateServerConfig c in case server_Validate parse c of Some e \<Rightarrow> Inl e | None \<Rightarrow> Inr c)))"

definition LoadClientConfig ::
  "(string \<Rightarrow> url option) \<Rightarrow> ('d \<Rightarrow> client_config \<Rightarrow> client_config option) \<Rightarrow> 'd option \<Rightarrow> config_error + client_config" where
  "LoadClientConfig parse unmarshal data =
     (case data of
        None \<Rightarrow> Inl (ConfigError ''failed to read config file'')
      | Some b \<Rightarrow>
          (case unmarshal b DefaultClientConfig of
             None \<Rightarrow> Inl (ConfigError ''failed to parse config file'')
           | Some c \<Rightarrow> (let c = MigrateClientConfig c in case client_Validate parse c of Some e \<Rightarrow> Inl e | None \<Rightarrow> Inr c)))"

datatype fs_node = FileNode nat bytes | LinkNode string

type_synonym file_system = "(string, fs_node) gomap"

datatype write_fault = CreateFails | ChmodFails | WriteFails | SyncFails | CloseFails | RenameFails | DirSyncFails

text \<open>\<^verbatim>\<open>writePrivateConfig\<close>: whether it succeeds, and the file systems it goes through. \<open>tmp\<close> is the name \<^verbatim>\<open>os.CreateTemp\<close> chose, \<open>part\<close>
  what a reader can find of the data while it is written; 384 is the mode 0600.\<close>

definition writePrivateConfig ::
  "write_fault option \<Rightarrow> string \<Rightarrow> bytes \<Rightarrow> string \<Rightarrow> bytes \<Rightarrow> file_system \<Rightarrow> bool \<times> file_system list" where
  "writePrivateConfig fault tmp part path data fs =
     (if fault = Some CreateFails then (False, [fs])
      else let s1 = gm_put tmp (FileNode 384 []) fs in
      if fault = Some ChmodFails then (False, [fs, s1, gm_del tmp s1])
      else let s2 = gm_put tmp (FileNode 384 part) s1 in
      if fault = Some WriteFails then (False, [fs, s1, s2, gm_del tmp s2])
      else let s3 = gm_put tmp (FileNode 384 data) s2 in
      if fault = Some SyncFails \<or> fault = Some CloseFails \<or> fault = Some RenameFails then (False, [fs, s1, s2, s3, gm_del tmp s3])
      else (fault \<noteq> Some DirSyncFails, [fs, s1, s2, s3, gm_put path (FileNode 384 data) (gm_del tmp s3)]))"

text \<open>The configuration as migrated in place, and the outcome with the file systems of the write.\<close>

definition SaveServerConfig ::
  "(string \<Rightarrow> url option) \<Rightarrow> (server_config \<Rightarrow> bytes option) \<Rightarrow> bool \<Rightarrow> write_fault option \<Rightarrow> string \<Rightarrow> bytes \<Rightarrow> string \<Rightarrow> server_config \<Rightarrow>
   file_system \<Rightarrow> server_config \<times> config_error option \<times> file_system list" where
  "SaveServerConfig parse marshal mkdir_ok fault tmp part path c fs =
     (let c = MigrateServerConfig c in
      (c, case server_Validate parse c of
            Some e \<Rightarrow> (Some e, [fs])
          | None \<Rightarrow>
              (case marshal c of
                 None \<Rightarrow> (Some (ConfigError ''failed to marshal config''), [fs])
               | Some data \<Rightarrow>
                   if \<not> mkdir_ok then (Some (ConfigError ''failed to create config directory''), [fs])
                   else (case writePrivateConfig fault tmp part path data fs of
                           (True, tr) \<Rightarrow> (None, tr)
                         | (False, tr) \<Rightarrow> (Some (ConfigError ''failed to write config file''), tr)))))"

definition SaveClientConfig ::
  "(string \<Rightarrow> url option) \<Rightarrow> (client_config \<Rightarrow> bytes option) \<Rightarrow> bool \<Rightarrow> write_fault option \<Rightarrow> string \<Rightarrow> bytes \<Rightarrow> string \<Rightarrow> client_config \<Rightarrow>
   file_system \<Rightarrow> client_config \<times> config_error option \<times> file_system list" where
  "SaveClientConfig parse marshal mkdir_ok fault tmp part path c fs =
     (let c = MigrateClientConfig c in
      (c, case client_Validate parse c of
            Some e \<Rightarrow> (Some e, [fs])
          | None \<Rightarrow>
              (case marshal c of
                 None \<Rightarrow> (Some (ConfigError ''failed to marshal config''), [fs])
               | Some data \<Rightarrow>
                   if \<not> mkdir_ok then (Some (ConfigError ''failed to create config directory''), [fs])
                   else (case writePrivateConfig fault tmp part path data fs of
                           (True, tr) \<Rightarrow> (None, tr)
                         | (False, tr) \<Rightarrow> (Some (ConfigError ''failed to write config file''), tr)))))"

text \<open>\<^verbatim>\<open>FindConfigFile\<close>: \<open>exists\<close> is \<^verbatim>\<open>os.Stat\<close>, \<open>home\<close> the home directory.\<close>

definition FindConfigFile :: "(string \<Rightarrow> bool) \<Rightarrow> string option \<Rightarrow> (string list \<Rightarrow> string) \<Rightarrow> string \<Rightarrow> string" where
  "FindConfigFile exist home join name =
     (if exist name then name
      else case home of
        Some h \<Rightarrow> if exist (join [h, ''.xrok'', name]) then join [h, ''.xrok'', name]
                  else if exist (join [''/etc/xrok'', name]) then join [''/etc/xrok'', name] else []
      | None \<Rightarrow> if exist (join [''/etc/xrok'', name]) then join [''/etc/xrok'', name] else [])"

section \<open>What the runtime makes of it\<close>

definition asyncOTLPConfig :: "telemetry_config \<Rightarrow> async_config" where
  "asyncOTLPConfig c = \<lparr>ac_queue = tl_queue c, ac_batch = tl_batch c, ac_flush = tl_flush c, ac_timeout = tl_timeout c,
     ac_retries = tl_retries c, ac_backoff = tl_backoff c\<rparr>"

definition validateTelemetryConfig :: "(string \<Rightarrow> url option) \<Rightarrow> telemetry_config \<Rightarrow> config_error option" where
  "validateTelemetryConfig parse c =
     (if trim_space (tl_endpoint c) = [] then None
      else server_Validate parse
        (DefaultServerConfig\<lparr>sg_domain := ''telemetry.validation'', sg_backend := ''memory'', sg_telemetry := c, sg_port := 0,
           sg_proxy_port := 0, sg_metrics_port := 0, sg_health := \<lparr>hc_enabled = False, hc_interval = 0, hc_timeout = 0\<rparr>\<rparr>))"

text \<open>\<^verbatim>\<open>telemetryConfigFromEnvironment\<close>; \<open>duration\<close> is \<^verbatim>\<open>time.ParseDuration\<close>.\<close>

definition env_int :: "(string \<Rightarrow> string) \<Rightarrow> string \<Rightarrow> (int \<Rightarrow> telemetry_config \<Rightarrow> telemetry_config) \<Rightarrow> telemetry_config \<Rightarrow> config_error + telemetry_config" where
  "env_int getenv name set_field c =
     (if getenv name = [] then Inr c
      else case parse_int64 (getenv name) of None \<Rightarrow> Inl (ConfigError (''invalid '' @ name)) | Some n \<Rightarrow> Inr (set_field n c))"

definition env_duration ::
  "(string \<Rightarrow> time option) \<Rightarrow> (string \<Rightarrow> string) \<Rightarrow> string \<Rightarrow> (time \<Rightarrow> telemetry_config \<Rightarrow> telemetry_config) \<Rightarrow> telemetry_config \<Rightarrow>
   config_error + telemetry_config" where
  "env_duration duration getenv name set_field c =
     (if getenv name = [] then Inr c
      else case duration (getenv name) of None \<Rightarrow> Inl (ConfigError (''invalid '' @ name)) | Some d \<Rightarrow> Inr (set_field d c))"

fun apply_all :: "('a \<Rightarrow> 'e + 'a) list \<Rightarrow> 'a \<Rightarrow> 'e + 'a" where
  "apply_all [] c = Inr c"
| "apply_all (f # fs) c = (case f c of Inl e \<Rightarrow> Inl e | Inr c \<Rightarrow> apply_all fs c)"

definition telemetryConfigFromEnvironment ::
  "(string \<Rightarrow> url option) \<Rightarrow> (string \<Rightarrow> time option) \<Rightarrow> telemetry_config \<Rightarrow> (string \<Rightarrow> string) option \<Rightarrow> config_error + telemetry_config" where
  "telemetryConfigFromEnvironment parse duration c env =
     (case env of
        None \<Rightarrow> Inr c
      | Some getenv \<Rightarrow>
          (let c = (if getenv ''OTEL_EXPORTER_OTLP_TRACES_ENDPOINT'' \<noteq> [] then c\<lparr>tl_endpoint := getenv ''OTEL_EXPORTER_OTLP_TRACES_ENDPOINT''\<rparr>
                    else if getenv ''OTEL_EXPORTER_OTLP_ENDPOINT'' \<noteq> [] then c\<lparr>tl_endpoint := getenv ''OTEL_EXPORTER_OTLP_ENDPOINT''\<rparr> else c)
           in case apply_all
                [env_int getenv ''XROK_OTLP_QUEUE_SIZE'' (\<lambda>n. tl_queue_update (\<lambda>_. n)),
                 env_int getenv ''XROK_OTLP_BATCH_SIZE'' (\<lambda>n. tl_batch_update (\<lambda>_. n)),
                 env_int getenv ''XROK_OTLP_MAX_RETRIES'' (\<lambda>n. tl_retries_update (\<lambda>_. n)),
                 env_duration duration getenv ''XROK_OTLP_FLUSH_INTERVAL'' (\<lambda>d. tl_flush_update (\<lambda>_. d)),
                 env_duration duration getenv ''XROK_OTLP_EXPORT_TIMEOUT'' (\<lambda>d. tl_timeout_update (\<lambda>_. d)),
                 env_duration duration getenv ''XROK_OTLP_RETRY_BACKOFF'' (\<lambda>d. tl_backoff_update (\<lambda>_. d)),
                 env_duration duration getenv ''XROK_OTLP_SHUTDOWN_TIMEOUT'' (\<lambda>d. tl_shutdown_update (\<lambda>_. d))] c of
                Inl e \<Rightarrow> Inl e
              | Inr c \<Rightarrow> (case validateTelemetryConfig parse c of Some e \<Rightarrow> Inl e | None \<Rightarrow> Inr c)))"

definition telemetryConfigForServer ::
  "(string \<Rightarrow> url option) \<Rightarrow> (string \<Rightarrow> time option) \<Rightarrow> telemetry_config \<Rightarrow> bool \<Rightarrow> (string \<Rightarrow> string) option \<Rightarrow> config_error + telemetry_config" where
  "telemetryConfigForServer parse duration c injected env =
     (if injected then Inr c else telemetryConfigFromEnvironment parse duration c env)"

text \<open>\<^verbatim>\<open>clientTURNProviderConfig\<close> and \<^verbatim>\<open>newClientTURNSplitAllocator\<close>; \<open>roots_ok\<close> is whether the CA file loads.\<close>

definition clientTURNProviderConfig :: "(string \<Rightarrow> bool) \<Rightarrow> turn_settings \<Rightarrow> unit + turn_config" where
  "clientTURNProviderConfig roots_ok turn =
     (let tls = (tu_transport turn = ''tls'' \<and> tu_ca_cert turn \<noteq> []) in
      if tls \<and> \<not> roots_ok (tu_ca_cert turn) then Inl ()
      else Inr \<lparr>tc_server = tu_server turn, tc_username = tu_username turn, tc_password = tu_password turn, tc_transport = tu_transport turn,
             tc_tls_config = if tls then Some [] else None, tc_tls_server_name = tu_server_name turn, tc_timeout = tu_timeout turn,
             tc_refresh_interval = tu_refresh turn, tc_max_datagram = tu_max_datagram turn, tc_retransmits = tu_retransmits turn,
             tc_enable_channel = tu_channel_bind turn, tc_channel = 0\<rparr>)"

definition newClientTURNSplitAllocator :: "(string \<Rightarrow> bool) \<Rightarrow> turn_settings \<Rightarrow> unit + turn_config option" where
  "newClientTURNSplitAllocator roots_ok turn =
     (if \<not> tu_enabled turn then Inr None
      else case clientTURNProviderConfig roots_ok turn of
        Inl _ \<Rightarrow> Inl ()
      | Inr cfg \<Rightarrow> (case NewTURNRelayProvider cfg of Inl _ \<Rightarrow> Inl () | Inr p \<Rightarrow> Inr (Some p)))"

section \<open>Migration\<close>

lemma migrate_telemetry_idem: "migrateTelemetryConfig (migrateTelemetryConfig c) = migrateTelemetryConfig c"
  by (simp add: migrateTelemetryConfig_def defaultTelemetryConfig_def Let_def)

lemma migrate_server_idem: "MigrateServerConfig (MigrateServerConfig c) = MigrateServerConfig c"
  by (auto simp: MigrateServerConfig_def Let_def CurrentVersion_def)

lemma default_turn_idem: "default_turn_transport (default_turn_transport p) = default_turn_transport p"
  by (simp add: default_turn_transport_def)

lemma migrate_client_idem: "MigrateClientConfig (MigrateClientConfig c) = MigrateClientConfig c"
  by (cases "cl_version c < CurrentVersion") (simp_all add: MigrateClientConfig_def migrate_transport_def default_turn_idem)

lemma migrated_server: "sg_version (MigrateServerConfig c) \<le> CurrentVersion \<Longrightarrow>
    sg_version (MigrateServerConfig c) = CurrentVersion \<and> sg_backend (MigrateServerConfig c) \<noteq> []"
  by (auto simp: MigrateServerConfig_def Let_def split: if_splits)

section \<open>Validated configurations\<close>

lemma None_or: "((if refused then Some e else x) = None) \<longleftrightarrow> \<not> refused \<and> x = None" by simp

lemma telemetry_checked:
  assumes "check_telemetry parse t = None" "tl_endpoint t \<noteq> []"
  shows "cfg_ok (asyncOTLPConfig t) \<and> 0 < tl_shutdown t \<and> tl_shutdown t \<le> 10 * minute"
proof -
  obtain u where "parse (tl_endpoint t) = Some u" using assms by (auto simp: check_telemetry_def split: option.splits)
  then show ?thesis using assms by (simp add: check_telemetry_def None_or cfg_ok_def asyncOTLPConfig_def not_le not_less)
qed

lemma bounded_config_id: "cfg_ok c \<Longrightarrow> bounded_config c = c"
  by (simp add: cfg_ok_def bounded_config_def Let_def)

lemma identities_checked:
  "check_identities ids tokens is = None \<Longrightarrow>
     distinct (map ci_id is) \<and> distinct (map ci_token is) \<and> (\<forall>i \<in> set is. ci_id i \<noteq> [] \<and> ci_token i \<noteq> [] \<and> [] \<notin> set (ci_scopes i)) \<and>
     set (map ci_id is) \<inter> set ids = {} \<and> set (map ci_token is) \<inter> set tokens = {}"
proof (induction "is" arbitrary: ids tokens)
  case (Cons i "is")
  then have "check_identities (ci_id i # ids) (ci_token i # tokens) is = None" by (simp add: None_or)
  from Cons.IH [OF this] Cons.prems show ?case by (auto simp: None_or)
qed simp

lemma authenticate_distinct:
  assumes "distinct (map cc_token cs)" "c \<in> set cs" "cc_token c \<noteq> []"
  shows "authenticate cs (cc_token c) = Some (cc_principal c)"
proof -
  have "foldl (\<lambda>m c'. if cc_token c = cc_token c' then Some (cc_principal c') else m) m0 cs =
      (if c \<in> set cs then Some (cc_principal c) else m0)" if "distinct (map cc_token cs)" "\<forall>c' \<in> set cs. cc_token c' = cc_token c \<longrightarrow> c' = c"
    for cs m0 using that by (induction cs arbitrary: m0) auto
  moreover have "\<forall>c' \<in> set cs. cc_token c' = cc_token c \<longrightarrow> c' = c" using assms(1,2) by (auto simp: distinct_map inj_on_def)
  ultimately show ?thesis using assms by (simp add: authenticate_def)
qed

lemma policy_tokens: "map cc_token (newControlIdentityPolicy is) = map ci_token is"
  by (simp add: newControlIdentityPolicy_def)

definition server_config_ok :: "server_config \<Rightarrow> bool" where
  "server_config_ok c \<longleftrightarrow> sg_version c = CurrentVersion \<and> sg_domain c \<noteq> [] \<and> sg_legacy c \<noteq> Some True \<and>
     (\<forall>p \<in> {sg_public_port c, sg_proxy_port c, sg_port c, sg_metrics_port c}. 0 \<le> p \<and> p \<le> 65535) \<and>
     (sg_backend c = ''memory'' \<or> sg_backend c = ''redis'' \<and> sg_redis c \<noteq> [] \<or> sg_backend c = ''postgres'' \<and> sg_postgres c \<noteq> []) \<and>
     distinct (map ci_id (sg_identities c)) \<and> distinct (map ci_token (sg_identities c)) \<and>
     (tl_endpoint (sg_telemetry c) \<noteq> [] \<longrightarrow> cfg_ok (asyncOTLPConfig (sg_telemetry c)))"

lemma validated_server:
  assumes "server_Validate parse c = None"
  shows "check_backend c = None" "check_identities [] [] (sg_identities c) = None" "check_telemetry parse (sg_telemetry c) = None"
    "sg_version c \<le> CurrentVersion" "sg_domain c \<noteq> []" "sg_legacy c \<noteq> Some True"
    "\<forall>p \<in> {sg_public_port c, sg_proxy_port c, sg_port c, sg_metrics_port c}. 0 \<le> p \<and> p \<le> 65535"
proof -
  have "check_backend c = None \<and> check_identities [] [] (sg_identities c) = None \<and> check_telemetry parse (sg_telemetry c) = None"
    using assms by (auto simp only: server_Validate_def None_or option.simps split: option.split_asm)
  then show "check_backend c = None" "check_identities [] [] (sg_identities c) = None" "check_telemetry parse (sg_telemetry c) = None" by simp_all
  show "sg_version c \<le> CurrentVersion" "sg_domain c \<noteq> []" "sg_legacy c \<noteq> Some True"
    "\<forall>p \<in> {sg_public_port c, sg_proxy_port c, sg_port c, sg_metrics_port c}. 0 \<le> p \<and> p \<le> 65535"
    using assms by (simp_all only: server_Validate_def None_or not_le not_less) auto
qed

lemma loaded_server:
  assumes "LoadServerConfig parse unmarshal data = Inr c"
  obtains c0 where "c = MigrateServerConfig c0" "server_Validate parse c = None"
  using assms that by (auto simp: LoadServerConfig_def Let_def split: option.split_asm)

lemma token_names_client:
  assumes "check_identities [] [] is = None" "i \<in> set is"
  shows "\<exists>p. authenticate (newControlIdentityPolicy is) (ci_token i) = Some p \<and> cp_client p = ci_id i \<and> \<not> cp_legacy p"
proof -
  let ?c = "\<lparr>cc_token = ci_token i, cc_principal = \<lparr>cp_client = ci_id i,
     cp_scopes = (if ci_scopes i = [] then [scopeClient] else remdups (ci_scopes i)), cp_legacy = False\<rparr>\<rparr>"
  have "distinct (map cc_token (newControlIdentityPolicy is))" "ci_token i \<noteq> []" using identities_checked [OF assms(1)] assms(2)
    by (auto simp: policy_tokens)
  moreover have "?c \<in> set (newControlIdentityPolicy is)" using assms(2) by (auto simp: newControlIdentityPolicy_def)
  ultimately have "authenticate (newControlIdentityPolicy is) (cc_token ?c) = Some (cc_principal ?c)" by (intro authenticate_distinct) auto
  then show ?thesis by simp
qed

text \<open>C21. A configuration the server loads is one its components can run on: it has the current version, a domain, ports in
  range and a state backend with its address; the telemetry exporter keeps its limits exactly as
  configured; and every configured token authenticates, as the client it was issued to and as no other. Loading it again changes nothing.\<close>

theorem loaded_server_config_ok:
  assumes "LoadServerConfig parse unmarshal data = Inr c"
  shows "server_config_ok c \<and> MigrateServerConfig c = c \<and>
    (tl_endpoint (sg_telemetry c) \<noteq> [] \<longrightarrow>
       ax_cfg (newAsyncOTLPExporter (asyncOTLPConfig (sg_telemetry c))) = asyncOTLPConfig (sg_telemetry c)) \<and>
    (\<forall>i \<in> set (sg_identities c). \<exists>p. authenticate (newControlIdentityPolicy (sg_identities c)) (ci_token i) = Some p \<and>
       cp_client p = ci_id i \<and> \<not> cp_legacy p)"
proof -
  obtain c0 where c: "c = MigrateServerConfig c0" and "server_Validate parse c = None" using loaded_server [OF assms] .
  note ok = validated_server [OF this(2)]
  have "sg_version c = CurrentVersion" "sg_backend c \<noteq> []" using migrated_server [of c0] ok(4) unfolding c by simp_all
  moreover have "sg_backend c = ''memory'' \<or> sg_backend c = ''redis'' \<and> sg_redis c \<noteq> [] \<or> sg_backend c = ''postgres'' \<and> sg_postgres c \<noteq> []"
    using ok(1) \<open>sg_backend c \<noteq> []\<close> by (auto simp: check_backend_def split: if_split_asm)
  ultimately have "server_config_ok c"
    using ok telemetry_checked [OF ok(3)] identities_checked [OF ok(2)] by (simp add: server_config_ok_def)
  moreover have "ax_cfg (newAsyncOTLPExporter (asyncOTLPConfig (sg_telemetry c))) = asyncOTLPConfig (sg_telemetry c)"
    if "tl_endpoint (sg_telemetry c) \<noteq> []"
    using bounded_config_id telemetry_checked [OF ok(3) that] by (simp add: newAsyncOTLPExporter_def)
  ultimately show ?thesis using token_names_client [OF ok(2)] migrate_server_idem [of c0] unfolding c by blast
qed

definition sample_server_config :: server_config where
  "sample_server_config = DefaultServerConfig\<lparr>sg_domain := ''example.org'', sg_version := 2,
     sg_identities := [\<lparr>ci_id = ''a'', ci_token = ''s'', ci_scopes = []\<rparr>]\<rparr>"

lemma sample_loads: "LoadServerConfig parse (\<lambda>d _. Some d) (Some sample_server_config) = Inr sample_server_config"
proof -
  have "MigrateServerConfig sample_server_config = sample_server_config"
    by (simp add: MigrateServerConfig_def sample_server_config_def DefaultServerConfig_def CurrentVersion_def)
  moreover have "server_Validate parse sample_server_config = None"
    by (simp add: server_Validate_def sample_server_config_def DefaultServerConfig_def CurrentVersion_def check_backend_def
        check_telemetry_def defaultTelemetryConfig_def)
  ultimately show ?thesis by (simp add: LoadServerConfig_def)
qed

theorem loaded_server_config_ok_witness:
  "server_config_ok sample_server_config \<and>
   (\<exists>p. authenticate (newControlIdentityPolicy (sg_identities sample_server_config)) ''s'' = Some p \<and> cp_client p = ''a'')"
  using loaded_server_config_ok [OF sample_loads [of "\<lambda>_. None"]] by (auto simp: sample_server_config_def)

section \<open>Saving and loading\<close>

lemma over_default: "telemetry_over t defaultTelemetryConfig = migrateTelemetryConfig t"
  by (simp add: telemetry_over_def migrateTelemetryConfig_def defaultTelemetryConfig_def Let_def)

lemma read_over_default:
  "sg_backend w \<noteq> [] \<Longrightarrow> read_over w DefaultServerConfig = w\<lparr>sg_telemetry := migrateTelemetryConfig (sg_telemetry w)\<rparr>"
  by (simp add: read_over_def DefaultServerConfig_def over_default)

lemma migrate_telemetry_checked: "check_telemetry parse t = None \<Longrightarrow> check_telemetry parse (migrateTelemetryConfig t) = None"
proof (cases "tl_endpoint t = []")
  case True
  then show ?thesis by (simp add: check_telemetry_def migrateTelemetryConfig_def Let_def)
next
  case False
  assume c: "check_telemetry parse t = None"
  then obtain u where "parse (tl_endpoint t) = Some u" using False by (auto simp: check_telemetry_def split: option.splits)
  with c False show ?thesis
    by (simp add: check_telemetry_def None_or migrateTelemetryConfig_def defaultTelemetryConfig_def Let_def not_le not_less)
qed

lemma validate_telemetry_update:
  assumes "server_Validate parse c = None" "check_telemetry parse t = None"
  shows "server_Validate parse (c\<lparr>sg_telemetry := t\<rparr>) = None"
proof -
  note ok = validated_server [OF assms(1)]
  have "check_backend (c\<lparr>sg_telemetry := t\<rparr>) = check_backend c" by (simp add: check_backend_def)
  then show ?thesis using ok(1,2,4-7) assms(2) by (simp add: server_Validate_def)
qed

text \<open>C25. What the server saves it can load: when saving succeeds, under a codec that leaves out exactly the zero fields
  tagged \<^verbatim>\<open>omitempty\<close>, loading the file yields the saved configuration with the defaults in the place of zero
  telemetry settings, hence the saved configuration itself when none of these is zero.\<close>

theorem server_config_roundtrip:
  assumes saved: "SaveServerConfig parse marshal mkdir_ok fault tmp part path c fs = (c', None, tr)"
    and codec: "marshal c' = Some data" "unmarshal data DefaultServerConfig = Some (read_over c' DefaultServerConfig)"
    and fresh: "tmp \<noteq> path"
  shows "gm_get (last tr) path = Some (FileNode 384 data) \<and>
    LoadServerConfig parse unmarshal (Some data) = Inr (c'\<lparr>sg_telemetry := migrateTelemetryConfig (sg_telemetry c')\<rparr>) \<and>
    (migrateTelemetryConfig (sg_telemetry c') = sg_telemetry c' \<longrightarrow> LoadServerConfig parse unmarshal (Some data) = Inr c')"
proof -
  have c': "c' = MigrateServerConfig c" and v: "server_Validate parse c' = None"
    and w: "writePrivateConfig fault tmp part path data fs = (True, tr)"
    using saved codec(1) by (auto simp: SaveServerConfig_def Let_def split: option.split_asm if_split_asm prod.split_asm bool.split_asm)
  have cur: "sg_version c' = CurrentVersion" "sg_backend c' \<noteq> []"
    using migrated_server [of c] validated_server(4) [OF v] unfolding c' by simp_all
  let ?l = "c'\<lparr>sg_telemetry := migrateTelemetryConfig (sg_telemetry c')\<rparr>"
  have "MigrateServerConfig ?l = ?l" using cur by (simp add: MigrateServerConfig_def CurrentVersion_def)
  moreover have "server_Validate parse ?l = None"
    by (rule validate_telemetry_update [OF v migrate_telemetry_checked [OF validated_server(3) [OF v]]])
  ultimately have "LoadServerConfig parse unmarshal (Some data) = Inr ?l"
    using codec(2) read_over_default [OF cur(2)] by (simp add: LoadServerConfig_def Let_def)
  moreover have "gm_get (last tr) path = Some (FileNode 384 data)"
    using w by (auto simp: writePrivateConfig_def Let_def split: if_split_asm)
  ultimately show ?thesis by auto
qed

definition sample_marshal :: "server_config \<Rightarrow> bytes option" where "sample_marshal c = Some [1]"

theorem server_config_roundtrip_witness:
  "\<exists>tr. SaveServerConfig (\<lambda>_. None) sample_marshal True None ''.c.tmp-1'' [] ''c'' sample_server_config [] = (sample_server_config, None, tr) \<and>
     gm_get (last tr) ''c'' = Some (FileNode 384 [1]) \<and>
     LoadServerConfig (\<lambda>_. None) (\<lambda>_. \<lambda>d. Some (read_over sample_server_config d)) (Some [1 :: byte]) = Inr sample_server_config"
proof -
  let ?parse = "\<lambda>_ :: string. None :: url option"
  let ?tr = "snd (writePrivateConfig None ''.c.tmp-1'' [] ''c'' [1] [])"
  obtain c0 where "sample_server_config = MigrateServerConfig c0" "server_Validate ?parse sample_server_config = None"
    using loaded_server [OF sample_loads [of ?parse]] .
  moreover from this(1) have "MigrateServerConfig sample_server_config = sample_server_config" by (metis migrate_server_idem)
  ultimately have "SaveServerConfig ?parse sample_marshal True None ''.c.tmp-1'' [] ''c'' sample_server_config [] = (sample_server_config, None, ?tr)"
    by (simp add: SaveServerConfig_def sample_marshal_def writePrivateConfig_def Let_def)
  moreover from server_config_roundtrip [OF this, of "[1]" "\<lambda>_. \<lambda>d. Some (read_over sample_server_config d)"]
  have "gm_get (last ?tr) ''c'' = Some (FileNode 384 [1]) \<and>
    (migrateTelemetryConfig (sg_telemetry sample_server_config) = sg_telemetry sample_server_config \<longrightarrow>
     LoadServerConfig ?parse (\<lambda>_. \<lambda>d. Some (read_over sample_server_config d)) (Some [1 :: byte]) = Inr sample_server_config)"
    by (simp add: sample_marshal_def)
  moreover have "migrateTelemetryConfig (sg_telemetry sample_server_config) = sg_telemetry sample_server_config"
    by (simp add: sample_server_config_def DefaultServerConfig_def migrateTelemetryConfig_def defaultTelemetryConfig_def Let_def)
  ultimately show ?thesis by blast
qed

text \<open>A saved limit of zero retries is loaded as three.\<close>

lemma zero_retries_not_kept:
  "tl_retries t = 0 \<Longrightarrow> tl_retries (telemetry_over t defaultTelemetryConfig) = 3"
  by (simp add: telemetry_over_def defaultTelemetryConfig_def)

section \<open>Replacing a file\<close>

text \<open>C22. A configuration with secrets is replaced atomically and privately: at every moment of the write, whichever call fails,
  the path holds what it held before or the whole new file, no other path is touched but the temporary
  file (so the target of a symbolic link is never written), everything new is readable by its owner only, and the temporary file is
  gone in the end; success means that the path holds the new file, and a failure before the rename that it holds the old one.\<close>

theorem private_write_atomic:
  assumes "writePrivateConfig fault tmp part path data fs = (ok, tr)" "tmp \<noteq> path" "gm_get fs tmp = None"
  shows "(\<forall>s \<in> set tr. gm_get s path \<in> {gm_get fs path, Some (FileNode 384 data)} \<and>
      (\<forall>q. q \<noteq> path \<and> q \<noteq> tmp \<longrightarrow> gm_get s q = gm_get fs q) \<and>
      (\<forall>q. gm_get s q \<noteq> gm_get fs q \<longrightarrow> (\<exists>d. gm_get s q = Some (FileNode 384 d)))) \<and>
    gm_get (last tr) tmp = None \<and> (ok \<longrightarrow> gm_get (last tr) path = Some (FileNode 384 data)) \<and>
    (\<not> ok \<and> fault \<noteq> Some DirSyncFails \<longrightarrow> (\<forall>q. gm_get (last tr) q = gm_get fs q))"
  using assms by (auto simp: writePrivateConfig_def Let_def split: if_split_asm)

theorem private_write_atomic_witness:
  "\<exists>tr. writePrivateConfig (Some RenameFails) ''t'' [1] ''c'' [1, 2] [(''c'', LinkNode ''/etc/passwd'')] = (False, tr) \<and>
     gm_get (last tr) ''c'' = Some (LinkNode ''/etc/passwd'') \<and> gm_get (last tr) ''t'' = None"
proof -
  let ?fs = "[(''c'', LinkNode ''/etc/passwd'')]"
  obtain ok tr where w: "writePrivateConfig (Some RenameFails) ''t'' [1] ''c'' [1, 2] ?fs = (ok, tr)" by fastforce
  moreover from w have "\<not> ok" by (auto simp: writePrivateConfig_def Let_def)
  ultimately show ?thesis using private_write_atomic [OF w] by auto
qed

section \<open>TURN settings\<close>

lemma trim_space_Nil: "trim_space s = [] \<longleftrightarrow> blank s"
proof -
  have "trim_space s = [] \<longleftrightarrow> (\<forall>x \<in> set (dropWhile is_space s). is_space x)" by (auto simp: trim_space_def)
  also have "\<dots> \<longleftrightarrow> (\<forall>x \<in> set s. is_space x)"
    by (metis dropWhile_eq_Nil_conv hd_dropWhile hd_in_set list.set_intros(1) set_dropWhileD)
  finally show ?thesis by (simp add: blank_def list_all_iff)
qed

lemma host_port_not_blank: "SplitHostPort s = Some x \<Longrightarrow> \<not> blank s"
proof -
  assume *: "SplitHostPort s = Some x"
  have "CHR '':'' \<in> set s"
  proof (rule ccontr)
    assume "CHR '':'' \<notin> set s"
    then have "SplitHostPort s = None" by (simp add: SplitHostPort_def split_last_def)
    with * show False by simp
  qed
  moreover have "\<not> is_space (CHR '':'')" by (simp add: is_space_def)
  ultimately show ?thesis unfolding blank_def list_all_iff by blast
qed

lemma turn_checked:
  assumes "check_turn p2p t = None" "tu_enabled t"
  obtains host port where "SplitHostPort (tu_server t) = Some (host, port)" "\<not> blank host" "port_ok port"
    "tu_username t \<noteq> []" "tu_password t \<noteq> []" "tu_transport t \<in> {[], ''udp'', ''tcp'', ''tls''}" "0 \<le> tu_max_datagram t" "tu_max_datagram t \<le> 65046"
    "0 \<le> tu_retransmits t" "tu_retransmits t \<le> 8"
proof -
  obtain host port where s: "SplitHostPort (tu_server t) = Some (host, port)"
    using assms by (auto simp: check_turn_def split: option.split_asm if_split_asm)
  have "\<not> blank host \<and> port_ok port \<and> tu_username t \<noteq> [] \<and> tu_password t \<noteq> [] \<and> tu_transport t \<in> {[], ''udp'', ''tcp'', ''tls''} \<and>
    0 \<le> tu_max_datagram t \<and> tu_max_datagram t \<le> 65046 \<and> 0 \<le> tu_retransmits t \<and> tu_retransmits t \<le> 8"
    using assms by (simp add: check_turn_def s None_or trim_space_Nil not_le not_less)
  then show thesis using that s by blast
qed

lemma provider_accepts:
  assumes "check_turn p2p t = None" "tu_enabled t" "clientTURNProviderConfig roots_ok t = Inr cfg" "SplitHostPort (tu_server t) = Some (host, port)"
  shows "(\<exists>p. NewTURNRelayProvider cfg = Inr p) \<longleftrightarrow> (tu_transport t = ''tls'' \<longrightarrow> tls_name_ok cfg host)"
proof -
  obtain host' port' where ok: "SplitHostPort (tu_server t) = Some (host', port')" "\<not> blank host'" "port_ok port'"
    "tu_username t \<noteq> []" "tu_password t \<noteq> []" "tu_transport t \<in> {[], ''udp'', ''tcp'', ''tls''}" "0 \<le> tu_max_datagram t" "tu_max_datagram t \<le> 65046"
    "0 \<le> tu_retransmits t" "tu_retransmits t \<le> 8" by (rule turn_checked [OF assms(1,2)])
  have hp: "host' = host" "port' = port" using ok(1) assms(4) by simp_all
  obtain n where n: "parse_int64 port = Some n" "1 \<le> n" "n \<le> 65535" using ok(3) hp by (auto simp: port_ok_def split: option.split_asm)
  have cfg: "tc_server cfg = tu_server t" "tc_username cfg = tu_username t" "tc_password cfg = tu_password t" "tc_transport cfg = tu_transport t"
    "tc_max_datagram cfg = tu_max_datagram t" "tc_retransmits cfg = tu_retransmits t" "tc_channel cfg = 0"
    using assms(3) by (auto simp: clientTURNProviderConfig_def Let_def split: if_split_asm)
  have "\<not> blank (tu_server t)" by (rule host_port_not_blank [OF assms(4)])
  then show ?thesis using ok(2,4-10) n assms(4) unfolding hp
    by (auto simp: NewTURNRelayProvider_def cfg Let_def tls_name_ok_def)
qed

text \<open>C26. TURN settings that pass validation are refused later for one reason only: with the CA file readable, the client's
  relay allocator accepts them unless the control connection is TLS and the name it would verify,
  the configured one or else the host, is blank or contains white space.\<close>

theorem validated_turn_accepted:
  assumes "LoadClientConfig parse unmarshal data = Inr c" "tu_enabled (ps_turn (cl_p2p c))" "roots_ok (tu_ca_cert (ps_turn (cl_p2p c)))"
    and "SplitHostPort (tu_server (ps_turn (cl_p2p c))) = Some (host, port)"
  shows "(\<exists>p. newClientTURNSplitAllocator roots_ok (ps_turn (cl_p2p c)) = Inr (Some p) \<and> turn_config_ok p) \<longleftrightarrow>
    (tu_transport (ps_turn (cl_p2p c)) = ''tls'' \<longrightarrow>
       (let name = (if tu_server_name (ps_turn (cl_p2p c)) = [] then host else tu_server_name (ps_turn (cl_p2p c)))
        in \<not> blank name \<and> \<not> contains_space name))"
proof -
  let ?t = "ps_turn (cl_p2p c)"
  have "check_turn (ps_enabled (cl_p2p c)) ?t = None"
    using assms(1) by (auto simp: LoadClientConfig_def client_Validate_def Let_def split: option.split_asm sum.split_asm if_split_asm)
  moreover obtain cfg where cfg: "clientTURNProviderConfig roots_ok ?t = Inr cfg" using assms(3) by (simp add: clientTURNProviderConfig_def Let_def)
  ultimately have acc: "(\<exists>p. NewTURNRelayProvider cfg = Inr p) \<longleftrightarrow> (tu_transport ?t = ''tls'' \<longrightarrow> tls_name_ok cfg host)"
    by (rule provider_accepts [OF _ assms(2) _ assms(4)])
  have "tc_tls_server_name cfg = tu_server_name ?t" "tc_tls_config cfg = Some [] \<or> tc_tls_config cfg = None"
    using cfg by (auto simp: clientTURNProviderConfig_def Let_def split: if_split_asm)
  then have name: "tls_name_ok cfg host \<longleftrightarrow> (let name = (if tu_server_name ?t = [] then host else tu_server_name ?t)
        in \<not> blank name \<and> \<not> contains_space name)"
    by (auto simp: tls_name_ok_def contains_space_def Let_def)
  have "(\<exists>p. newClientTURNSplitAllocator roots_ok ?t = Inr (Some p) \<and> turn_config_ok p) \<longleftrightarrow> (\<exists>p. NewTURNRelayProvider cfg = Inr p)"
    using assms(2) cfg provider_config_ok [of cfg] by (auto simp: newClientTURNSplitAllocator_def split: sum.splits)
  with acc name show ?thesis by simp
qed

definition sample_client_config :: client_config where
  "sample_client_config = DefaultClientConfig\<lparr>cl_version := 2, cl_p2p := \<lparr>ps_enabled = True, ps_stun = [], ps_fallback = True,
     ps_turn = \<lparr>tu_enabled = True, tu_server = ''turn:5349'', tu_username = ''u'', tu_password = ''p'', tu_transport = ''tls'', tu_ca_cert = [],
       tu_server_name = [], tu_insecure = False, tu_channel_bind = True, tu_timeout = 0, tu_refresh = 0, tu_max_datagram = 0,
       tu_retransmits = 0\<rparr>\<rparr>\<rparr>"

lemma plain_turn: "\<not> is_space (CHR ''t'')" "\<not> is_space (CHR ''n'')" by (simp_all add: is_space_def)

lemma sample_words:
  "\<not> blank ''turn''" "\<not> contains_space ''turn''" "\<not> contains_space []" "trim_space ''turn'' \<noteq> []" "validProxySession []"
  by (simp_all add: blank_def contains_space_def trim_space_def validProxySession_def plain_turn)

lemma sample_header: "validProxyHeaderName ''X-Proxy-Session''"
  by (simp add: validProxyHeaderName_def token_char_def)

lemma sample_free: "to_lower ''X-Proxy-Session'' \<notin> set reserved_headers"
  by (simp add: to_lower_def to_lower_char_def reserved_headers_def)

lemma sample_port: "port_ok ''5349''"
  by (simp add: port_ok_def parse_int64_def parse_uint_def digit_value_def)

lemma sample_split: "SplitHostPort ''turn:5349'' = Some (''turn'', ''5349'')"
  by (simp add: SplitHostPort_def split_last_def)

lemmas sample_turn = sample_words sample_header sample_free sample_port sample_split

lemma sample_client_loads: "LoadClientConfig (\<lambda>_. None) (\<lambda>d _. Some d) (Some sample_client_config) = Inr sample_client_config"
proof -
  have mig: "MigrateClientConfig sample_client_config = sample_client_config"
    by (simp add: MigrateClientConfig_def migrate_transport_def default_turn_transport_def sample_client_config_def DefaultClientConfig_def CurrentVersion_def)
  have "check_turn True (ps_turn (cl_p2p sample_client_config)) = None"
    using sample_turn by (simp add: sample_client_config_def check_turn_def)
  moreover have "ValidateProxySettings (\<lambda>_. None) [] [] ''X-Proxy-Session'' (30 * second) False True = None"
    unfolding ValidateProxySettings_def Let_def using sample_turn by simp
  ultimately have "client_Validate (\<lambda>_. None) sample_client_config = None"
    using sample_turn by (simp add: client_Validate_def sample_client_config_def DefaultClientConfig_def CurrentVersion_def TunnelTransport_def)
  with mig show ?thesis by (simp add: LoadClientConfig_def)
qed

theorem validated_turn_accepted_witness:
  "\<exists>p. newClientTURNSplitAllocator (\<lambda>_. True) (ps_turn (cl_p2p sample_client_config)) = Inr (Some p) \<and> turn_config_ok p"
proof -
  have turn: "tu_enabled (ps_turn (cl_p2p sample_client_config))" "tu_server (ps_turn (cl_p2p sample_client_config)) = ''turn:5349''"
    "tu_server_name (ps_turn (cl_p2p sample_client_config)) = []" by (simp_all add: sample_client_config_def)
  show ?thesis
    using validated_turn_accepted [OF sample_client_loads turn(1), of "\<lambda>_. True" "''turn''" "''5349''"] sample_turn
    unfolding turn Let_def by simp
qed

end
