(* ===== verification/State_Store.thy ===== *)
theory State_Store
  imports Config
begin

text \<open>
  The control plane's state stores (\<^verbatim>\<open>cmd/ha_control_plane.go\<close>, \<^verbatim>\<open>cmd/state_adapters.go\<close>, \<^verbatim>\<open>cmd/ha_config.go\<close>,
  \<^verbatim>\<open>cmd/runtime_store_factory.go\<close>): the bounded store in memory, the Redis store with its codec of the
  RESP protocol, and the choice of a backend. Locale \<open>state_store\<close> is the interface \<^verbatim>\<open>RuntimeStateStore\<close> with its laws. The Redis
  server, PostgreSQL and JSON are arguments; strings are the bytes on the wire.
\<close>

section \<open>States and the store in memory\<close>

record runtime_state =
  rs_id :: string
  rs_status :: string
  rs_updated :: "time option" \<comment> \<open>\<open>None\<close> is the zero time\<close>

record memory_store =
  ms_max :: int
  ms_map :: "(string, runtime_state) gomap"

datatype store_error =
    IdRequired | AddrRequired | DialFailed | WriteFailed | UnexpectedEnd | RedisError string | BadLength | TooLong | BadTerminator
  | UnsupportedReply | CodecFailed | NilDB | QueryFailed

definition NewInMemoryStateStore :: "int \<Rightarrow> memory_store" where
  "NewInMemoryStateStore n = \<lparr>ms_max = if n \<le> 0 then 1024 else n, ms_map = []\<rparr>"

definition before :: "time option \<Rightarrow> time option \<Rightarrow> bool" where
  "before a b = (case (a, b) of (Some x, Some y) \<Rightarrow> x < y | (None, Some _) \<Rightarrow> True | _ \<Rightarrow> False)"

definition stamped :: "time \<Rightarrow> runtime_state \<Rightarrow> runtime_state" where
  "stamped now st = (if rs_updated st = None then st\<lparr>rs_updated := Some now\<rparr> else st)"

fun oldest_state :: "string \<Rightarrow> time option \<Rightarrow> (string, runtime_state) gomap \<Rightarrow> string" where
  "oldest_state oldest at [] = oldest"
| "oldest_state oldest at ((i, v) # m) =
     (if oldest = [] \<or> before (rs_updated v) at then oldest_state i (rs_updated v) m else oldest_state oldest at m)"

definition memory_Save :: "time \<Rightarrow> runtime_state \<Rightarrow> memory_store \<Rightarrow> store_error option \<times> memory_store" where
  "memory_Save now st s =
     (if rs_id st = [] then (Some IdRequired, s)
      else
        let st = stamped now st;
            m = (if gm_get (ms_map s) (rs_id st) = None \<and> int (length (ms_map s)) \<ge> ms_max s
                 then gm_del (oldest_state [] None (ms_map s)) (ms_map s) else ms_map s)
        in (None, s\<lparr>ms_map := gm_put (rs_id st) st m\<rparr>))"

definition memory_Load :: "string \<Rightarrow> memory_store \<Rightarrow> runtime_state option" where
  "memory_Load i s = gm_get (ms_map s) i"

section \<open>Redis\<close>






record redis_store =
  rd_addr :: string
  rd_password :: string
  rd_prefix :: string
  rd_timeout :: time

definition NewRedisStateStore :: "string \<Rightarrow> redis_store" where
  "NewRedisStateStore addr = \<lparr>rd_addr = addr, rd_password = [], rd_prefix = ''xrok:state:'', rd_timeout = 3 * second\<rparr>"





section \<open>PostgreSQL\<close>

text \<open>The statements of the PostgreSQL store, over a database \<open>exec\<close>: whether they succeed, and the row a query finds.\<close>

datatype sql = CreateTable | Upsert string string time | SelectRow string

definition postgres_EnsureSchema :: "(sql \<Rightarrow> bool) option \<Rightarrow> store_error option" where
  "postgres_EnsureSchema db = (case db of None \<Rightarrow> Some NilDB | Some exec \<Rightarrow> if exec CreateTable then None else Some QueryFailed)"

definition postgres_Save :: "(sql \<Rightarrow> bool) option \<Rightarrow> time \<Rightarrow> runtime_state \<Rightarrow> store_error option" where
  "postgres_Save db now st =
     (case db of
        None \<Rightarrow> Some NilDB
      | Some exec \<Rightarrow>
          if rs_id st = [] then Some IdRequired
          else (let st = stamped now st in
                if exec (Upsert (rs_id st) (rs_status st) (the (rs_updated st))) then None else Some QueryFailed))"

definition postgres_Load ::
  "(sql \<Rightarrow> unit + runtime_state option) option \<Rightarrow> string \<Rightarrow> store_error + runtime_state option" where
  "postgres_Load db i =
     (case db of
        None \<Rightarrow> Inl NilDB
      | Some query \<Rightarrow> (case query (SelectRow i) of Inl _ \<Rightarrow> Inl QueryFailed | Inr row \<Rightarrow> Inr row))"

section \<open>Choosing a backend\<close>

record ha_config =
  ha_backend :: string
  ha_redis :: string
  ha_redis_password :: string
  ha_postgres :: string

definition validRedisAddr :: "string \<Rightarrow> bool" where
  "validRedisAddr v =
     (case SplitHostPort v of
        None \<Rightarrow> False
      | Some (host, port) \<Rightarrow>
          if host = [] \<or> port = [] then False
          else (case parse_int64 port of Some n \<Rightarrow> n > 0 \<and> n \<le> 65535 | None \<Rightarrow> False))"

definition dsn_ok :: "(string \<Rightarrow> url option) \<Rightarrow> string \<Rightarrow> bool" where
  "dsn_ok parse dsn = (case parse dsn of Some u \<Rightarrow> ur_scheme u = ''postgres'' \<and> ur_host u \<noteq> [] | None \<Rightarrow> False)"

definition LoadHAConfig :: "(string \<Rightarrow> url option) \<Rightarrow> (string \<Rightarrow> string) \<Rightarrow> config_error + ha_config" where
  "LoadHAConfig parse getenv =
     (let b = (if getenv ''XROK_HA_BACKEND'' = [] then ''memory'' else getenv ''XROK_HA_BACKEND'');
          c = \<lparr>ha_backend = b, ha_redis = getenv ''XROK_HA_REDIS_ADDR'', ha_redis_password = getenv ''XROK_HA_REDIS_PASSWORD'',
               ha_postgres = getenv ''XROK_HA_POSTGRES_DSN''\<rparr>
      in if b \<notin> {''memory'', ''redis'', ''postgres''} then Inl (ConfigError ''invalid XROK_HA_BACKEND'')
         else if ha_redis c \<noteq> [] \<and> \<not> validRedisAddr (ha_redis c) then Inl (ConfigError ''invalid XROK_HA_REDIS_ADDR'')
         else if ha_postgres c \<noteq> [] \<and> \<not> dsn_ok parse (ha_postgres c) then Inl (ConfigError ''invalid XROK_HA_POSTGRES_DSN'')
         else Inr c)"

definition HAConfigFromServerConfig :: "(string \<Rightarrow> url option) \<Rightarrow> server_config \<Rightarrow> config_error + ha_config" where
  "HAConfigFromServerConfig parse c =
     (let b = (if sg_backend c = [] then ''memory'' else sg_backend c);
          h = \<lparr>ha_backend = b, ha_redis = sg_redis c, ha_redis_password = sg_redis_password c, ha_postgres = sg_postgres c\<rparr>
      in if b = ''redis'' \<and> \<not> validRedisAddr (ha_redis h) then Inl (ConfigError ''invalid redis_addr'')
         else if b = ''postgres'' \<and> \<not> dsn_ok parse (ha_postgres h) then Inl (ConfigError ''invalid postgres_dsn'')
         else Inr h)"

text \<open>A store by its kind; \<open>open_sql\<close> is the embedder's dependency, with the database it opens.\<close>

datatype runtime_store = MemoryStore memory_store | RedisStore redis_store | PostgresStore | InjectedStore

definition NewRuntimeStateStore ::
  "server_config \<Rightarrow> (string \<Rightarrow> string \<Rightarrow> (sql \<Rightarrow> bool) option) option \<Rightarrow> config_error + runtime_store" where
  "NewRuntimeStateStore cfg open_sql =
     (if sg_backend cfg \<in> {[], ''memory''} then Inr (MemoryStore (NewInMemoryStateStore 4096))
      else if sg_backend cfg = ''redis'' then
        (if sg_redis cfg = [] then Inl (ConfigError ''redis_addr is required'')
         else Inr (RedisStore ((NewRedisStateStore (sg_redis cfg))\<lparr>rd_password := sg_redis_password cfg\<rparr>)))
      else if sg_backend cfg \<in> {''postgres'', ''postgresql''} then
        (if sg_postgres cfg = [] then Inl (ConfigError ''postgres_dsn is required'')
         else case open_sql of
           None \<Rightarrow> Inl (ConfigError ''postgres backend requires OpenSQL dependency'')
         | Some opener \<Rightarrow>
             (case opener ''postgres'' (sg_postgres cfg) of
                None \<Rightarrow> Inl (ConfigError ''open'')
              | Some exec \<Rightarrow> (case postgres_EnsureSchema (Some exec) of Some _ \<Rightarrow> Inl (ConfigError ''schema'') | None \<Rightarrow> Inr PostgresStore)))
      else Inl (ConfigError ''unsupported state_backend''))"

section \<open>The interface\<close>

text \<open>What a \<^verbatim>\<open>RuntimeStateStore\<close> promises: a saved state is loaded as it was saved, with its time filled in, and saving one state changes
  no other, except that a bounded store may forget it.\<close>

lemma find_append: "find P (xs @ ys) = (case find P xs of None \<Rightarrow> find P ys | Some x \<Rightarrow> Some x)"
  by (induction xs) auto

locale state_store =
  fixes save :: "runtime_state \<Rightarrow> 's \<Rightarrow> bool \<times> 's"
    and load :: "string \<Rightarrow> 's \<Rightarrow> runtime_state option"
    and stamp :: "runtime_state \<Rightarrow> runtime_state"
    and good :: "'s \<Rightarrow> bool"
  assumes good_save: "good s \<Longrightarrow> good (snd (save st s))"
    and load_saved: "good s \<Longrightarrow> fst (save st s) \<Longrightarrow> load (rs_id st) (snd (save st s)) = Some (stamp st)"
    and load_kept: "good s \<Longrightarrow> j \<noteq> rs_id st \<or> \<not> fst (save st s) \<Longrightarrow> load j (snd (save st s)) = load j s \<or> load j (snd (save st s)) = None"
begin

fun save_all :: "runtime_state list \<Rightarrow> 's \<Rightarrow> runtime_state list \<times> 's" where
  "save_all [] s = ([], s)"
| "save_all (st # sts) s = (case save st s of (ok, s') \<Rightarrow>
     (case save_all sts s' of (done, s'') \<Rightarrow> (if ok then st # done else done, s'')))"

lemma save_all_good: "good s \<Longrightarrow> good (snd (save_all sts s))"
proof (induction sts arbitrary: s)
  case (Cons st sts)
  obtain ok s1 where s1: "save st s = (ok, s1)" by fastforce
  then have "good (snd (save_all sts s1))" using good_save [OF Cons.prems, of st] Cons.IH by simp
  then show ?case using s1 by (simp add: case_prod_beta)
qed simp

text \<open>Only the last state saved under an identifier is ever loaded.\<close>

lemma load_last:
  "good s \<Longrightarrow> load i (snd (save_all sts s)) = Some st \<Longrightarrow>
     (case find (\<lambda>x. rs_id x = i) (rev (fst (save_all sts s))) of Some x \<Rightarrow> st = stamp x | None \<Rightarrow> load i s = Some st)"
proof (induction sts arbitrary: s)
  case (Cons x xs)
  obtain ok s1 where s1: "save x s = (ok, s1)" by fastforce
  obtain d s2 where s2: "save_all xs s1 = (d, s2)" by fastforce
  have "good s1" using good_save [OF Cons.prems(1), of x] s1 by simp
  moreover have "load i (snd (save_all xs s1)) = Some st" using Cons.prems(2) s1 s2 by (auto split: if_split_asm)
  ultimately have IH: "case find (\<lambda>x. rs_id x = i) (rev d) of Some x \<Rightarrow> st = stamp x | None \<Rightarrow> load i s1 = Some st"
    using Cons.IH [of s1] s2 by simp
  show ?case
  proof (cases "find (\<lambda>x. rs_id x = i) (rev d)")
    case (Some y)
    then show ?thesis using IH s1 s2 by (auto simp: find_append)
  next
    case None
    with IH have l: "load i s1 = Some st" by simp
    show ?thesis
    proof (cases "rs_id x = i \<and> ok")
      case True
      then have "st = stamp x" using load_saved [OF Cons.prems(1), of x] l s1 by auto
      then show ?thesis using True None s1 s2 by (simp add: find_append)
    next
      case False
      then have "load i s = Some st" using load_kept [OF Cons.prems(1), of i x] l s1 by auto
      then show ?thesis using False None s1 s2 by (auto simp: find_append)
    qed
  qed
qed simp

end

section \<open>The store in memory keeps the interface\<close>

definition memory_ok :: "memory_store \<Rightarrow> bool" where
  "memory_ok s \<longleftrightarrow> gm_ok (ms_map s) \<and> 0 < ms_max s \<and> int (length (ms_map s)) \<le> ms_max s \<and>
     (\<forall>(i, v) \<in> set (ms_map s). i \<noteq> [] \<and> rs_id v = i \<and> rs_updated v \<noteq> None)"

lemma memory_ok_new: "memory_ok (NewInMemoryStateStore n)"
  by (simp add: memory_ok_def NewInMemoryStateStore_def)

text \<open>The entry chosen for eviction is one that no other was updated before.\<close>

lemma oldest_state_min:
  assumes "\<forall>(i, v) \<in> set m. i \<noteq> [] \<and> rs_updated v \<noteq> None" "oldest \<noteq> [] \<longrightarrow> at \<noteq> None" "m \<noteq> [] \<or> oldest \<noteq> []"
  shows "\<exists>t. ((\<exists>v. (oldest_state oldest at m, v) \<in> set m \<and> rs_updated v = Some t) \<or> oldest \<noteq> [] \<and> oldest_state oldest at m = oldest \<and> at = Some t) \<and>
    (\<forall>(i, v) \<in> set m. \<forall>u. rs_updated v = Some u \<longrightarrow> t \<le> u) \<and> (oldest \<noteq> [] \<longrightarrow> t \<le> the at)"
  using assms
proof (induction m arbitrary: oldest at)
  case Nil
  then show ?case by auto
next
  case (Cons x m)
  obtain i v u where x: "x = (i, v)" "i \<noteq> []" "rs_updated v = Some u" using Cons.prems(1) by (cases x) auto
  have m: "\<forall>(i, v) \<in> set m. i \<noteq> [] \<and> rs_updated v \<noteq> None" using Cons.prems(1) by auto
  show ?case
  proof (cases "oldest = [] \<or> before (rs_updated v) at")
    case True
    from Cons.IH [OF m, of i "Some u"] x obtain t where t:
      "(\<exists>w. (oldest_state i (Some u) m, w) \<in> set m \<and> rs_updated w = Some t) \<or> oldest_state i (Some u) m = i \<and> u = t"
      "\<forall>(i, v) \<in> set m. \<forall>u. rs_updated v = Some u \<longrightarrow> t \<le> u" "t \<le> u" by auto
    have "oldest \<noteq> [] \<longrightarrow> t \<le> the at" using True t(3) x(3) by (auto simp: before_def split: option.split_asm)
    then show ?thesis using True t x by (intro exI [of _ t]) auto
  next
    case False
    then obtain a where a: "at = Some a" "a \<le> u" using Cons.prems(2) x(3) by (auto simp: before_def split: option.split_asm)
    from Cons.IH [OF m, of oldest at] False a obtain t where t:
      "(\<exists>w. (oldest_state oldest at m, w) \<in> set m \<and> rs_updated w = Some t) \<or> oldest_state oldest at m = oldest \<and> at = Some t"
      "\<forall>(i, v) \<in> set m. \<forall>u. rs_updated v = Some u \<longrightarrow> t \<le> u" "t \<le> a" by auto
    then show ?thesis using False a x by (intro exI [of _ t]) auto
  qed
qed

lemma memory_Save_ok:
  assumes "memory_ok s"
  shows "memory_ok (snd (memory_Save now st s))"
proof (cases "rs_id st = []")
  case False
  let ?st = "stamped now st"
  have st: "rs_id ?st = rs_id st" "rs_updated ?st \<noteq> None" by (auto simp: stamped_def)
  define m where "m = (if gm_get (ms_map s) (rs_id st) = None \<and> int (length (ms_map s)) \<ge> ms_max s
     then gm_del (oldest_state [] None (ms_map s)) (ms_map s) else ms_map s)"
  have m: "gm_ok m" "set m \<subseteq> set (ms_map s)" using assms by (auto simp: m_def memory_ok_def set_gm_del)
  have room: "int (length (gm_put (rs_id st) ?st m)) \<le> ms_max s"
  proof (cases "gm_get (ms_map s) (rs_id st) = None \<and> int (length (ms_map s)) \<ge> ms_max s")
    case True
    then have "ms_map s \<noteq> []" using assms by (auto simp: memory_ok_def)
    moreover have "\<forall>(i, v) \<in> set (ms_map s). i \<noteq> [] \<and> rs_updated v \<noteq> None" using assms unfolding memory_ok_def by fast
    ultimately obtain v where "(oldest_state [] None (ms_map s), v) \<in> set (ms_map s)"
      using oldest_state_min [of "ms_map s" "[]" None] by blast
    then have "gm_get (ms_map s) (oldest_state [] None (ms_map s)) = Some v" using assms gm_get_set by (fastforce simp: memory_ok_def)
    then have "Suc (length m) = length (ms_map s)" using True length_gm_del assms by (fastforce simp: m_def memory_ok_def)
    then show ?thesis using assms by (auto simp: length_gm_put memory_ok_def)
  next
    case False
    then show ?thesis using assms unfolding m_def by (auto simp: length_gm_put memory_ok_def)
  qed
  have "snd (memory_Save now st s) = s\<lparr>ms_map := gm_put (rs_id st) ?st m\<rparr>" using False by (simp add: memory_Save_def st m_def)
  moreover have "\<forall>(i, v) \<in> set (gm_put (rs_id st) ?st m). i \<noteq> [] \<and> rs_id v = i \<and> rs_updated v \<noteq> None"
    using assms m False st by (auto simp: set_gm_put memory_ok_def)
  ultimately show ?thesis using assms room m(1) by (simp add: memory_ok_def)
qed (use assms in \<open>simp add: memory_Save_def\<close>)

definition memory_save :: "time \<Rightarrow> runtime_state \<Rightarrow> memory_store \<Rightarrow> bool \<times> memory_store" where
  "memory_save now st s = (case memory_Save now st s of (e, s') \<Rightarrow> (e = None, s'))"

lemma memory_loads:
  "rs_id st \<noteq> [] \<Longrightarrow> memory_Load (rs_id st) (snd (memory_Save now st s)) = Some (stamped now st)"
  by (simp add: memory_Load_def memory_Save_def Let_def stamped_def)

lemma memory_keeps:
  "j \<noteq> rs_id st \<or> rs_id st = [] \<Longrightarrow>
     memory_Load j (snd (memory_Save now st s)) = memory_Load j s \<or> memory_Load j (snd (memory_Save now st s)) = None"
  by (auto simp: memory_Load_def memory_Save_def Let_def stamped_def)

interpretation memory: state_store "memory_save now" memory_Load "stamped now" memory_ok for now
proof unfold_locales
  fix st s j
  assume ok: "memory_ok s"
  show "memory_ok (snd (memory_save now st s))" using memory_Save_ok [OF ok, of now st] by (simp add: memory_save_def case_prod_beta)
  have id: "fst (memory_save now st s) \<longleftrightarrow> rs_id st \<noteq> []" by (simp add: memory_save_def memory_Save_def Let_def)
  show "memory_Load (rs_id st) (snd (memory_save now st s)) = Some (stamped now st)" if "fst (memory_save now st s)"
    using that id memory_loads [of st now s] by (simp add: memory_save_def case_prod_beta)
  show "memory_Load j (snd (memory_save now st s)) = memory_Load j s \<or> memory_Load j (snd (memory_save now st s)) = None"
    if "j \<noteq> rs_id st \<or> \<not> fst (memory_save now st s)"
  proof -
    have "j \<noteq> rs_id st \<or> rs_id st = []" using that id by blast
    from memory_keeps [OF this, of now s] show ?thesis by (simp add: memory_save_def case_prod_beta)
  qed
qed

definition memory_saves :: "time \<Rightarrow> runtime_state list \<Rightarrow> memory_store \<Rightarrow> memory_store" where
  "memory_saves now sts s = foldl (\<lambda>s st. snd (memory_Save now st s)) s sts"

lemma memory_save_all: "memory.save_all now sts s = (filter (\<lambda>x. rs_id x \<noteq> []) sts, memory_saves now sts s)"
  by (induction sts arbitrary: s) (auto simp: memory_saves_def memory_save_def memory_Save_def Let_def)

lemma find_filter: "(\<And>x. P x \<Longrightarrow> Q x) \<Longrightarrow> find P (filter Q xs) = find P xs"
  by (induction xs) auto

text \<open>C27. The store in memory is bounded and keeps what was written last: after any sequence of saves into a new store it holds at most its
  limit of states (1024 when the limit asked for is not positive), and a state that it loads under
  an identifier is the last one saved under it, stamped with the time of the save when it had none.\<close>

theorem memory_store_last_write:
  assumes "s = memory_saves now sts (NewInMemoryStateStore n)" "memory_Load i s = Some st"
  shows "int (length (ms_map s)) \<le> (if n \<le> 0 then 1024 else n) \<and> i \<noteq> [] \<and>
    (\<exists>x. find (\<lambda>x. rs_id x = i) (rev sts) = Some x \<and> st = stamped now x)"
proof -
  let ?s0 = "NewInMemoryStateStore n"
  have max: "ms_max (memory_saves now sts s0) = ms_max s0" for s0
    by (induction sts arbitrary: s0) (auto simp: memory_saves_def memory_Save_def Let_def)
  have "memory_ok s" using memory.save_all_good [OF memory_ok_new, of now sts n] assms(1) by (simp add: memory_save_all)
  then have "int (length (ms_map s)) \<le> ms_max s" "i \<noteq> []" using assms(2) map_of_SomeD [of "ms_map s" i st]
    by (auto simp: memory_ok_def memory_Load_def)
  moreover have "ms_max s = (if n \<le> 0 then 1024 else n)" using max assms(1) by (simp add: NewInMemoryStateStore_def)
  moreover have "memory_Load i ?s0 \<noteq> Some st" by (simp add: memory_Load_def NewInMemoryStateStore_def)
  then have "\<exists>x. find (\<lambda>x. rs_id x = i) (rev (filter (\<lambda>x. rs_id x \<noteq> []) sts)) = Some x \<and> st = stamped now x"
    using memory.load_last [OF memory_ok_new, of i now sts n st] assms by (auto simp: memory_save_all split: option.split_asm)
  then have "\<exists>x. find (\<lambda>x. rs_id x = i) (rev sts) = Some x \<and> st = stamped now x"
    using \<open>i \<noteq> []\<close> unfolding rev_filter by (subst (asm) find_filter) auto
  ultimately show ?thesis by simp
qed

theorem memory_store_last_write_witness:
  "let x = \<lparr>rs_id = ''a'', rs_status = ''up'', rs_updated = None\<rparr>; y = \<lparr>rs_id = ''b'', rs_status = ''down'', rs_updated = None\<rparr>;
       s = memory_saves 5 [x, y] (NewInMemoryStateStore 1) in
     memory_Load ''b'' s = Some (stamped 5 y) \<and> length (ms_map s) \<le> 1"
proof -
  let ?x = "\<lparr>rs_id = ''a'', rs_status = ''up'', rs_updated = None\<rparr>" and ?y = "\<lparr>rs_id = ''b'', rs_status = ''down'', rs_updated = None\<rparr>"
  have l: "memory_Load ''b'' (memory_saves 5 [?x, ?y] (NewInMemoryStateStore 1)) = Some (stamped 5 ?y)"
    by (simp add: memory_saves_def memory_Save_def memory_Load_def NewInMemoryStateStore_def stamped_def)
  show ?thesis using memory_store_last_write [OF refl l] l by (simp add: Let_def)
qed

section \<open>The Redis protocol\<close>













section \<open>Saving to Redis\<close>










end
