(* ===== verification/Server_Runtime.thy ===== *)
theory Server_Runtime
  imports State_Store
begin

text \<open>
  The embeddable server runtime (\<^verbatim>\<open>cmd/server_runtime.go\<close>, with the drain controller of
  \<^verbatim>\<open>cmd/ha_control_plane.go\<close> and the telemetry of \<^verbatim>\<open>cmd/telemetry_runtime.go\<close>): construction, start, shutdown, the serving
  goroutine with its deferred clean-up, and the process-wide owner of the legacy globals. Several runtimes share
  one process; an operation is split where it gives up a lock. Deadlines of drains are not modelled: a drain ends.
\<close>

section \<open>Drain hooks and telemetry\<close>

text \<open>A hook is its result; \<open>dr_ran\<close> records the hooks that were run.\<close>

record drain_controller =
  dr_hooks :: "string option list"
  dr_once :: bool
  dr_err :: "string option"
  dr_ran :: "string option list"

definition drain_Add :: "string option option \<Rightarrow> drain_controller \<Rightarrow> drain_controller" where
  "drain_Add h d = (case h of None \<Rightarrow> d | Some h \<Rightarrow> d\<lparr>dr_hooks := dr_hooks d @ [h]\<rparr>)"

fun first_error :: "string option \<Rightarrow> string option list \<Rightarrow> string option" where
  "first_error e [] = e"
| "first_error e (h # hs) = first_error (if h \<noteq> None \<and> e = None then h else e) hs"

definition Drain :: "drain_controller \<Rightarrow> string option \<times> drain_controller" where
  "Drain d = (let d = (if dr_once d then d
                       else d\<lparr>dr_once := True, dr_err := first_error (dr_err d) (dr_hooks d), dr_ran := dr_ran d @ dr_hooks d\<rparr>)
              in (dr_err d, d))"

datatype exporter_kind = NoExporter | InjectedExporter | EndpointExporter

definition newRuntimeTelemetry :: "(string \<Rightarrow> url option) \<Rightarrow> telemetry_config \<Rightarrow> bool \<Rightarrow> config_error + exporter_kind" where
  "newRuntimeTelemetry parse c injected =
     (case validateTelemetryConfig parse c of
        Some e \<Rightarrow> Inl e
      | None \<Rightarrow> Inr (if injected then InjectedExporter else if tl_endpoint c = [] then NoExporter else EndpointExporter))"

section \<open>Runtimes\<close>

text \<open>Where the serving goroutine is: not launched, in the serving loop, returned from it, after the drains, after the release of
  the legacy globals, ended.\<close>

datatype thread = Idle | Serving | Returned | Drained | Released | Ended

record runtime =
  rt_cfg :: server_config
  rt_ha :: ha_config
  rt_store :: runtime_store
  rt_exporter :: exporter_kind
  rt_exporter_open :: bool
  rt_legacy :: bool
  rt_start :: bool
  rt_closed :: bool
  rt_stopped :: bool
  rt_cancelled :: bool
  rt_shutdown :: bool \<comment> \<open>whether the channel \<^verbatim>\<open>shutdown\<close> is closed\<close>
  rt_done_once :: bool
  rt_done :: nat \<comment> \<open>how often \<^verbatim>\<open>done\<close> was closed\<close>
  rt_drain :: drain_controller
  rt_thread :: thread

record runtime_deps =
  dp_run :: bool
  dp_run_context :: bool
  dp_run_with_deps :: bool
  dp_store :: bool
  dp_open_sql :: "(string \<Rightarrow> string \<Rightarrow> (sql \<Rightarrow> bool) option) option"
  dp_exporter :: bool
  dp_server_exporter :: bool \<comment> \<open>\<^verbatim>\<open>ServerDeps.Exporter\<close> of given dependencies\<close>

definition newServerRuntime :: "(string \<Rightarrow> url option) \<Rightarrow> server_config \<Rightarrow> runtime_deps \<Rightarrow> config_error + runtime" where
  "newServerRuntime parse cfg deps =
     (let cfg = MigrateServerConfig cfg in
      case server_Validate parse cfg of
        Some e \<Rightarrow> Inl e
      | None \<Rightarrow>
          (case HAConfigFromServerConfig parse cfg of
             Inl e \<Rightarrow> Inl e
           | Inr ha \<Rightarrow>
               (case (if dp_store deps then Inr InjectedStore else NewRuntimeStateStore cfg (dp_open_sql deps)) of
                  Inl e \<Rightarrow> Inl e
                | Inr store \<Rightarrow>
                    (let injected = (dp_exporter deps \<or> dp_server_exporter deps) in
                     case (if injected then newRuntimeTelemetry parse (sg_telemetry cfg) True
                           else case validateTelemetryConfig parse (sg_telemetry cfg) of Some e \<Rightarrow> Inl e | None \<Rightarrow> Inr NoExporter) of
                       Inl e \<Rightarrow> Inl e
                     | Inr x \<Rightarrow>
                         Inr \<lparr>rt_cfg = cfg, rt_ha = ha, rt_store = store, rt_exporter = x, rt_exporter_open = (x \<noteq> NoExporter), rt_legacy = True,
                           rt_start = False, rt_closed = False, rt_stopped = False, rt_cancelled = False, rt_shutdown = False,
                           rt_done_once = False, rt_done = 0, rt_drain = \<lparr>dr_hooks = [], dr_once = False, dr_err = None, dr_ran = []\<rparr>,
                           rt_thread = Idle\<rparr>))))"

definition NewServerRuntimeWithDeps :: "(string \<Rightarrow> url option) \<Rightarrow> server_config \<Rightarrow> runtime_deps \<Rightarrow> config_error + runtime" where
  "NewServerRuntimeWithDeps parse cfg deps =
     (case newServerRuntime parse cfg deps of
        Inl e \<Rightarrow> Inl e
      | Inr r \<Rightarrow> Inr (r\<lparr>rt_legacy := \<not> (dp_run deps \<or> dp_run_context deps \<or> dp_run_with_deps deps)\<rparr>))"

section \<open>The process\<close>

text \<open>\<open>pw_owner\<close> is \<^verbatim>\<open>legacyServerRuntimeOwner\<close>, \<open>pw_channel\<close> whose channel \<^verbatim>\<open>serverShutdownChan\<close> is, \<open>pw_tails\<close> the runtimes whose
  shutdown before a start has not finished.\<close>

record process =
  pw_owner :: "nat option"
  pw_channel :: "nat option"
  pw_tails :: "nat list"
  pw_runtimes :: "runtime list"

definition at :: "process \<Rightarrow> nat \<Rightarrow> runtime" where "at w i = pw_runtimes w ! i"

definition put_runtime :: "nat \<Rightarrow> runtime \<Rightarrow> process \<Rightarrow> process" where
  "put_runtime i r w = w\<lparr>pw_runtimes := (pw_runtimes w)[i := r]\<rparr>"

definition acquireLegacyServerRuntime :: "nat \<Rightarrow> process \<Rightarrow> bool \<times> process" where
  "acquireLegacyServerRuntime i w = (if pw_owner w \<noteq> None then (False, w) else (True, w\<lparr>pw_owner := Some i\<rparr>))"

definition releaseLegacyServerRuntime :: "nat \<Rightarrow> process \<Rightarrow> process" where
  "releaseLegacyServerRuntime i w = (if pw_owner w = Some i then w\<lparr>pw_owner := None\<rparr> else w)"

datatype start_error = NilContext | RuntimeClosed | AlreadyStarted | LegacyActive | ExporterFailed config_error

text \<open>\<^verbatim>\<open>Start\<close>, under the lock of the runtime; the serving goroutine is launched with it.\<close>

definition runtime_Start :: "(string \<Rightarrow> url option) \<Rightarrow> bool \<Rightarrow> nat \<Rightarrow> process \<Rightarrow> start_error option \<times> process" where
  "runtime_Start parse ctx i w =
     (let r = at w i in
      if \<not> ctx then (Some NilContext, w)
      else if rt_closed r then (Some RuntimeClosed, w)
      else if rt_start r then (Some AlreadyStarted, w)
      else case (if rt_legacy r then acquireLegacyServerRuntime i w else (True, w)) of
        (False, w) \<Rightarrow> (Some LegacyActive, w)
      | (True, w) \<Rightarrow>
          (case (if rt_exporter r = NoExporter \<and> tl_endpoint (sg_telemetry (rt_cfg r)) \<noteq> []
                 then newRuntimeTelemetry parse (sg_telemetry (rt_cfg r)) False else Inr (rt_exporter r)) of
             Inl e \<Rightarrow> (Some (ExporterFailed e), if rt_legacy r then releaseLegacyServerRuntime i w else w)
           | Inr x \<Rightarrow>
               (None,
                put_runtime i (r\<lparr>rt_exporter := x, rt_exporter_open := (x \<noteq> NoExporter), rt_start := True, rt_thread := Serving\<rparr>)
                  (if rt_legacy r then w\<lparr>pw_channel := Some i\<rparr> else w))))"

text \<open>The steps of the serving goroutine: the serving loop returns, then its deferred function runs.\<close>

definition close_done :: "runtime \<Rightarrow> runtime" where
  "close_done r = (if rt_done_once r then r else r\<lparr>rt_done_once := True, rt_done := Suc (rt_done r)\<rparr>)"

definition serve_step :: "nat \<Rightarrow> process \<Rightarrow> process" where
  "serve_step i w =
     (let r = at w i in
      case rt_thread r of
        Serving \<Rightarrow> put_runtime i (r\<lparr>rt_thread := Returned\<rparr>) w
      | Returned \<Rightarrow> put_runtime i (r\<lparr>rt_drain := snd (Drain (rt_drain r)), rt_exporter_open := False, rt_thread := Drained\<rparr>) w
      | Drained \<Rightarrow> put_runtime i (r\<lparr>rt_thread := Released\<rparr>) (if rt_legacy r then releaseLegacyServerRuntime i w else w)
      | Released \<Rightarrow> put_runtime i (close_done (r\<lparr>rt_closed := True, rt_thread := Ended\<rparr>)) w
      | _ \<Rightarrow> w)"

text \<open>\<^verbatim>\<open>ShutdownContext\<close>: a runtime that was not started is closed at once, the rest of it (\<open>shutdown_tail\<close>) follows.\<close>

definition ShutdownContext :: "bool \<Rightarrow> nat \<Rightarrow> process \<Rightarrow> process" where
  "ShutdownContext ctx i w =
     (let r = at w i in
      if \<not> ctx then w
      else if \<not> rt_start r then
        (if rt_closed r then w else (put_runtime i (r\<lparr>rt_closed := True\<rparr>) w)\<lparr>pw_tails := pw_tails w @ [i]\<rparr>)
      else
        let r = (if rt_stopped r then r
                 else r\<lparr>rt_stopped := True, rt_cancelled := True, rt_shutdown := rt_shutdown r \<or> rt_legacy r\<rparr>)
        in put_runtime i (r\<lparr>rt_drain := snd (Drain (rt_drain r))\<rparr>) w)"

definition shutdown_tail :: "nat \<Rightarrow> process \<Rightarrow> process" where
  "shutdown_tail i w =
     (if i \<in> set (pw_tails w)
      then (put_runtime i (close_done ((at w i)\<lparr>rt_drain := snd (Drain (rt_drain (at w i))), rt_exporter_open := False\<rparr>)) w)
             \<lparr>pw_tails := remove1 i (pw_tails w)\<rparr>
      else w)"

definition AddDrainHook :: "string option option \<Rightarrow> nat \<Rightarrow> process \<Rightarrow> process" where
  "AddDrainHook h i w = put_runtime i ((at w i)\<lparr>rt_drain := drain_Add h (rt_drain (at w i))\<rparr>) w"

inductive process_step :: "(string \<Rightarrow> url option) \<Rightarrow> process \<Rightarrow> process \<Rightarrow> bool" for parse where
  make: "NewServerRuntimeWithDeps parse cfg deps = Inr r \<Longrightarrow> process_step parse w (w\<lparr>pw_runtimes := pw_runtimes w @ [r]\<rparr>)"
| start: "i < length (pw_runtimes w) \<Longrightarrow> process_step parse w (snd (runtime_Start parse ctx i w))"
| serve: "i < length (pw_runtimes w) \<Longrightarrow> process_step parse w (serve_step i w)"
| shutdown: "i < length (pw_runtimes w) \<Longrightarrow> process_step parse w (ShutdownContext ctx i w)"
| tail: "i < length (pw_runtimes w) \<Longrightarrow> process_step parse w (shutdown_tail i w)"
| hook: "i < length (pw_runtimes w) \<Longrightarrow> process_step parse w (AddDrainHook h i w)"

inductive process_reachable :: "(string \<Rightarrow> url option) \<Rightarrow> process \<Rightarrow> bool" for parse where
  init: "process_reachable parse \<lparr>pw_owner = None, pw_channel = None, pw_tails = [], pw_runtimes = []\<rparr>"
| step: "process_reachable parse w \<Longrightarrow> process_step parse w w' \<Longrightarrow> process_reachable parse w'"

text \<open>The command line the legacy runner is started with.\<close>

definition runtime_args :: "server_config \<Rightarrow> string list" where
  "runtime_args c =
     [''--domain'', sg_domain c, ''--port'', format_int (sg_proxy_port c), ''--public-port'', format_int (sg_public_port c)] @
     (if sg_masque c then [''--masque''] else []) @ (if sg_webtransport c then [''--webtransport''] else []) @
     (if sg_cert c \<noteq> [] then [''--tls-cert'', sg_cert c] else []) @ (if sg_key c \<noteq> [] then [''--tls-key'', sg_key c] else []) @
     (if sg_state_file c \<noteq> [] then [''--state-file'', sg_state_file c] else []) @ (if sg_log_file c \<noteq> [] then [''--log-file'', sg_log_file c] else []) @
     (if sg_debug c then [''--debug''] else []) @ (if sg_request_log c then [''--request-log''] else []) @
     (if sg_client_ca c \<noteq> [] then [''--client-ca'', sg_client_ca c] else [])"

section \<open>Invariant\<close>

definition holds_globals :: "runtime \<Rightarrow> bool" where
  "holds_globals r \<longleftrightarrow> rt_legacy r \<and> rt_thread r \<in> {Serving, Returned, Drained}"

definition runtime_ok :: "runtime \<Rightarrow> bool" where
  "runtime_ok r \<longleftrightarrow> (rt_start r \<longleftrightarrow> rt_thread r \<noteq> Idle) \<and> rt_done r = (if rt_done_once r then 1 else 0) \<and>
     (rt_done_once r \<longrightarrow> rt_closed r) \<and> (rt_closed r \<longrightarrow> rt_thread r = Idle \<or> rt_thread r = Ended) \<and>
     (rt_thread r = Ended \<longleftrightarrow> rt_start r \<and> rt_closed r) \<and> (rt_thread r = Ended \<longrightarrow> rt_done_once r) \<and>
     (dr_ran (rt_drain r) \<noteq> [] \<longrightarrow> dr_once (rt_drain r)) \<and> (rt_thread r \<in> {Drained, Released, Ended} \<longrightarrow> \<not> rt_exporter_open r \<and> dr_once (rt_drain r)) \<and>
     (rt_cancelled r \<longleftrightarrow> rt_stopped r)"

definition process_ok :: "process \<Rightarrow> bool" where
  "process_ok w \<longleftrightarrow> (\<forall>i < length (pw_runtimes w). runtime_ok (at w i) \<and> (holds_globals (at w i) \<longleftrightarrow> pw_owner w = Some i)) \<and>
     (\<forall>i. pw_owner w = Some i \<longrightarrow> i < length (pw_runtimes w) \<and> pw_channel w = Some i) \<and>
     (\<forall>i \<in> set (pw_tails w). i < length (pw_runtimes w) \<and> \<not> rt_start (at w i) \<and> rt_closed (at w i))"

lemma at_put [simp]: "i < length (pw_runtimes w) \<Longrightarrow> at (put_runtime i r w) j = (if j = i then r else at w j)"
  by (simp add: at_def put_runtime_def nth_list_update)

lemma put_fields [simp]:
  "pw_owner (put_runtime i r w) = pw_owner w" "pw_channel (put_runtime i r w) = pw_channel w" "pw_tails (put_runtime i r w) = pw_tails w"
  "length (pw_runtimes (put_runtime i r w)) = length (pw_runtimes w)"
  by (simp_all add: put_runtime_def)

lemma at_update [simp]: "at (w\<lparr>pw_owner := x\<rparr>) = at w" "at (w\<lparr>pw_channel := x\<rparr>) = at w" "at (w\<lparr>pw_tails := y\<rparr>) = at w"
  by (simp_all add: at_def fun_eq_iff)

text \<open>A step of one runtime that keeps it well-formed and does not change whether it holds the globals.\<close>

lemma process_ok_put:
  assumes "process_ok w" "i < length (pw_runtimes w)" "runtime_ok r" "holds_globals r = holds_globals (at w i)"
    and "i \<in> set (pw_tails w) \<Longrightarrow> \<not> rt_start r \<and> rt_closed r"
  shows "process_ok (put_runtime i r w)"
  using assms by (auto simp: process_ok_def)

lemma Drain_once: "dr_once (snd (Drain d))" "dr_once d \<Longrightarrow> Drain d = (dr_err d, d)"
  by (simp_all add: Drain_def)

lemma new_runtime_fields:
  assumes "NewServerRuntimeWithDeps parse cfg deps = Inr r"
  shows "runtime_ok r" "rt_thread r = Idle"
proof -
  obtain cfg' ha store x where "r = \<lparr>rt_cfg = cfg', rt_ha = ha, rt_store = store, rt_exporter = x, rt_exporter_open = (x \<noteq> NoExporter),
      rt_legacy = \<not> (dp_run deps \<or> dp_run_context deps \<or> dp_run_with_deps deps),
      rt_start = False, rt_closed = False, rt_stopped = False, rt_cancelled = False, rt_shutdown = False,
      rt_done_once = False, rt_done = 0, rt_drain = \<lparr>dr_hooks = [], dr_once = False, dr_err = None, dr_ran = []\<rparr>, rt_thread = Idle\<rparr>"
    using assms by (auto simp: NewServerRuntimeWithDeps_def newServerRuntime_def Let_def split: option.split_asm sum.split_asm)
  then show "runtime_ok r" "rt_thread r = Idle" by (simp_all add: runtime_ok_def)
qed

lemma make_ok:
  assumes "process_ok w" "NewServerRuntimeWithDeps parse cfg deps = Inr r"
  shows "process_ok (w\<lparr>pw_runtimes := pw_runtimes w @ [r]\<rparr>)"
proof -
  have old: "at (w\<lparr>pw_runtimes := pw_runtimes w @ [r]\<rparr>) j = (if j < length (pw_runtimes w) then at w j else if j = length (pw_runtimes w) then r else at (w\<lparr>pw_runtimes := pw_runtimes w @ [r]\<rparr>) j)" for j
    by (simp add: at_def nth_append)
  have "\<not> holds_globals r" "runtime_ok r" using new_runtime_fields [OF assms(2)] by (auto simp: holds_globals_def)
  then show ?thesis using assms(1) unfolding process_ok_def by (subst (1 2 3 4) old) (auto simp: less_Suc_eq)
qed

lemma at_ok: "process_ok w \<Longrightarrow> i < length (pw_runtimes w) \<Longrightarrow> runtime_ok (at w i) \<and> (holds_globals (at w i) \<longleftrightarrow> pw_owner w = Some i)"
  by (simp add: process_ok_def)

lemma start_succeeds:
  assumes "runtime_Start parse ctx i w = (None, w')"
  shows "\<not> rt_closed (at w i)" "\<not> rt_start (at w i)" "rt_legacy (at w i) \<longrightarrow> pw_owner w = None"
    "\<exists>x. w' = put_runtime i ((at w i)\<lparr>rt_exporter := x, rt_exporter_open := (x \<noteq> NoExporter), rt_start := True, rt_thread := Serving\<rparr>)
       (if rt_legacy (at w i) then w\<lparr>pw_owner := Some i, pw_channel := Some i\<rparr> else w)"
proof -
  show new: "\<not> rt_closed (at w i)" "\<not> rt_start (at w i)" and own: "rt_legacy (at w i) \<longrightarrow> pw_owner w = None"
    using assms by (auto simp: runtime_Start_def Let_def acquireLegacyServerRuntime_def split: if_split_asm)
  have ctx using assms by (auto simp: runtime_Start_def Let_def split: if_split_asm)
  let ?e = "if rt_exporter (at w i) = NoExporter \<and> tl_endpoint (sg_telemetry (rt_cfg (at w i))) \<noteq> []
      then newRuntimeTelemetry parse (sg_telemetry (rt_cfg (at w i))) False else Inr (rt_exporter (at w i))"
  have start: "runtime_Start parse ctx i w = (case (if rt_legacy (at w i) then acquireLegacyServerRuntime i w else (True, w)) of
        (False, w) \<Rightarrow> (Some LegacyActive, w)
      | (True, v) \<Rightarrow> (case ?e of Inl e \<Rightarrow> (Some (ExporterFailed e), if rt_legacy (at w i) then releaseLegacyServerRuntime i v else v)
           | Inr x \<Rightarrow> (None, put_runtime i ((at w i)\<lparr>rt_exporter := x, rt_exporter_open := (x \<noteq> NoExporter), rt_start := True, rt_thread := Serving\<rparr>)
                  (if rt_legacy (at w i) then v\<lparr>pw_channel := Some i\<rparr> else v))))"
    using new \<open>ctx\<close> unfolding runtime_Start_def Let_def by simp
  have acq: "(if rt_legacy (at w i) then acquireLegacyServerRuntime i w else (True, w)) =
      (True, if rt_legacy (at w i) then w\<lparr>pw_owner := Some i\<rparr> else w)" using own by (simp add: acquireLegacyServerRuntime_def)
  obtain x where "?e = Inr x" using assms unfolding start acq by (cases ?e) (simp_all split: if_split_asm)
  then show "\<exists>x. w' = put_runtime i ((at w i)\<lparr>rt_exporter := x, rt_exporter_open := (x \<noteq> NoExporter), rt_start := True, rt_thread := Serving\<rparr>)
       (if rt_legacy (at w i) then w\<lparr>pw_owner := Some i, pw_channel := Some i\<rparr> else w)"
    using assms unfolding start acq by (intro exI [of _ x]) (simp split: if_splits)
qed

lemma start_ok:
  assumes "process_ok w" "i < length (pw_runtimes w)"
  shows "process_ok (snd (runtime_Start parse ctx i w))"
proof (cases "\<exists>x. runtime_Start parse ctx i w = (None, x)")
  case False
  then have "snd (runtime_Start parse ctx i w) = w"
    by (auto simp: runtime_Start_def Let_def acquireLegacyServerRuntime_def releaseLegacyServerRuntime_def split: if_splits sum.splits)
  then show ?thesis using assms(1) by simp
next
  case True
  let ?r = "at w i"
  obtain v where "runtime_Start parse ctx i w = (None, v)" using True by blast
  note new = start_succeeds(1-3) [OF this]
  obtain x where w': "snd (runtime_Start parse ctx i w) = put_runtime i (?r\<lparr>rt_exporter := x, rt_exporter_open := (x \<noteq> NoExporter), rt_start := True, rt_thread := Serving\<rparr>)
       (if rt_legacy ?r then w\<lparr>pw_owner := Some i, pw_channel := Some i\<rparr> else w)"
    using start_succeeds(4) [OF \<open>runtime_Start parse ctx i w = (None, v)\<close>] \<open>runtime_Start parse ctx i w = (None, v)\<close> by auto
  let ?s = "?r\<lparr>rt_exporter := x, rt_exporter_open := (x \<noteq> NoExporter), rt_start := True, rt_thread := Serving\<rparr>"
  have ok: "runtime_ok ?s" using at_ok [OF assms] new by (auto simp: runtime_ok_def)
  have tail: "i \<notin> set (pw_tails w)" using assms(1) new(1) by (auto simp: process_ok_def)
  show ?thesis
  proof (cases "rt_legacy ?r")
    case False
    then show ?thesis unfolding w' using assms ok tail at_ok [OF assms] by (auto intro!: process_ok_put simp: holds_globals_def)
  next
    case True
    have "process_ok w" "pw_owner w = None" using assms(1) new(3) True by auto
    then have "\<forall>j < length (pw_runtimes w). \<not> holds_globals (at w j)" by (simp add: process_ok_def)
    then show ?thesis unfolding w' using assms(1,2) ok tail True by (auto simp: process_ok_def holds_globals_def)
  qed
qed

lemma release_ok:
  assumes "process_ok w" "i < length (pw_runtimes w)" "rt_thread (at w i) = Drained"
  shows "process_ok (put_runtime i ((at w i)\<lparr>rt_thread := Released\<rparr>) (if rt_legacy (at w i) then releaseLegacyServerRuntime i w else w))"
proof -
  let ?r = "(at w i)\<lparr>rt_thread := Released\<rparr>"
  have ok: "runtime_ok ?r" "i \<notin> set (pw_tails w)" using at_ok [OF assms(1,2)] assms by (auto simp: runtime_ok_def process_ok_def)
  show ?thesis
  proof (cases "rt_legacy (at w i)")
    case True
    then have "pw_owner w = Some i" using at_ok [OF assms(1,2)] assms(3) by (simp add: holds_globals_def)
    then show ?thesis using True assms ok by (auto simp: releaseLegacyServerRuntime_def process_ok_def holds_globals_def)
  next
    case False
    then show ?thesis using assms ok by (auto intro!: process_ok_put simp: holds_globals_def)
  qed
qed

lemma started_no_tail: "process_ok w \<Longrightarrow> rt_start (at w i) \<Longrightarrow> i \<notin> set (pw_tails w)"
  by (auto simp: process_ok_def)

lemma serve_ok:
  assumes "process_ok w" "i < length (pw_runtimes w)"
  shows "process_ok (serve_step i w)"
proof -
  let ?r = "at w i"
  have r: "runtime_ok ?r" using at_ok [OF assms] by simp
  then have "rt_start ?r \<longleftrightarrow> rt_thread ?r \<noteq> Idle" unfolding runtime_ok_def by (elim conjE)
  then have start: "rt_thread ?r \<noteq> Idle \<Longrightarrow> i \<notin> set (pw_tails w)" using started_no_tail [OF assms(1)] by blast
  show ?thesis
  proof (cases "rt_thread ?r")
    case Serving
    then show ?thesis using r start assms by (auto simp: serve_step_def Let_def runtime_ok_def holds_globals_def intro!: process_ok_put)
  next
    case Returned
    have "runtime_ok (?r\<lparr>rt_drain := snd (Drain (rt_drain ?r)), rt_exporter_open := False, rt_thread := Drained\<rparr>)"
      using r Returned Drain_once(1) [of "rt_drain ?r"] by (auto simp: runtime_ok_def)
    then show ?thesis using Returned start assms by (auto simp: serve_step_def Let_def holds_globals_def intro!: process_ok_put)
  next
    case Drained
    then show ?thesis using release_ok [OF assms] by (simp add: serve_step_def Let_def)
  next
    case Released
    then have "runtime_ok (close_done (?r\<lparr>rt_closed := True, rt_thread := Ended\<rparr>))" using r by (auto simp: runtime_ok_def close_done_def)
    moreover have "rt_thread (close_done (?r\<lparr>rt_closed := True, rt_thread := Ended\<rparr>)) = Ended" by (simp add: close_done_def)
    ultimately show ?thesis using Released start assms by (auto simp: serve_step_def Let_def holds_globals_def intro!: process_ok_put)
  qed (use assms in \<open>simp_all add: serve_step_def Let_def\<close>)
qed

lemma shutdown_ok:
  assumes "process_ok w" "i < length (pw_runtimes w)"
  shows "process_ok (ShutdownContext ctx i w)"
proof -
  let ?r = "at w i"
  have r: "runtime_ok ?r" using at_ok [OF assms] by simp
  consider "\<not> ctx \<or> \<not> rt_start ?r \<and> rt_closed ?r" | "ctx" "\<not> rt_start ?r" "\<not> rt_closed ?r" | "ctx" "rt_start ?r" by blast
  then show ?thesis
  proof cases
    case 1
    then show ?thesis using assms by (auto simp: ShutdownContext_def Let_def)
  next
    case 2
    then have "process_ok (put_runtime i (?r\<lparr>rt_closed := True\<rparr>) w)"
      using r assms by (intro process_ok_put) (auto simp: runtime_ok_def holds_globals_def)
    then show ?thesis using 2 assms by (auto simp: ShutdownContext_def Let_def process_ok_def)
  next
    case 3
    let ?s = "if rt_stopped ?r then ?r else ?r\<lparr>rt_stopped := True, rt_cancelled := True, rt_shutdown := rt_shutdown ?r \<or> rt_legacy ?r\<rparr>"
    let ?t = "?s\<lparr>rt_drain := snd (Drain (rt_drain ?s))\<rparr>"
    have "runtime_ok ?t" using r Drain_once(1) [of "rt_drain ?s"] by (auto simp: runtime_ok_def)
    moreover have "holds_globals ?t = holds_globals ?r" by (simp add: holds_globals_def)
    ultimately have "process_ok (put_runtime i ?t w)" using assms started_no_tail [OF assms(1) 3(2)] by (intro process_ok_put) auto
    then show ?thesis using 3 by (simp add: ShutdownContext_def Let_def)
  qed
qed

lemma tail_ok:
  assumes "process_ok w" "i < length (pw_runtimes w)"
  shows "process_ok (shutdown_tail i w)"
proof (cases "i \<in> set (pw_tails w)")
  case True
  let ?r = "at w i"
  let ?t = "close_done (?r\<lparr>rt_drain := snd (Drain (rt_drain ?r)), rt_exporter_open := False\<rparr>)"
  have c: "\<not> rt_start ?r" "rt_closed ?r" using True assms(1) by (auto simp: process_ok_def)
  then have "runtime_ok ?t" using at_ok [OF assms] Drain_once(1) [of "rt_drain ?r"] by (auto simp: runtime_ok_def close_done_def)
  moreover have "holds_globals ?t = holds_globals ?r" "\<not> rt_start ?t" "rt_closed ?t" using c by (auto simp: holds_globals_def close_done_def)
  ultimately have "process_ok (put_runtime i ?t w)" using assms by (intro process_ok_put) auto
  then have "process_ok ((put_runtime i ?t w)\<lparr>pw_tails := remove1 i (pw_tails w)\<rparr>)"
    using notin_set_remove1 [of _ "pw_tails w" i] by (auto simp: process_ok_def dest: set_remove1_subset [THEN subsetD])
  then show ?thesis using True by (simp add: shutdown_tail_def)
qed (use assms in \<open>simp add: shutdown_tail_def\<close>)

lemma hook_ok:
  assumes "process_ok w" "i < length (pw_runtimes w)"
  shows "process_ok (AddDrainHook h i w)"
proof -
  have "runtime_ok ((at w i)\<lparr>rt_drain := drain_Add h (rt_drain (at w i))\<rparr>)"
    using at_ok [OF assms] by (auto simp: runtime_ok_def drain_Add_def split: option.split)
  then show ?thesis using assms by (auto simp: AddDrainHook_def process_ok_def holds_globals_def)
qed

lemma process_step_ok: "process_step parse w w' \<Longrightarrow> process_ok w \<Longrightarrow> process_ok w'"
  by (induction rule: process_step.induct) (auto intro: make_ok start_ok serve_ok shutdown_ok tail_ok hook_ok)

lemma process_reachable_ok: "process_reachable parse w \<Longrightarrow> process_ok w"
proof (induction rule: process_reachable.induct)
  case init
  show ?case by (simp add: process_ok_def)
next
  case (step w w')
  then show ?case by (blast intro: process_step_ok)
qed

text \<open>C18. Runtimes of one process do not interfere: under every interleaving of constructions, starts, shutdowns and serving goroutines at most
  one runtime that uses the legacy globals is between its start and their release, and it owns them and the shutdown channel
  published to the CLI runner; \<^verbatim>\<open>Done\<close> is closed at most once, only when the runtime no longer serves and its drain hooks have run
  (or it was never started), and a runtime that was shut down or has ended can never be started again.\<close>

theorem runtimes_isolated:
  assumes "process_reachable parse w" "i < length (pw_runtimes w)"
  shows "(\<forall>j < length (pw_runtimes w). holds_globals (at w i) \<and> holds_globals (at w j) \<longrightarrow> i = j) \<and>
    (holds_globals (at w i) \<longrightarrow> pw_owner w = Some i \<and> pw_channel w = Some i) \<and>
    rt_done (at w i) \<le> 1 \<and> (rt_done (at w i) = 1 \<longrightarrow> rt_thread (at w i) = Idle \<or> rt_thread (at w i) = Ended \<and> dr_once (rt_drain (at w i))) \<and>
    (rt_closed (at w i) \<longrightarrow> runtime_Start parse True i w = (Some RuntimeClosed, w) \<and> pw_owner w \<noteq> Some i)"
proof -
  have ok: "process_ok w" using assms(1) by (rule process_reachable_ok)
  then have r: "runtime_ok (at w i)" "holds_globals (at w i) \<longleftrightarrow> pw_owner w = Some i" using at_ok assms(2) by blast+
  have one: "\<forall>j < length (pw_runtimes w). holds_globals (at w i) \<and> holds_globals (at w j) \<longrightarrow> i = j"
    using at_ok [OF ok] r(2) by fastforce
  have chan: "holds_globals (at w i) \<longrightarrow> pw_owner w = Some i \<and> pw_channel w = Some i" using ok r(2) unfolding process_ok_def by blast
  have closes: "rt_done (at w i) \<le> 1" "rt_done (at w i) = 1 \<longrightarrow> rt_done_once (at w i)" using r(1) by (simp_all add: runtime_ok_def)
  have idle: "rt_done_once (at w i) \<longrightarrow> rt_thread (at w i) = Idle \<or> rt_thread (at w i) = Ended \<and> dr_once (rt_drain (at w i))"
    using r(1) unfolding runtime_ok_def by blast
  have "rt_closed (at w i) \<longrightarrow> rt_thread (at w i) = Idle \<or> rt_thread (at w i) = Ended" using r(1) unfolding runtime_ok_def by blast
  then have "rt_closed (at w i) \<longrightarrow> pw_owner w \<noteq> Some i" unfolding r(2) [symmetric] holds_globals_def by auto
  moreover have "rt_closed (at w i) \<longrightarrow> runtime_Start parse True i w = (Some RuntimeClosed, w)" by (simp add: runtime_Start_def Let_def)
  ultimately show ?thesis using one chan closes idle by blast
qed

definition plain_deps :: runtime_deps where
  "plain_deps = \<lparr>dp_run = False, dp_run_context = False, dp_run_with_deps = False, dp_store = False, dp_open_sql = None, dp_exporter = False,
     dp_server_exporter = False\<rparr>"

lemma sample_runtime: "\<exists>r. NewServerRuntimeWithDeps (\<lambda>_. None) sample_server_config plain_deps = Inr r"
proof -
  obtain c0 where c: "sample_server_config = MigrateServerConfig c0" "server_Validate (\<lambda>_. None) sample_server_config = None"
    using loaded_server [OF sample_loads] .
  then have "MigrateServerConfig sample_server_config = sample_server_config" using migrate_server_idem by metis
  moreover have "sg_backend sample_server_config = ''memory''" "tl_endpoint (sg_telemetry sample_server_config) = []"
    by (simp_all add: sample_server_config_def DefaultServerConfig_def defaultTelemetryConfig_def)
  ultimately show ?thesis using c(2)
    by (simp add: NewServerRuntimeWithDeps_def newServerRuntime_def Let_def HAConfigFromServerConfig_def NewRuntimeStateStore_def plain_deps_def
        validateTelemetryConfig_def trim_space_def)
qed

theorem runtimes_isolated_witness:
  "\<exists>w. process_reachable (\<lambda>_. None) w \<and> length (pw_runtimes w) = 1 \<and> rt_closed (at w 0) \<and>
     runtime_Start (\<lambda>_. None) True 0 w = (Some RuntimeClosed, w)"
proof -
  let ?parse = "\<lambda>_ :: string. None :: url option"
  obtain r where r: "NewServerRuntimeWithDeps ?parse sample_server_config plain_deps = Inr r" using sample_runtime by blast
  let ?w0 = "\<lparr>pw_owner = None, pw_channel = None, pw_tails = [], pw_runtimes = []\<rparr>"
  let ?w1 = "?w0\<lparr>pw_runtimes := pw_runtimes ?w0 @ [r]\<rparr>"
  let ?w2 = "ShutdownContext True 0 ?w1"
  have "process_reachable ?parse ?w1" using process_reachable.step [OF process_reachable.init process_step.make [OF r]] .
  then have w2: "process_reachable ?parse ?w2" by (rule process_reachable.step) (rule process_step.shutdown, simp)
  have "rt_thread r = Idle" "runtime_ok r" using new_runtime_fields [OF r] by simp_all
  then have "\<not> rt_start r" unfolding runtime_ok_def by blast
  then have "rt_closed (at ?w2 0)" "length (pw_runtimes ?w2) = 1" by (simp_all add: ShutdownContext_def at_def put_runtime_def Let_def)
  then show ?thesis using runtimes_isolated [OF w2, of 0] w2 by (intro exI [of _ ?w2]) simp
qed

text \<open>After the serving loop returns, four steps of the goroutine end the runtime and free the globals for another one.\<close>

lemma serving_ends:
  assumes "process_ok w" "i < length (pw_runtimes w)" "rt_thread (at w i) = Serving"
  shows "rt_thread (at (((serve_step i) ^^ 4) w) i) = Ended \<and> rt_done (at (((serve_step i) ^^ 4) w) i) = 1 \<and> pw_owner (((serve_step i) ^^ 4) w) \<noteq> Some i"
proof -
  have len: "length (pw_runtimes (serve_step i v)) = length (pw_runtimes v)" for v
    by (auto simp: serve_step_def Let_def releaseLegacyServerRuntime_def split: thread.split)
  have adv: "i < length (pw_runtimes v) \<Longrightarrow> rt_thread (at (serve_step i v) i) =
      (case rt_thread (at v i) of Serving \<Rightarrow> Returned | Returned \<Rightarrow> Drained | Drained \<Rightarrow> Released | Released \<Rightarrow> Ended | t \<Rightarrow> t)" for v
    by (auto simp: serve_step_def Let_def releaseLegacyServerRuntime_def close_done_def split: thread.split)
  let ?v = "((serve_step i) ^^ 4) w"
  have "rt_thread (at ?v i) = Ended" "i < length (pw_runtimes ?v)" using assms by (simp_all add: numeral_eq_Suc adv len)
  moreover have "process_ok ?v" using assms by (simp add: numeral_eq_Suc serve_ok len)
  ultimately show ?thesis using at_ok [of ?v i] by (auto simp: runtime_ok_def holds_globals_def)
qed

end
