(* ===== verification/Spec2Isabelle.thy ===== *)
theory Spec2Isabelle
  imports Tunnel Consent Ownership Signal_Relay Visitor_Proxy Egress Peer_Exchange Server_Runtime
begin

text \<open>Header.\<close>

section \<open>Visitors and tunnel policy\<close>





lemma visitor_udp_not_local [simp]: "handleVisitorUDPStream st s \<noteq> RelayLocal target rest"
  by (auto simp: handleVisitorUDPStream_def Let_def split: option.splits)









end
